(* ===== verification/Sb_Prelude.thy ===== *)
theory Sb_Prelude
  imports Main "HOL-Library.Word"
begin

unbundle bit_operations_syntax

text \<open>
  Shared vocabulary of the development: the fixed-width integer types of
  \<^verbatim>\<open>stdint.h\<close>, byte-addressed memory with the little-endian loads and stores that the
  x86-64 compiler emits for \<^verbatim>\<open>uint16_t\<close>, \<^verbatim>\<open>uint32_t\<close> and \<^verbatim>\<open>uint64_t\<close> accesses,
  alignment, and the lemmas that carry words to natural numbers or to single bits.
\<close>

section \<open>Machine integers\<close>

type_synonym u8 = "8 word"
type_synonym u16 = "16 word"
type_synonym u32 = "32 word"
type_synonym u64 = "64 word"

text \<open>Facts that move arithmetic on words to arithmetic on natural numbers.\<close>

named_theorems word_nat
named_theorems mem_simps \<comment> \<open>reads over writes\<close>

lemma unat_u64_less: "unat (x :: u64) < 18446744073709551616"
  using unsigned_less [of x, where ?'a = nat] by simp

lemma unat_u32_less: "unat (x :: u32) < 4294967296"
  using unsigned_less [of x, where ?'a = nat] by simp

lemma unat_u16_less: "unat (x :: u16) < 65536"
  using unsigned_less [of x, where ?'a = nat] by simp

lemma unat_u8_less: "unat (x :: u8) < 256"
  using unsigned_less [of x, where ?'a = nat] by simp

lemma unat_add_small [word_nat]:
  "unat x + unat y < 2 ^ LENGTH('a) \<Longrightarrow> unat (x + y) = unat x + unat y"
  for x y :: "'a::len word"
  by (simp add: unat_word_ariths)

lemma unat_mult_small [word_nat]:
  "unat x * unat y < 2 ^ LENGTH('a) \<Longrightarrow> unat (x * y) = unat x * unat y"
  for x y :: "'a::len word"
  by (simp add: unat_word_ariths)

lemma unat_of_nat_small: "i < 2 ^ LENGTH('a) \<Longrightarrow> unat (of_nat i :: 'a::len word) = i"
  by (simp add: unat_of_nat)

lemma unat_ucast_small:
  "unat x < 2 ^ LENGTH('b) \<Longrightarrow> unat (ucast x :: 'b::len word) = unat x" for x :: "'a::len word"
  by (simp add: unsigned_ucast_eq take_bit_nat_eq_self)

lemma unat_widen:
  assumes "LENGTH('a) \<le> LENGTH('b)"
  shows "unat (ucast (x :: 'a::len word) :: 'b::len word) = unat x"
proof (rule unat_ucast_small)
  have "unat x < 2 ^ LENGTH('a)" by (rule unsigned_less)
  also have "\<dots> \<le> 2 ^ LENGTH('b)" using assms by (rule power_increasing) simp
  finally show "unat x < 2 ^ LENGTH('b)" .
qed

lemma unat_widen_simps [simp]:
  "unat (ucast (b :: u8) :: u16) = unat b" "unat (ucast (b :: u8) :: u32) = unat b"
  "unat (ucast (b :: u8) :: u64) = unat b" "unat (ucast (h :: u16) :: u32) = unat h"
  "unat (ucast (h :: u16) :: u64) = unat h" "unat (ucast (w :: u32) :: u64) = unat w"
  by (simp_all add: unat_widen)

lemma unat_and_mask: "unat (x AND mask n) = unat x mod 2 ^ n"
  for x :: "'a::len word"
  by (simp add: take_bit_eq_mask [symmetric] take_bit_eq_mod [symmetric] unsigned_take_bit_eq)

lemma and_mask_dvd: "x AND mask n = 0 \<longleftrightarrow> 2 ^ n dvd unat x"
  for x :: "'a::len word"
  by (simp add: unat_eq_zero [symmetric] unat_and_mask dvd_eq_mod_eq_0 del: unat_eq_zero)

lemma and_not_mask_plus: "(x AND NOT (mask n)) + (x AND mask n) = x"
  for x :: "'a::len word"
proof -
  have "(x AND NOT (mask n)) + (x AND mask n) = (x AND NOT (mask n)) OR (x AND mask n)"
    by (rule disjunctive_add) (auto simp: bit_simps)
  also have "\<dots> = x"
    by (rule bit_word_eqI) (auto simp: bit_simps)
  finally show ?thesis .
qed

lemma unat_and_not_mask: "unat (x AND NOT (mask n)) = unat x - unat x mod 2 ^ n"
  for x :: "'a::len word"
proof -
  have "x AND NOT (mask n) = x - (x AND mask n)"
    by (metis and_not_mask_plus add_diff_cancel_right')
  moreover have "x AND mask n \<le> x"
    by (simp add: word_le_nat_alt unat_and_mask)
  ultimately show ?thesis
    by (simp add: unat_sub unat_and_mask)
qed

text \<open>Natural-number readings of the two alignment idioms of the source.\<close>

lemma unat_and_not_mask_mult: "unat (x AND NOT (mask n)) = unat x div 2 ^ n * 2 ^ n"
  for x :: "'a::len word"
  by (simp add: unat_and_not_mask minus_mod_eq_div_mult)

lemma bit_unat_lt: "bit (x :: 'a::len word) i \<Longrightarrow> i < LENGTH('a)"
  by (rule bit_imp_le_length)

section \<open>Byte memory\<close>

type_synonym memory = "u64 \<Rightarrow> u8"

primrec load_le :: "memory \<Rightarrow> u64 \<Rightarrow> nat \<Rightarrow> 'a::len word" where
  "load_le m a 0 = 0"
| "load_le m a (Suc n) = ucast (m a) OR push_bit 8 (load_le m (a + 1) n)"

primrec store_le :: "memory \<Rightarrow> u64 \<Rightarrow> 'a::len word \<Rightarrow> nat \<Rightarrow> memory" where
  "store_le m a v 0 = m"
| "store_le m a v (Suc n) = (store_le m (a + 1) (drop_bit 8 v) n)(a := ucast v)"

definition load16 :: "memory \<Rightarrow> u64 \<Rightarrow> u16" where
  "load16 m a = load_le m a 2"

definition load32 :: "memory \<Rightarrow> u64 \<Rightarrow> u32" where
  "load32 m a = load_le m a 4"

definition load64 :: "memory \<Rightarrow> u64 \<Rightarrow> u64" where
  "load64 m a = load_le m a 8"

definition store64 :: "memory \<Rightarrow> u64 \<Rightarrow> u64 \<Rightarrow> memory" where
  "store64 m a v = store_le m a v 8"

text \<open>The loads written out byte by byte, for concrete memories.\<close>

lemma load16_bytes: "load16 m a = ucast (m a) OR push_bit 8 (ucast (m (a + 1)))"
  by (simp add: load16_def numeral_2_eq_2)

lemma load32_bytes:
  "load32 m a = ucast (m a) OR push_bit 8 (ucast (m (a + 1))) OR push_bit 16 (ucast (m (a + 2))) OR
     push_bit 24 (ucast (m (a + 3)))"
proof -
  have n: "(4 :: nat) = Suc (Suc (Suc (Suc 0)))" by simp
  show ?thesis
    unfolding load32_def by (subst n) (simp add: push_bit_or push_bit_push_bit or.assoc add.assoc)
qed

lemma load64_bytes:
  "load64 m a = ucast (m a) OR push_bit 8 (ucast (m (a + 1))) OR push_bit 16 (ucast (m (a + 2))) OR
     push_bit 24 (ucast (m (a + 3))) OR push_bit 32 (ucast (m (a + 4))) OR
     push_bit 40 (ucast (m (a + 5))) OR push_bit 48 (ucast (m (a + 6))) OR push_bit 56 (ucast (m (a + 7)))"
proof -
  have n: "(8 :: nat) = Suc (Suc (Suc (Suc (Suc (Suc (Suc (Suc 0)))))))" by simp
  show ?thesis
    unfolding load64_def by (subst n) (simp add: push_bit_or push_bit_push_bit or.assoc add.assoc)
qed

lemma bit_load_le:
  "bit (load_le m a n :: 'a::len word) i \<longleftrightarrow>
     i < LENGTH('a) \<and> i < 8 * n \<and> bit (m (a + of_nat (i div 8))) (i mod 8)"
proof (induction n arbitrary: a i)
  case 0
  show ?case by simp
next
  case (Suc n)
  show ?case
  proof (cases "i < 8")
    case True
    then show ?thesis by (auto simp: bit_simps)
  next
    case False
    then have "i div 8 = Suc ((i - 8) div 8)" and "i mod 8 = (i - 8) mod 8"
      by (simp_all add: le_div_geq le_mod_geq)
    moreover have "a + 1 + word_of_nat ((i - 8) div 8) = a + word_of_nat (Suc ((i - 8) div 8))"
      by simp
    ultimately show ?thesis
      using False by (auto simp: bit_simps Suc.IH add.assoc dest: bit_imp_le_length)
  qed
qed

lemma store_le_apply:
  assumes "n \<le> 2 ^ 64"
  shows "store_le m a v n b =
    (if unat (b - a) < n then ucast (drop_bit (8 * unat (b - a)) v) else m b)"
  using assms
proof (induction n arbitrary: a v)
  case 0
  show ?case by simp
next
  case (Suc n)
  show ?case
  proof (cases "b = a")
    case True
    then show ?thesis by simp
  next
    case False
    then have "unat (b - a) = Suc (unat (b - (a + 1)))"
      using unat_minus_one [of "b - a"] by (simp add: diff_diff_eq unat_gt_0)
    with False Suc show ?thesis
      by (auto simp: drop_bit_drop_bit add.commute)
  qed
qed


text \<open>Bytes of a region that stays below an alignment boundary do not wrap around.\<close>

lemma unat_aligned_add:
  assumes "2 ^ k dvd unat (a :: u64)" and "i < 2 ^ k" and "k \<le> 64"
  shows "unat (a + of_nat i) = unat a + i"
proof -
  obtain q where q: "unat a = 2 ^ k * q" using assms(1) by blast
  have e: "(2 :: nat) ^ 64 = 2 ^ k * 2 ^ (64 - k)"
    using assms(3) by (simp add: power_add [symmetric])
  have "2 ^ k * q < 2 ^ k * 2 ^ (64 - k)"
    using unsigned_less [of a, where ?'a = nat] q e by simp
  then have "Suc q \<le> 2 ^ (64 - k)" by simp
  then have "2 ^ k * Suc q \<le> 2 ^ k * 2 ^ (64 - k)" by (rule mult_le_mono2)
  then have "unat a + i < 2 ^ 64" using q assms(2) e by simp
  moreover from this have "unat (of_nat i :: u64) = i"
    by (intro unat_of_nat_small) simp
  ultimately show ?thesis by (simp add: unat_add_small)
qed

lemma aligned_add_inj:
  assumes "2 ^ k dvd unat (a :: u64)" "2 ^ k dvd unat b" "i < 2 ^ k" "j < 2 ^ k" "k \<le> 64"
  shows "a + of_nat i = b + of_nat j \<longleftrightarrow> a = b \<and> i = j"
proof
  assume "a + of_nat i = b + of_nat j"
  then have "unat a + i = unat b + j"
    using assms unat_aligned_add by metis
  moreover obtain p q where "unat a = 2 ^ k * p" "unat b = 2 ^ k * q"
    using assms(1,2) by blast
  ultimately have *: "2 ^ k * p + i = 2 ^ k * q + j" by simp
  have "p = q" using * assms(3,4)
    by (metis div_less div_mult_self2 add.commute add.left_neutral power_not_zero zero_neq_numeral)
  with * show "a = b \<and> i = j"
    using \<open>unat a = 2 ^ k * p\<close> \<open>unat b = 2 ^ k * q\<close> by (simp add: word_unat_eq_iff)
qed simp

lemma load_store_same [mem_simps]: "load64 (store64 m a v) a = v"
proof (rule bit_word_eqI)
  fix n assume "n < LENGTH(64)"
  then have n: "n < 64" and d: "n div 8 < 8" by simp_all
  have "unat (of_nat (n div 8) :: u64) = n div 8"
    using d by (intro unat_of_nat_small) simp
  then show "bit (load64 (store64 m a v) a) n \<longleftrightarrow> bit v n"
    using n d by (auto simp: load64_def store64_def bit_load_le store_le_apply bit_simps)
qed

lemma load_le_cong:
  "(\<And>i. i < n \<Longrightarrow> m (a + of_nat i) = m' (a + of_nat i)) \<Longrightarrow>
   (load_le m a n :: 'a::len word) = load_le m' a n"
  by (rule bit_word_eqI) (auto simp: bit_load_le)

lemma load_store_other [mem_simps]:
  assumes "8 dvd unat a" "8 dvd unat b" "a \<noteq> b"
  shows "load64 (store64 m a v) b = load64 m b"
  unfolding load64_def
proof (rule load_le_cong)
  fix i :: nat assume i: "i < 8"
  have "\<not> unat (b + of_nat i - a) < 8"
  proof
    assume l: "unat (b + of_nat i - a) < 8"
    have "b + of_nat i = a + of_nat (unat (b + of_nat i - a))" by simp
    with aligned_add_inj [of 3 b a i "unat (b + of_nat i - a)"] assms i l show False by auto
  qed
  then show "store64 m a v (b + of_nat i) = m (b + of_nat i)"
    by (simp add: store64_def store_le_apply)
qed

lemma load64_upd_other:
  assumes "\<And>i. i < 8 \<Longrightarrow> b + of_nat i \<noteq> a"
  shows "load64 (m(a := v)) b = load64 m b"
  unfolding load64_def by (rule load_le_cong) (use assms in auto)

text \<open>A memory that holds a given list of bytes at an address and zero elsewhere.\<close>

definition bytes_at :: "u64 \<Rightarrow> u8 list \<Rightarrow> memory" where
  "bytes_at base bs a = (if unat (a - base) < length bs then bs ! unat (a - base) else 0)"

section \<open>Pages\<close>

definition SB_PAGE_SIZE :: u64 where
  "SB_PAGE_SIZE = 4096"

lemma unat_page_size [simp]: "unat SB_PAGE_SIZE = 4096"
  by (simp add: SB_PAGE_SIZE_def)

definition page_aligned :: "u64 \<Rightarrow> bool" where
  "page_aligned a \<longleftrightarrow> a AND (SB_PAGE_SIZE - 1) = 0"

definition page_of :: "u64 \<Rightarrow> u64" where
  "page_of a = a AND NOT (SB_PAGE_SIZE - 1)"

lemma page_mask_eq: "SB_PAGE_SIZE - 1 = mask 12"
  by (simp add: SB_PAGE_SIZE_def mask_eq_exp_minus_1)

lemma page_aligned_dvd: "page_aligned a \<longleftrightarrow> 4096 dvd unat a"
  using and_mask_dvd [of a 12] by (simp add: page_aligned_def page_mask_eq)

lemma unat_page_of: "unat (page_of a) = unat a div 4096 * 4096"
  using unat_and_not_mask_mult [of a 12] by (simp add: page_of_def page_mask_eq)

lemma page_of_aligned [simp]: "page_aligned (page_of a)"
  by (simp add: page_aligned_dvd unat_page_of)

lemma page_of_id: "page_aligned a \<Longrightarrow> page_of a = a"
  by (simp add: word_unat_eq_iff unat_page_of page_aligned_dvd)

lemma page_of_offset: "page_aligned a \<Longrightarrow> i < 4096 \<Longrightarrow> page_of (a + of_nat i) = a"
  using unat_aligned_add [of 12 a i]
  by (auto simp: word_unat_eq_iff unat_page_of page_aligned_dvd elim!: dvdE)

lemma aligned8_entry:
  "page_aligned p \<Longrightarrow> i < 512 \<Longrightarrow> 8 dvd unat (p + 8 * of_nat i)"
  using unat_aligned_add [of 12 p "8 * i"] by (auto simp: page_aligned_dvd)

lemma page_of_entry:
  "page_aligned p \<Longrightarrow> i < 512 \<Longrightarrow> page_of (p + 8 * of_nat i) = p"
  using page_of_offset [of p "8 * i"] by simp

lemma entry_inj:
  "page_aligned p \<Longrightarrow> page_aligned q \<Longrightarrow> i < 512 \<Longrightarrow> j < 512 \<Longrightarrow>
   p + 8 * of_nat i = q + 8 * of_nat j \<longleftrightarrow> p = q \<and> i = j"
  using aligned_add_inj [of 12 p q "8 * i" "8 * j"] by (simp add: page_aligned_dvd)

end
