(* ===== verification/Pmm.thy ===== *)
theory Pmm
  imports Sb_Prelude
begin

text \<open>
  The physical page allocator, \<^verbatim>\<open>kernel/mm/pmm.c\<close> (built for the host tests, 64 MiB) and
  \<^verbatim>\<open>kernel/mm/pmm_bootstrap.c\<close> (linked into the kernel, 256 MiB). The two files differ only
  in \<^verbatim>\<open>PMM_MAX_PAGES\<close>, so the operations take that number as the argument \<open>P\<close>; the
  kernel's instance is at the end.

  The state is the five static variables of the file. The bitmaps are lists of 64-bit words, a
  set bit of \<open>bitmap\<close> being an unavailable page. Loop counters run over list indices.
\<close>

section \<open>State and operations\<close>

record pmm =
  bitmap :: "u64 list"
  reserved_bitmap :: "u64 list"
  allocated_bitmap :: "u64 list"
  page_count :: u64
  free_count :: u64

text \<open>The static variables as the program starts with them: all zero.\<close>

definition pmm_static :: "nat \<Rightarrow> pmm" where
  "pmm_static P =
     (let zeros = replicate ((P + 63) div 64) 0 in
      \<lparr>bitmap = zeros, reserved_bitmap = zeros, allocated_bitmap = zeros, page_count = 0, free_count = 0\<rparr>)"

definition UINT64_MAX :: u64 where
  "UINT64_MAX = 0xFFFFFFFFFFFFFFFF"

definition PMM_BITMAP_WORDS :: "nat \<Rightarrow> nat" where
  "PMM_BITMAP_WORDS P = (P + 63) div 64"

definition low_bits_mask :: "u32 \<Rightarrow> u64" where
  "low_bits_mask count =
     (if count = 0 then 0
      else if count \<ge> 64 then UINT64_MAX
      else push_bit (unat count) 1 - 1)"

text \<open>Clearing the lowest set bit of a nonzero word makes it smaller.\<close>

lemma and_minus_one_less: "v \<noteq> 0 \<Longrightarrow> unat (v AND (v - 1)) < unat v"
  for v :: "'a::len word"
  by (metis word_and_le1 word_le_nat_alt measure_unat le_less_trans)

function count_bits64_loop :: "u64 \<Rightarrow> u32 \<Rightarrow> u32" where
  "count_bits64_loop value count =
     (if value \<noteq> 0 then count_bits64_loop (value AND (value - 1)) (count + 1) else count)"
  by pat_completeness auto
termination
  by (relation "measure (\<lambda>(value, count). unat value)") (auto simp: and_minus_one_less)

definition count_bits64 :: "u64 \<Rightarrow> u32" where
  "count_bits64 value = count_bits64_loop value 0"

text \<open>The scan for the first set bit never leaves its loop on the value 0: that is \<open>None\<close>.\<close>

partial_function (option) first_set_bit64_loop :: "u64 \<Rightarrow> u32 \<Rightarrow> u32 option" where
  "first_set_bit64_loop value n =
     (if value AND 1 = 0 then first_set_bit64_loop (drop_bit 1 value) (n + 1) else Some n)"

definition first_set_bit64 :: "u64 \<Rightarrow> u32 option" where
  "first_set_bit64 value = first_set_bit64_loop value 0"

text \<open>The word of available pages that \<open>recompute_free_count\<close> and \<open>pmm_alloc_page\<close> both compute.\<close>

definition available_word :: "nat \<Rightarrow> pmm \<Rightarrow> nat \<Rightarrow> u64" where
  "available_word P s w =
     (let available = NOT (bitmap s ! w) in
      if w = PMM_BITMAP_WORDS P - 1 \<and> P mod 64 \<noteq> 0
      then available AND low_bits_mask (of_nat (P mod 64)) else available)"

definition recompute_free_count :: "nat \<Rightarrow> pmm \<Rightarrow> pmm" where
  "recompute_free_count P s =
     s\<lparr>free_count :=
         fold (\<lambda>w count. count + ucast (count_bits64 (available_word P s w)))
           [0..<PMM_BITMAP_WORDS P] 0\<rparr>"

definition mark_bits :: "nat \<Rightarrow> u64 \<Rightarrow> bool \<Rightarrow> pmm \<Rightarrow> pmm" where
  "mark_bits w m make_free s =
     (if make_free
      then s\<lparr>bitmap := (bitmap s)[w := (bitmap s ! w AND NOT m) OR
                (reserved_bitmap s ! w OR allocated_bitmap s ! w) AND m]\<rparr>
      else s\<lparr>bitmap := (bitmap s)[w := bitmap s ! w OR m],
             reserved_bitmap := (reserved_bitmap s)[w := reserved_bitmap s ! w OR m]\<rparr>)"

definition mark_word :: "bool \<Rightarrow> nat \<Rightarrow> pmm \<Rightarrow> pmm" where
  "mark_word make_free w s =
     (if make_free
      then s\<lparr>bitmap := (bitmap s)[w := reserved_bitmap s ! w OR allocated_bitmap s ! w]\<rparr>
      else s\<lparr>bitmap := (bitmap s)[w := UINT64_MAX],
             reserved_bitmap := (reserved_bitmap s)[w := UINT64_MAX]\<rparr>)"

text \<open>The part of \<open>set_range_bits\<close> after the page numbers are known.\<close>

definition mark_pages :: "u64 \<Rightarrow> u64 \<Rightarrow> bool \<Rightarrow> pmm \<Rightarrow> pmm" where
  "mark_pages first_page last_page make_free s =
     (let first_word = ucast (first_page div 64) :: u32;
          last_word = ucast ((last_page - 1) div 64) :: u32 in
      if first_word = last_word then
        let first_bit = ucast (first_page mod 64) :: u32;
            bit_count = ucast (last_page - first_page) :: u32 in
        mark_bits (unat first_word)
          (push_bit (unat first_bit) (low_bits_mask bit_count)) make_free s
      else
        let (s1, first_word1) =
              (if first_page mod 64 \<noteq> 0
               then (let first_bit = ucast (first_page mod 64) :: u32 in
                     mark_bits (unat first_word)
                       (push_bit (unat first_bit) UINT64_MAX) make_free s,
                     first_word + 1)
               else (s, first_word));
            s2 = fold (mark_word make_free) [unat first_word1..<unat last_word] s1;
            last_bits = ucast (last_page mod 64) :: u32 in
        mark_bits (unat last_word)
          (if last_bits = 0 then UINT64_MAX else low_bits_mask last_bits) make_free s2)"

definition set_range_bits :: "nat \<Rightarrow> u64 \<Rightarrow> u64 \<Rightarrow> bool \<Rightarrow> pmm \<Rightarrow> pmm" where
  "set_range_bits P start end make_free s =
     (let max_address = of_nat P * SB_PAGE_SIZE in
      if start \<ge> max_address \<or> end \<le> start then s
      else
        let end = (if end > max_address then max_address else end);
            first_page = (start + SB_PAGE_SIZE - 1) div SB_PAGE_SIZE;
            last_page = end div SB_PAGE_SIZE in
        if last_page \<le> first_page then s
        else mark_pages first_page last_page make_free s)"

definition pmm_reset :: "nat \<Rightarrow> pmm \<Rightarrow> pmm" where
  "pmm_reset P s =
     s\<lparr>bitmap := replicate (PMM_BITMAP_WORDS P) UINT64_MAX,
       reserved_bitmap := replicate (PMM_BITMAP_WORDS P) 0,
       allocated_bitmap := replicate (PMM_BITMAP_WORDS P) 0,
       page_count := of_nat P,
       free_count := 0\<rparr>"

definition pmm_add_usable_range :: "nat \<Rightarrow> u64 \<Rightarrow> u64 \<Rightarrow> pmm \<Rightarrow> pmm" where
  "pmm_add_usable_range P usable_start usable_end s =
     recompute_free_count P (set_range_bits P usable_start usable_end True s)"

definition pmm_reserve_range :: "nat \<Rightarrow> u64 \<Rightarrow> u64 \<Rightarrow> pmm \<Rightarrow> pmm" where
  "pmm_reserve_range P start end s =
     recompute_free_count P (set_range_bits P start end False s)"

definition pmm_init :: "nat \<Rightarrow> u64 \<Rightarrow> u64 \<Rightarrow> pmm \<Rightarrow> pmm" where
  "pmm_init P usable_start usable_end s =
     recompute_free_count P (set_range_bits P usable_start usable_end True (pmm_reset P s))"

text \<open>
  The allocator's scan over the bitmap words. \<open>first_set_bit64\<close> is called on a nonzero word
  only, where it returns (\<open>first_set_bit64_Some\<close> below). The address 0 is C's null pointer.
\<close>

fun pmm_alloc_scan :: "nat \<Rightarrow> pmm \<Rightarrow> nat list \<Rightarrow> u64 \<times> pmm" where
  "pmm_alloc_scan P s [] = (0, s)"
| "pmm_alloc_scan P s (w # ws) =
     (let available = available_word P s w in
      if available = 0 then pmm_alloc_scan P s ws
      else
        let n = the (first_set_bit64 available);
            index = of_nat w * 64 + ucast n :: u64;
            m = push_bit (unat n) 1 in
        (index * SB_PAGE_SIZE,
         s\<lparr>bitmap := (bitmap s)[w := bitmap s ! w OR m],
           allocated_bitmap := (allocated_bitmap s)[w := allocated_bitmap s ! w OR m],
           free_count := (if free_count s \<noteq> 0 then free_count s - 1 else free_count s)\<rparr>))"

definition pmm_alloc_page :: "nat \<Rightarrow> pmm \<Rightarrow> u64 \<times> pmm" where
  "pmm_alloc_page P s = pmm_alloc_scan P s [0..<PMM_BITMAP_WORDS P]"

definition pmm_free_page :: "nat \<Rightarrow> u64 \<Rightarrow> pmm \<Rightarrow> pmm" where
  "pmm_free_page P page s =
     (let address = page in
      if address AND (SB_PAGE_SIZE - 1) \<noteq> 0 then s
      else
        let index = address div SB_PAGE_SIZE in
        if index \<ge> of_nat P then s
        else
          let w = unat (ucast (index div 64) :: u32);
              n = unat (ucast (index mod 64) :: u32);
              m = push_bit n 1 in
          if allocated_bitmap s ! w AND m = 0 then s
          else
            let s = s\<lparr>allocated_bitmap := (allocated_bitmap s)[w := allocated_bitmap s ! w AND NOT m]\<rparr> in
            if reserved_bitmap s ! w AND m \<noteq> 0 then s
            else s\<lparr>bitmap := (bitmap s)[w := bitmap s ! w AND NOT m],
                   free_count := free_count s + 1\<rparr>)"

definition pmm_total_pages :: "pmm \<Rightarrow> u64" where
  "pmm_total_pages s = page_count s"

definition pmm_free_pages :: "pmm \<Rightarrow> u64" where
  "pmm_free_pages s = free_count s"

section \<open>Bit-level facts\<close>

lemma UINT64_MAX_minus: "UINT64_MAX = - 1"
  by (simp add: UINT64_MAX_def)

lemma bit_UINT64_MAX [simp]: "bit UINT64_MAX i \<longleftrightarrow> i < 64"
  by (simp add: UINT64_MAX_minus bit_simps)

lemma unat_UINT64_MAX: "unat UINT64_MAX = 2 ^ 64 - 1"
  by (simp add: UINT64_MAX_def)

lemma bit_low_bits_mask: "bit (low_bits_mask c) i \<longleftrightarrow> i < 64 \<and> i < unat c"
proof -
  consider "c = 0" | "c \<noteq> 0" "c \<ge> 64" | "c \<noteq> 0" "\<not> c \<ge> 64" by fastforce
  then show ?thesis
  proof cases
    case 2
    then show ?thesis by (auto simp: low_bits_mask_def word_le_nat_alt)
  next
    case 3
    then have "low_bits_mask c = mask (unat c)"
      by (simp add: low_bits_mask_def mask_eq_exp_minus_1 push_bit_eq_mult)
    then show ?thesis by (simp add: bit_simps)
  qed (simp add: low_bits_mask_def)
qed

declare count_bits64_loop.simps [simp del]

text \<open>Clearing the lowest set bit removes exactly one bit.\<close>

lemma nat_and_pred_bits:
  "0 < n \<Longrightarrow> \<exists>k. bit n k \<and> (\<forall>i. bit (n AND (n - 1)) i \<longleftrightarrow> bit n i \<and> i \<noteq> k)" for n :: nat
proof (induction n rule: nat_bit_induct)
  case zero
  then show ?case by simp
next
  case (even n)
  then obtain k where k: "bit n k" "\<And>i. bit (n AND (n - 1)) i \<longleftrightarrow> bit n i \<and> i \<noteq> k" by auto
  have "(2 * n - 1) div 2 = n - 1" by arith
  then have "bit (2 * n AND (2 * n - 1)) i \<longleftrightarrow> bit (2 * n) i \<and> i \<noteq> Suc k" for i
    using k(2) [of "i - 1"] unfolding bit_and_iff by (cases i) (simp_all add: bit_Suc bit_0)
  with k(1) show ?case by (intro exI [of _ "Suc k"]) (simp add: bit_Suc)
next
  case (odd n)
  have "bit (Suc (2 * n) AND (Suc (2 * n) - 1)) i \<longleftrightarrow> bit (Suc (2 * n)) i \<and> i \<noteq> 0" for i
    unfolding bit_and_iff by (cases i) (simp_all add: bit_Suc bit_0)
  then show ?case by (intro exI [of _ 0]) (simp add: bit_0)
qed

lemma word_and_pred_bits:
  fixes v :: u64
  assumes "v \<noteq> 0"
  shows "\<exists>k. bit v k \<and> (\<forall>i. bit (v AND (v - 1)) i \<longleftrightarrow> bit v i \<and> i \<noteq> k)"
proof -
  have "unat v AND (unat v - 1) = unat (v AND (v - 1))"
    using assms by (simp add: unsigned_and_eq unat_minus_one)
  moreover have "0 < unat v" using assms by (simp add: unat_gt_0)
  ultimately show ?thesis
    using nat_and_pred_bits [of "unat v"] by (simp add: bit_unsigned_iff)
qed

lemma finite_word_bits [simp]: "finite {i. bit (v :: 'a::len word) i}"
  by (rule finite_subset [of _ "{..<LENGTH('a)}"]) (auto dest: bit_imp_le_length)

lemma count_bits64_loop_eq:
  "count_bits64_loop v c = c + of_nat (card {i. bit v i})"
proof (induction v c rule: count_bits64_loop.induct)
  case (1 v c)
  show ?case
  proof (cases "v = 0")
    case True
    then show ?thesis by (simp add: count_bits64_loop.simps)
  next
    case False
    then obtain k where k: "bit v k" "\<And>i. bit (v AND (v - 1)) i \<longleftrightarrow> bit v i \<and> i \<noteq> k"
      using word_and_pred_bits by blast
    then have "{i. bit v i} = insert k {i. bit (v AND (v - 1)) i}" by auto
    then have "card {i. bit v i} = Suc (card {i. bit (v AND (v - 1)) i})"
      using k(2) [of k] by simp
    with 1 False show ?thesis by (subst count_bits64_loop.simps) simp
  qed
qed

lemma card_word_bits_le: "card {i. bit (v :: 'a::len word) i} \<le> LENGTH('a)"
  using card_mono [of "{..<LENGTH('a)}" "{i. bit v i}"] by (auto dest: bit_imp_le_length)

lemma unat_count_bits64: "unat (count_bits64 v) = card {i. bit v i}"
  using card_word_bits_le [of v]
  by (simp add: count_bits64_def count_bits64_loop_eq unat_of_nat_small)

lemma first_set_bit64_loop_eq:
  "bit v k \<Longrightarrow> (\<And>i. i < k \<Longrightarrow> \<not> bit v i) \<Longrightarrow> first_set_bit64_loop v n = Some (n + of_nat k)"
proof (induction k arbitrary: v n)
  case 0
  then show ?case
    by (subst first_set_bit64_loop.simps) (simp add: bit_0 and_one_eq odd_iff_mod_2_eq_one)
next
  case (Suc k)
  from Suc.prems(2) [of 0] have "v AND 1 = 0" by (simp add: bit_0 and_one_eq even_iff_mod_2_eq_zero)
  moreover have "first_set_bit64_loop (drop_bit 1 v) (n + 1) = Some (n + 1 + of_nat k)"
    using Suc.prems by (intro Suc.IH) (auto simp: bit_simps)
  ultimately show ?case by (subst first_set_bit64_loop.simps) simp
qed

lemma first_set_bit64_Some:
  assumes "v \<noteq> 0"
  obtains k where "first_set_bit64 v = Some (of_nat k)" "k < 64" "bit v k" "\<And>i. i < k \<Longrightarrow> \<not> bit v i"
proof -
  from assms obtain j where "bit v j" using bit_eqI [of v 0] by auto
  define k where "k = (LEAST i. bit v i)"
  have "bit v k" "\<And>i. i < k \<Longrightarrow> \<not> bit v i"
    using \<open>bit v j\<close> by (auto simp: k_def intro: LeastI dest: not_less_Least)
  then show ?thesis using that [of k] first_set_bit64_loop_eq [of v k 0]
    by (simp add: first_set_bit64_def bit_imp_le_length [of v k, simplified])
qed

text \<open>On 0 the scan does not return.\<close>

lemma first_set_bit64_zero: "first_set_bit64 0 = None"
proof (rule ccontr)
  assume "first_set_bit64 0 \<noteq> None"
  then obtain r where r: "first_set_bit64_loop 0 0 = Some r" by (auto simp: first_set_bit64_def)
  have "(0 :: u64) \<noteq> 0"
  proof (rule first_set_bit64_loop.raw_induct [where P = "\<lambda>v n r. v \<noteq> 0", OF _ r])
    fix f :: "u64 \<Rightarrow> u32 \<Rightarrow> u32 option" and v n r
    assume "\<And>v n r. f v n = Some r \<Longrightarrow> v \<noteq> 0"
      and "(if v AND 1 = 0 then f (drop_bit 1 v) (n + 1) else Some n) = Some r"
    then show "v \<noteq> 0" by (cases "v = 0") auto
  qed
  then show False by simp
qed

section \<open>The page-level view\<close>

text \<open>
  Page \<open>i\<close> is bit \<open>i mod 64\<close> of word \<open>i div 64\<close>. The allocator is read as three sets of
  page numbers; the invariant says that a reserved or allocated page is never available and that
  the counters agree with the bitmap.
\<close>

definition page_bit :: "u64 list \<Rightarrow> nat \<Rightarrow> bool" where
  "page_bit bm i \<longleftrightarrow> bit (bm ! (i div 64)) (i mod 64)"

definition free_set :: "nat \<Rightarrow> pmm \<Rightarrow> nat set" where
  "free_set P s = {i. i < P \<and> \<not> page_bit (bitmap s) i}"

definition reserved_set :: "nat \<Rightarrow> pmm \<Rightarrow> nat set" where
  "reserved_set P s = {i. i < P \<and> page_bit (reserved_bitmap s) i}"

definition allocated_set :: "nat \<Rightarrow> pmm \<Rightarrow> nat set" where
  "allocated_set P s = {i. i < P \<and> page_bit (allocated_bitmap s) i}"

definition pmm_shape :: "nat \<Rightarrow> pmm \<Rightarrow> bool" where
  "pmm_shape P s \<longleftrightarrow>
     length (bitmap s) = PMM_BITMAP_WORDS P \<and>
     length (reserved_bitmap s) = PMM_BITMAP_WORDS P \<and>
     length (allocated_bitmap s) = PMM_BITMAP_WORDS P"

definition pmm_inv :: "nat \<Rightarrow> pmm \<Rightarrow> bool" where
  "pmm_inv P s \<longleftrightarrow>
     pmm_shape P s \<and> page_count s = of_nat P \<and>
     free_count s = of_nat (card (free_set P s)) \<and>
     free_set P s \<inter> (reserved_set P s \<union> allocated_set P s) = {}"

text \<open>The page counts the two builds use, and all counts for which addresses do not wrap.\<close>

definition pmm_size :: "nat \<Rightarrow> bool" where
  "pmm_size P \<longleftrightarrow> 0 < P \<and> P \<le> 2 ^ 30"

text \<open>The pages that lie wholly inside an address range.\<close>

definition range_pages :: "nat \<Rightarrow> u64 \<Rightarrow> u64 \<Rightarrow> nat set" where
  "range_pages P start end = {i. i < P \<and> unat start \<le> 4096 * i \<and> 4096 * (i + 1) \<le> unat end}"

lemma finite_free_set [simp]: "finite (free_set P s)"
  by (simp add: free_set_def)

lemma word_index: "i < P \<Longrightarrow> i div 64 < PMM_BITMAP_WORDS P"
  by (simp add: PMM_BITMAP_WORDS_def less_mult_imp_div_less)

lemma bit_available_word:
  assumes "w < PMM_BITMAP_WORDS P"
  shows "bit (available_word P s w) j \<longleftrightarrow> j < 64 \<and> \<not> bit (bitmap s ! w) j \<and> 64 * w + j < P"
proof -
  have small: "unat (of_nat (P mod 64) :: u32) = P mod 64"
    by (intro unat_of_nat_small) (simp add: less_le_trans [of _ 64])
  have "64 * w + j < P \<longleftrightarrow> (w = PMM_BITMAP_WORDS P - 1 \<and> P mod 64 \<noteq> 0 \<longrightarrow> j < P mod 64)" if "j < 64"
  proof -
    define q r where "q = P div 64" and "r = P mod 64"
    then have P: "P = 64 * q + r" and r: "r < 64" by simp_all
    have "PMM_BITMAP_WORDS P = (if r = 0 then q else Suc q)"
      unfolding PMM_BITMAP_WORDS_def P using r by auto
    then show ?thesis using assms that r unfolding r_def [symmetric] P by (auto split: if_splits)
  qed
  then show ?thesis
    by (auto simp: available_word_def Let_def bit_simps bit_low_bits_mask small)
qed

lemma split64_inj:
  fixes a b c d :: nat
  assumes "64 * a + b = 64 * c + d" "b < 64" "d < 64"
  shows "a = c \<and> b = d"
proof -
  have "(64 * a + b) div 64 = (64 * c + d) div 64" using assms(1) by (rule arg_cong)
  then have "a = c" using assms(2,3) by simp
  with assms(1) show ?thesis by simp
qed

lemma page_index_bij:
  "bij_betw (\<lambda>(w, j). 64 * w + j)
     (SIGMA w:{0..<PMM_BITMAP_WORDS P}. {j. bit (available_word P s w) j}) (free_set P s)"
proof (rule bij_betw_imageI)
  show "inj_on (\<lambda>(w, j). 64 * w + j)
     (SIGMA w:{0..<PMM_BITMAP_WORDS P}. {j. bit (available_word P s w) j})"
    by (rule inj_onI) (auto simp: bit_available_word dest!: split64_inj)
  show "(\<lambda>(w, j). 64 * w + j) `
     (SIGMA w:{0..<PMM_BITMAP_WORDS P}. {j. bit (available_word P s w) j}) = free_set P s"
    (is "?f ` ?A = _")
  proof
    show "?f ` ?A \<subseteq> free_set P s"
      by (auto simp: bit_available_word free_set_def page_bit_def)
    show "free_set P s \<subseteq> ?f ` ?A"
    proof
      fix i assume "i \<in> free_set P s"
      then have "(i div 64, i mod 64) \<in> ?A"
        by (auto simp: free_set_def page_bit_def bit_available_word word_index)
      moreover have "i = ?f (i div 64, i mod 64)" by simp
      ultimately show "i \<in> ?f ` ?A" by blast
    qed
  qed
qed

lemma fold_count_eq:
  "fold (\<lambda>w count. count + f w) ws c = c + sum_list (map f ws)"
  for f :: "'b \<Rightarrow> 'a::comm_monoid_add"
  by (induction ws arbitrary: c) (simp_all add: add.assoc)

lemma recompute_free_count_eq:
  "recompute_free_count P s = s\<lparr>free_count := of_nat (card (free_set P s))\<rparr>"
proof -
  let ?A = "\<lambda>w. {j. bit (available_word P s w) j}"
  have "ucast (count_bits64 v) = (of_nat (card {j. bit v j}) :: u64)" for v
    by (simp add: unat_count_bits64 [symmetric])
  then have "fold (\<lambda>w count. count + ucast (count_bits64 (available_word P s w)))
      [0..<PMM_BITMAP_WORDS P] (0 :: u64)
    = (\<Sum>w = 0..<PMM_BITMAP_WORDS P. of_nat (card (?A w)))"
    by (simp add: fold_count_eq sum_list_distinct_conv_sum_set)
  also have "\<dots> = of_nat (\<Sum>w = 0..<PMM_BITMAP_WORDS P. card (?A w))" by simp
  also have "(\<Sum>w = 0..<PMM_BITMAP_WORDS P. card (?A w)) = card (SIGMA w:{0..<PMM_BITMAP_WORDS P}. ?A w)"
    by simp
  also have "\<dots> = card (free_set P s)"
    by (rule bij_betw_same_card [OF page_index_bij])
  finally show ?thesis by (simp add: recompute_free_count_def)
qed

section \<open>Marking a range\<close>

text \<open>
  \<open>marked make_free S s t\<close>: in \<open>t\<close> the pages of \<open>S\<close> have been released (except those
  reserved or allocated) or reserved, and everything else is as in \<open>s\<close>.
\<close>

definition marked :: "nat \<Rightarrow> bool \<Rightarrow> nat set \<Rightarrow> pmm \<Rightarrow> pmm \<Rightarrow> bool" where
  "marked P make_free S s t \<longleftrightarrow>
     pmm_shape P t \<and> allocated_bitmap t = allocated_bitmap s \<and>
     page_count t = page_count s \<and> free_count t = free_count s \<and>
     (\<forall>i < 64 * PMM_BITMAP_WORDS P.
        (page_bit (bitmap t) i \<longleftrightarrow>
          (if i \<in> S then make_free \<longrightarrow> page_bit (reserved_bitmap s) i \<or> page_bit (allocated_bitmap s) i
           else page_bit (bitmap s) i)) \<and>
        (page_bit (reserved_bitmap t) i \<longleftrightarrow> page_bit (reserved_bitmap s) i \<or> (\<not> make_free \<and> i \<in> S)))"

lemma marked_refl: "pmm_shape P s \<Longrightarrow> marked P mf {} s s"
  by (simp add: marked_def)

lemma marked_trans: "marked P mf S s t \<Longrightarrow> marked P mf T t u \<Longrightarrow> marked P mf (S \<union> T) s u"
  unfolding marked_def by (cases mf) auto

lemma page_bit_update:
  "w < length bm \<Longrightarrow>
   page_bit (bm[w := v]) i \<longleftrightarrow> (if i div 64 = w then bit v (i mod 64) else page_bit bm i)"
  by (simp add: page_bit_def)

lemma marked_mark_bits:
  "pmm_shape P s \<Longrightarrow> w < PMM_BITMAP_WORDS P \<Longrightarrow>
   marked P mf {i. i div 64 = w \<and> bit m (i mod 64)} s (mark_bits w m mf s)"
  by (cases mf)
     (auto simp: marked_def mark_bits_def pmm_shape_def page_bit_def nth_list_update bit_simps)

lemma marked_mark_word:
  "pmm_shape P s \<Longrightarrow> w < PMM_BITMAP_WORDS P \<Longrightarrow>
   marked P mf {i. i div 64 = w} s (mark_word mf w s)"
  by (cases mf)
     (auto simp: marked_def mark_word_def pmm_shape_def page_bit_def nth_list_update bit_simps)

lemma marked_shape: "marked P mf S s t \<Longrightarrow> pmm_shape P t"
  by (simp add: marked_def)

lemma marked_fold:
  "pmm_shape P s \<Longrightarrow> \<forall>w \<in> set ws. w < PMM_BITMAP_WORDS P \<Longrightarrow>
   marked P mf {i. i div 64 \<in> set ws} s (fold (mark_word mf) ws s)"
proof (induction ws arbitrary: s)
  case Nil
  then show ?case by (simp add: marked_refl)
next
  case (Cons w ws)
  then have one: "marked P mf {i. i div 64 = w} s (mark_word mf w s)"
    by (simp add: marked_mark_word)
  have "marked P mf {i. i div 64 \<in> set ws} (mark_word mf w s) (fold (mark_word mf) ws (mark_word mf w s))"
    using Cons.prems by (intro Cons.IH marked_shape [OF one]) simp
  from marked_trans [OF one this] show ?case
    by (simp add: Collect_disj_eq [symmetric])
qed

text \<open>The three masks of \<open>set_range_bits\<close> as sets of pages.\<close>

lemma word_pages:
  "{i. i div 64 = w \<and> Q (i mod 64)} = {i. 64 * w \<le> i \<and> i < 64 * w + 64 \<and> Q (i - 64 * w)}"
  for w :: nat
proof -
  have "i div 64 = w \<longleftrightarrow> 64 * w \<le> i \<and> i < 64 * w + 64" for i by arith
  moreover have "i div 64 = w \<Longrightarrow> i mod 64 = i - 64 * w" for i
    by (metis minus_mult_div_eq_mod)
  ultimately show ?thesis by (metis (no_types, lifting))
qed

lemma single_word_pages:
  assumes "f < l" "f div 64 = (l - 1) div 64" "unat c = l - f"
  shows "{i. i div 64 = f div 64 \<and> bit (push_bit (f mod 64) (low_bits_mask c)) (i mod 64)} = {f..<l}"
proof -
  define w where "w = f div 64"
  have "64 * w \<le> f" unfolding w_def by simp
  moreover have "l \<le> 64 * w + 64" using assms(1) unfolding w_def assms(2) by arith
  moreover have "f mod 64 = f - 64 * w" unfolding w_def by (rule minus_mult_div_eq_mod [symmetric])
  ultimately show ?thesis
    unfolding w_def [symmetric] word_pages using assms(1,3)
    by (auto simp: bit_simps bit_low_bits_mask)
qed

lemma head_word_pages:
  "{i. i div 64 = f div 64 \<and> bit (push_bit (f mod 64) UINT64_MAX) (i mod 64)} =
   {f..<64 * (f div 64) + 64}" for f :: nat
proof -
  define w where "w = f div 64"
  have "f mod 64 = f - 64 * w" unfolding w_def by (rule minus_mult_div_eq_mod [symmetric])
  moreover have "64 * w \<le> f" unfolding w_def by simp
  ultimately show ?thesis unfolding w_def [symmetric] word_pages by (auto simp: bit_simps)
qed

lemma tail_word_pages:
  assumes "0 < l" "unat c = l mod 64"
  shows "{i. i div 64 = (l - 1) div 64 \<and>
       bit (if c = 0 then UINT64_MAX else low_bits_mask c) (i mod 64)} = {64 * ((l - 1) div 64)..<l}"
proof -
  define w where "w = (l - 1) div 64"
  have w: "64 * w < l" "l \<le> 64 * w + 64" using assms(1) unfolding w_def by arith+
  have l: "l mod 64 = (if l = 64 * w + 64 then 0 else l - 64 * w)"
  proof (cases "l = 64 * w + 64")
    case False
    then have "l div 64 = w" using w by (intro div_nat_eqI) auto
    with False show ?thesis by (metis minus_mult_div_eq_mod)
  qed simp
  have "c = 0 \<longleftrightarrow> l = 64 * w + 64" using assms(2) l w by (auto simp flip: unat_eq_zero split: if_splits)
  then show ?thesis unfolding w_def [symmetric] word_pages
    using w l assms(2) by (auto simp: bit_low_bits_mask split: if_splits)
qed

lemma middle_words_pages: "{i. i div 64 \<in> set [a..<b]} = {64 * a..<64 * b}" for a b :: nat
  by auto

lemma mark_pages_marked:
  assumes "pmm_size P" "pmm_shape P s" "unat fp < unat lp" "unat lp \<le> P"
  shows "marked P mf {unat fp..<unat lp} s (mark_pages fp lp mf s)"
proof -
  define f l where "f = unat fp" and "l = unat lp"
  define v where "v = (l - 1) div 64"
  have fl: "f < l" "l \<le> P" and P: "P \<le> 2 ^ 30"
    using assms by (simp_all add: f_def l_def pmm_size_def)
  have small: "f div 64 < 2 ^ 32" "v < 2 ^ 32" "f mod 64 < 2 ^ 32" "l mod 64 < 2 ^ 32"
    "l - f < 2 ^ 32"
    using fl P unfolding v_def by (auto intro: le_less_trans [of _ P] le_less_trans [of _ 64])
  have lp1: "unat (lp - 1) = l - 1"
    using fl by (simp add: l_def unat_sub word_le_nat_alt)
  have fw: "unat (ucast (fp div 64) :: u32) = f div 64"
    using small by (simp add: unat_ucast_small unat_div f_def)
  have lw: "unat (ucast ((lp - 1) div 64) :: u32) = v"
    using small by (simp add: unat_ucast_small unat_div lp1 v_def)
  have fb: "unat (ucast (fp mod 64) :: u32) = f mod 64"
    using small by (simp add: unat_ucast_small unat_mod f_def)
  have lb: "unat (ucast (lp mod 64) :: u32) = l mod 64"
    using small by (simp add: unat_ucast_small unat_mod l_def)
  have bc: "unat (ucast (lp - fp) :: u32) = l - f"
    using small fl by (simp add: unat_ucast_small unat_sub word_le_nat_alt f_def l_def)
  have W: "f div 64 < PMM_BITMAP_WORDS P" "v < PMM_BITMAP_WORDS P"
    using fl word_index [of f P] word_index [of "l - 1" P] by (auto simp: v_def)
  show ?thesis
  proof (cases "f div 64 = v")
    case True
    let ?m = "push_bit (f mod 64) (low_bits_mask (ucast (lp - fp)))"
    have "ucast (fp div 64) = (ucast ((lp - 1) div 64) :: u32)"
      using fw lw True by (simp add: word_unat_eq_iff)
    then have "mark_pages fp lp mf s = mark_bits (f div 64) ?m mf s"
      by (simp add: mark_pages_def Let_def lw fb True)
    moreover have "{i. i div 64 = f div 64 \<and> bit ?m (i mod 64)} = {f..<l}"
      using fl True bc by (intro single_word_pages) (simp_all add: v_def)
    ultimately show ?thesis
      using marked_mark_bits [OF assms(2) W(1), of mf ?m] by (simp add: f_def l_def)
  next
    case False
    let ?t = "if (ucast (lp mod 64) :: u32) = 0 then UINT64_MAX else low_bits_mask (ucast (lp mod 64))"
    define a where "a = (if f mod 64 = 0 then f div 64 else Suc (f div 64))"
    define s1 where "s1 = (if f mod 64 = 0 then s
      else mark_bits (f div 64) (push_bit (f mod 64) UINT64_MAX) mf s)"
    have lt: "f div 64 < v" using False fl unfolding v_def by (simp add: div_le_mono le_neq_implies_less)
    have ne: "ucast (fp div 64) \<noteq> (ucast ((lp - 1) div 64) :: u32)"
      using fw lw False by auto
    have fm: "fp mod 64 = 0 \<longleftrightarrow> f mod 64 = 0"
      by (simp add: f_def unat_mod flip: unat_eq_zero)
    have a1: "unat (ucast (fp div 64) + 1 :: u32) = Suc (f div 64)"
      using fw small lt by (simp add: unat_add_small)
    have eq: "mark_pages fp lp mf s = mark_bits v ?t mf (fold (mark_word mf) [a..<v] s1)"
      using ne fm by (simp add: mark_pages_def Let_def fw fb lw a1 a_def s1_def)
    have m1: "marked P mf {f..<64 * a} s s1"
    proof (cases "f mod 64 = 0")
      case True
      then have "64 * (f div 64) = f" by arith
      with True assms(2) show ?thesis by (simp add: s1_def a_def marked_refl)
    next
      case False
      with marked_mark_bits [OF assms(2) W(1), of mf "push_bit (f mod 64) UINT64_MAX"]
      show ?thesis by (simp add: s1_def a_def head_word_pages add.commute)
    qed
    have m2: "marked P mf {64 * a..<64 * v} s1 (fold (mark_word mf) [a..<v] s1)"
      using marked_fold [OF marked_shape [OF m1], of "[a..<v]" mf] W
      by (simp only: middle_words_pages) auto
    have m3: "marked P mf {64 * v..<l} (fold (mark_word mf) [a..<v] s1) (mark_pages fp lp mf s)"
      using marked_mark_bits [OF marked_shape [OF m2] W(2), of mf ?t]
        tail_word_pages [of l "ucast (lp mod 64)"] fl lb
      by (simp add: eq v_def)
    have "f \<le> 64 * a" "64 * a \<le> 64 * v" "64 * v \<le> l"
      using lt by (auto simp: a_def v_def)
    then have "{f..<64 * a} \<union> ({64 * a..<64 * v} \<union> {64 * v..<l}) = {f..<l}" by auto
    with marked_trans [OF m1 marked_trans [OF m2 m3]] show ?thesis by (simp add: f_def l_def)
  qed
qed

lemma set_range_bits_marked:
  assumes "pmm_size P" "pmm_shape P s"
  shows "marked P mf (range_pages P start end) s (set_range_bits P start end mf s)"
proof -
  define M :: u64 where "M = of_nat P * SB_PAGE_SIZE"
  have P: "0 < P" "P \<le> 2 ^ 30" using assms(1) by (auto simp: pmm_size_def)
  have M: "unat M = P * 4096"
    using P by (simp add: M_def unat_mult_small unat_of_nat_small)
  show ?thesis
  proof (cases "start \<ge> M \<or> end \<le> start")
    case True
    then have "range_pages P start end = {}"
      using M by (auto simp: range_pages_def word_le_nat_alt)
    with True assms(2) show ?thesis by (simp add: set_range_bits_def M_def marked_refl)
  next
    case False
    define e where "e = (if end > M then M else end)"
    define fp lp where "fp = (start + SB_PAGE_SIZE - 1) div SB_PAGE_SIZE" and "lp = e div SB_PAGE_SIZE"
    have st: "unat start < P * 4096" using False M by (simp add: word_le_nat_alt)
    have "unat (start + SB_PAGE_SIZE) = unat start + 4096"
      using st P by (simp add: unat_add_small)
    then have "unat (start + SB_PAGE_SIZE - 1) = unat start + 4095"
      by (simp add: unat_sub word_le_nat_alt)
    then have f: "unat fp = (unat start + 4095) div 4096" by (simp add: fp_def unat_div)
    have "unat e = min (unat end) (P * 4096)"
      using M by (auto simp: e_def word_less_nat_alt)
    then have l: "unat lp = min (unat end) (P * 4096) div 4096" by (simp add: lp_def unat_div)
    have pages: "range_pages P start end = {unat fp..<unat lp}"
      unfolding range_pages_def f l by auto
    show ?thesis
    proof (cases "lp \<le> fp")
      case True
      then have "range_pages P start end = {}" by (simp add: pages word_le_nat_alt)
      with True False assms(2) show ?thesis
        by (simp add: set_range_bits_def Let_def M_def [symmetric] e_def [symmetric]
            fp_def [symmetric] lp_def [symmetric] marked_refl)
    next
      case nle: False
      moreover have "unat lp \<le> P" unfolding l by auto
      ultimately have "marked P mf {unat fp..<unat lp} s (mark_pages fp lp mf s)"
        using assms by (intro mark_pages_marked) (simp_all add: word_le_nat_alt)
      with nle False show ?thesis
        by (simp add: set_range_bits_def Let_def M_def [symmetric] e_def [symmetric]
            fp_def [symmetric] lp_def [symmetric] pages)
    qed
  qed
qed

end
