(* ===== verification/Page_Allocator.thy ===== *)
theory Page_Allocator
  imports Sb_Prelude
begin

text \<open>
  The contract between the page allocator and its clients (the kernel heap, the page tables, the
  ELF loader, the process layer): which addresses are available, which are owned by a caller, and
  how \<open>alloc\<close> and \<open>release\<close> move one address between the two. The null pointer is the only
  failure value. The kernel's allocator is shown to meet the contract in \<open>Pmm_Refine\<close>.
\<close>

locale page_allocator =
  fixes ok :: "'s \<Rightarrow> bool"
    and alloc :: "'s \<Rightarrow> u64 \<times> 's"
    and release :: "u64 \<Rightarrow> 's \<Rightarrow> 's"
    and avail :: "'s \<Rightarrow> u64 set"
    and owned :: "'s \<Rightarrow> u64 set"
  assumes alloc_ok: "ok s \<Longrightarrow> ok (snd (alloc s))"
    and release_ok: "ok s \<Longrightarrow> ok (release a s)"
    and avail_page: "ok s \<Longrightarrow> a \<in> avail s \<Longrightarrow> page_aligned a \<and> a \<noteq> 0 \<and> unat a < 2 ^ 42"
    and owned_page: "ok s \<Longrightarrow> a \<in> owned s \<Longrightarrow> page_aligned a \<and> a \<noteq> 0 \<and> unat a < 2 ^ 42"
    and avail_owned: "ok s \<Longrightarrow> avail s \<inter> owned s = {}"
    and alloc_none: "ok s \<Longrightarrow> avail s = {} \<Longrightarrow> alloc s = (0, s)"
    and alloc_some: "ok s \<Longrightarrow> avail s \<noteq> {} \<Longrightarrow>
      fst (alloc s) \<in> avail s \<and>
      avail (snd (alloc s)) = avail s - {fst (alloc s)} \<and>
      owned (snd (alloc s)) = insert (fst (alloc s)) (owned s)"
    and release_owned: "ok s \<Longrightarrow> a \<in> owned s \<Longrightarrow>
      avail (release a s) = insert a (avail s) \<and> owned (release a s) = owned s - {a}"
    and release_other: "ok s \<Longrightarrow> a \<notin> owned s \<Longrightarrow> release a s = s"
begin

lemma alloc_null: "ok s \<Longrightarrow> alloc s = (a, t) \<Longrightarrow> a = 0 \<longleftrightarrow> avail s = {}"
  using alloc_none [of s] alloc_some [of s] avail_page [of s a] by auto

lemma alloc_null_state: "ok s \<Longrightarrow> alloc s = (0, t) \<Longrightarrow> t = s"
  using alloc_null [of s 0 t] alloc_none [of s] by auto

lemma alloc_nonnull:
  assumes "ok s" "alloc s = (a, t)" "a \<noteq> 0"
  shows "a \<in> avail s" and "a \<notin> owned s" and "page_aligned a" and "unat a < 2 ^ 42" and "ok t"
    and "avail t = avail s - {a}" and "owned t = insert a (owned s)"
proof -
  have ne: "avail s \<noteq> {}" using alloc_null assms by blast
  from alloc_some [OF assms(1) ne] show av: "a \<in> avail s"
    and "avail t = avail s - {a}" "owned t = insert a (owned s)"
    by (simp_all add: assms(2))
  show "a \<notin> owned s" using av avail_owned [OF assms(1)] by blast
  show "page_aligned a" "unat a < 2 ^ 42" using avail_page [OF assms(1) av] by simp_all
  show "ok t" using alloc_ok [OF assms(1)] by (simp add: assms(2))
qed

text \<open>A page that is returned at once leaves the allocator as it was, up to its sets.\<close>

lemma alloc_release:
  assumes "ok s" "alloc s = (a, t)" "a \<noteq> 0"
  shows "avail (release a t) = avail s" and "owned (release a t) = owned s"
  using release_owned [of t a] alloc_nonnull [OF assms] by auto

text \<open>Two pages that are live at the same time are different.\<close>

lemma alloc_distinct:
  assumes "ok s" "alloc s = (a, t)" "a \<noteq> 0" "alloc t = (b, u)" "b \<noteq> 0"
  shows "a \<noteq> b"
  using alloc_nonnull [OF assms(1-3)] alloc_nonnull [OF _ assms(4,5)] by auto

end

end
