(* ===== verification/Pmm_Refine.thy ===== *)
theory Pmm_Refine
  imports Pmm Page_Allocator
begin

text \<open>
  The page allocator of \<open>Pmm\<close> against an abstract allocator on sets of page numbers: every
  operation refines its abstract counterpart and keeps the invariant. The kernel's instance
  (\<^verbatim>\<open>pmm_bootstrap.c\<close>) then meets the client contract of \<open>Page_Allocator\<close>.
\<close>

section \<open>The abstract allocator\<close>

text \<open>
  What the file promises: pages are free, reserved or allocated; releasing a range never frees a
  reserved or allocated page; a reservation is permanent; allocation hands out the lowest free
  page; freeing ignores everything that was not handed out.
\<close>

record page_sets =
  pfree :: "nat set"
  preserved :: "nat set"
  pallocated :: "nat set"

definition pmm_abs :: "nat \<Rightarrow> pmm \<Rightarrow> page_sets" where
  "pmm_abs P s = \<lparr>pfree = free_set P s, preserved = reserved_set P s, pallocated = allocated_set P s\<rparr>"

definition spec_reset :: page_sets where
  "spec_reset = \<lparr>pfree = {}, preserved = {}, pallocated = {}\<rparr>"

definition spec_release :: "nat set \<Rightarrow> page_sets \<Rightarrow> page_sets" where
  "spec_release S a = a\<lparr>pfree := pfree a \<union> (S - preserved a - pallocated a)\<rparr>"

definition spec_reserve :: "nat set \<Rightarrow> page_sets \<Rightarrow> page_sets" where
  "spec_reserve S a = a\<lparr>pfree := pfree a - S, preserved := preserved a \<union> S\<rparr>"

definition spec_alloc :: "page_sets \<Rightarrow> nat option \<times> page_sets" where
  "spec_alloc a =
     (if pfree a = {} then (None, a)
      else (Some (Min (pfree a)),
            a\<lparr>pfree := pfree a - {Min (pfree a)}, pallocated := insert (Min (pfree a)) (pallocated a)\<rparr>))"

definition spec_free :: "nat \<Rightarrow> page_sets \<Rightarrow> page_sets" where
  "spec_free i a =
     (if i \<notin> pallocated a then a
      else a\<lparr>pfree := (if i \<in> preserved a then pfree a else insert i (pfree a)),
             pallocated := pallocated a - {i}\<rparr>)"

definition page_address :: "nat \<Rightarrow> u64" where
  "page_address i = of_nat i * SB_PAGE_SIZE"

lemma unat_page_address: "i < 2 ^ 30 \<Longrightarrow> unat (page_address i) = 4096 * i"
  by (simp add: page_address_def unat_mult_small unat_of_nat_small)

lemma page_address_aligned: "i < 2 ^ 30 \<Longrightarrow> page_aligned (page_address i)"
  by (simp add: page_aligned_dvd unat_page_address)

lemma page_address_inj: "i < 2 ^ 30 \<Longrightarrow> j < 2 ^ 30 \<Longrightarrow> page_address i = page_address j \<longleftrightarrow> i = j"
  by (auto simp: word_unat_eq_iff unat_page_address)

lemma page_address_0: "i < 2 ^ 30 \<Longrightarrow> page_address i = 0 \<longleftrightarrow> i = 0"
  by (auto simp: word_unat_eq_iff unat_page_address)

subsection \<open>Counting invariants after a range operation\<close>

lemma bits_in_range: "i < P \<Longrightarrow> i < 64 * PMM_BITMAP_WORDS P"
  by (simp add: PMM_BITMAP_WORDS_def)

lemma marked_sets:
  assumes "marked P mf S s t" and "pmm_inv P s"
  shows "free_set P t = (if mf then free_set P s \<union> ({i \<in> S. i < P} - reserved_set P s - allocated_set P s)
      else free_set P s - S)"
    and "reserved_set P t = (if mf then reserved_set P s else reserved_set P s \<union> {i \<in> S. i < P})"
    and "allocated_set P t = allocated_set P s"
proof -
  have b: "page_bit (bitmap t) i \<longleftrightarrow>
      (if i \<in> S then mf \<longrightarrow> i \<in> reserved_set P s \<or> i \<in> allocated_set P s else i \<notin> free_set P s)"
    and r: "page_bit (reserved_bitmap t) i \<longleftrightarrow> i \<in> reserved_set P s \<or> (\<not> mf \<and> i \<in> S)"
    if "i < P" for i
    using assms(1) that bits_in_range [OF that]
    by (simp_all add: marked_def reserved_set_def allocated_set_def free_set_def)
  have dis: "\<And>i. i \<in> free_set P s \<Longrightarrow> i \<notin> reserved_set P s \<and> i \<notin> allocated_set P s"
    using assms(2) by (auto simp: pmm_inv_def)
  have below: "free_set P s \<subseteq> {..<P}" "reserved_set P s \<subseteq> {..<P}"
    by (auto simp: free_set_def reserved_set_def)
  show "free_set P t = (if mf then free_set P s \<union> ({i \<in> S. i < P} - reserved_set P s - allocated_set P s)
      else free_set P s - S)"
    unfolding free_set_def [of P t] using b dis below by (auto split: if_splits)
  show "reserved_set P t = (if mf then reserved_set P s else reserved_set P s \<union> {i \<in> S. i < P})"
    unfolding reserved_set_def [of P t] using r below by auto
  show "allocated_set P t = allocated_set P s"
    using assms(1) by (simp add: marked_def allocated_set_def)
qed

lemma free_count_update_sets [simp]:
  "free_set P (s\<lparr>free_count := c\<rparr>) = free_set P s"
  "reserved_set P (s\<lparr>free_count := c\<rparr>) = reserved_set P s"
  "allocated_set P (s\<lparr>free_count := c\<rparr>) = allocated_set P s"
  "pmm_shape P (s\<lparr>free_count := c\<rparr>) = pmm_shape P s"
  by (simp_all add: free_set_def reserved_set_def allocated_set_def pmm_shape_def)

lemma range_pages_below: "{i \<in> range_pages P a b. i < P} = range_pages P a b"
  by (auto simp: range_pages_def)

lemma range_op:
  fixes a b :: u64 and mf :: bool
  assumes "pmm_size P" "pmm_inv P s"
  defines "t \<equiv> recompute_free_count P (set_range_bits P a b mf s)"
  shows "pmm_inv P t"
    and "pmm_abs P t = (if mf then spec_release else spec_reserve) (range_pages P a b) (pmm_abs P s)"
proof -
  define u where "u = set_range_bits P a b mf s"
  have m: "marked P mf (range_pages P a b) s u"
    using assms(1,2) by (simp add: set_range_bits_marked pmm_inv_def u_def)
  have t: "t = u\<lparr>free_count := of_nat (card (free_set P u))\<rparr>"
    by (simp add: t_def u_def recompute_free_count_eq)
  note sets = marked_sets [OF m assms(2), unfolded range_pages_below]
  show "pmm_inv P t"
    using assms(2) m by (auto simp: pmm_inv_def t sets marked_def)
  show "pmm_abs P t = (if mf then spec_release else spec_reserve) (range_pages P a b) (pmm_abs P s)"
    by (simp add: pmm_abs_def t sets spec_release_def spec_reserve_def)
qed

lemma pmm_reset_shape: "pmm_shape P (pmm_reset P s)"
  by (simp add: pmm_shape_def pmm_reset_def)

lemma pmm_reset_abs: "pmm_abs P (pmm_reset P s) = spec_reset"
  by (auto simp: pmm_abs_def spec_reset_def free_set_def reserved_set_def allocated_set_def
      page_bit_def pmm_reset_def word_index)

lemma pmm_reset_inv: "pmm_inv P (pmm_reset P s)"
  using pmm_reset_abs [of P s]
  by (auto simp: pmm_inv_def pmm_reset_shape pmm_abs_def spec_reset_def)
     (simp_all add: pmm_reset_def)

lemma pmm_init_eq: "pmm_init P a b s = pmm_add_usable_range P a b (pmm_reset P s)"
  by (simp add: pmm_init_def pmm_add_usable_range_def)

subsection \<open>Allocation and release of one page\<close>

declare push_bit_of_1 [simp del]

definition take_page :: "nat \<Rightarrow> pmm \<Rightarrow> pmm" where
  "take_page i s =
     s\<lparr>bitmap := (bitmap s)[i div 64 := bitmap s ! (i div 64) OR push_bit (i mod 64) 1],
       allocated_bitmap := (allocated_bitmap s)[i div 64 := allocated_bitmap s ! (i div 64) OR push_bit (i mod 64) 1],
       free_count := (if free_count s \<noteq> 0 then free_count s - 1 else free_count s)\<rparr>"

lemma bit_single: "bit (push_bit k 1 :: u64) j \<longleftrightarrow> j = k \<and> k < 64"
  by (auto simp: bit_simps)

lemma available_word_zero:
  assumes "w < PMM_BITMAP_WORDS P"
  shows "available_word P s w = 0 \<longleftrightarrow> (\<forall>i \<in> free_set P s. i div 64 \<noteq> w)"
proof
  assume z: "available_word P s w = 0"
  show "\<forall>i \<in> free_set P s. i div 64 \<noteq> w"
  proof (intro ballI notI)
    fix i assume "i \<in> free_set P s" "i div 64 = w"
    then have "bit (available_word P s w) (i mod 64)"
      using assms by (auto simp: bit_available_word free_set_def page_bit_def)
    with z show False by simp
  qed
next
  assume none: "\<forall>i \<in> free_set P s. i div 64 \<noteq> w"
  show "available_word P s w = 0"
  proof (rule bit_word_eqI)
    fix j assume "j < LENGTH(64)"
    then show "bit (available_word P s w) j \<longleftrightarrow> bit (0 :: u64) j"
      using none [rule_format, of "64 * w + j"] assms
      by (auto simp: bit_available_word free_set_def page_bit_def)
  qed
qed

lemma alloc_scan_eq:
  assumes "pmm_size P" "\<forall>i \<in> free_set P s. a \<le> i div 64"
  shows "pmm_alloc_scan P s [a..<PMM_BITMAP_WORDS P] =
    (if free_set P s = {} then (0, s)
     else (page_address (Min (free_set P s)), take_page (Min (free_set P s)) s))"
  using assms(2)
proof (induction "PMM_BITMAP_WORDS P - a" arbitrary: a)
  case 0
  then have "i \<notin> free_set P s" for i
    using word_index [of i P] by (auto simp: free_set_def)
  with 0 show ?case by auto
next
  case (Suc n)
  then have a: "a < PMM_BITMAP_WORDS P" by simp
  then have ws: "[a..<PMM_BITMAP_WORDS P] = a # [Suc a..<PMM_BITMAP_WORDS P]"
    by (rule upt_conv_Cons)
  show ?case
  proof (cases "available_word P s a = 0")
    case True
    then have "\<forall>i \<in> free_set P s. Suc a \<le> i div 64"
      using Suc.prems available_word_zero [OF a] by (auto simp: Suc_le_eq order.not_eq_order_implies_strict)
    with Suc True show ?thesis by (simp add: ws)
  next
    case False
    then obtain k where k: "first_set_bit64 (available_word P s a) = Some (of_nat k)" "k < 64"
      "bit (available_word P s a) k" "\<And>j. j < k \<Longrightarrow> \<not> bit (available_word P s a) j"
      by (rule first_set_bit64_Some) blast
    define i where "i = 64 * a + k"
    have i: "i div 64 = a" "i mod 64 = k" using k(2) by (simp_all add: i_def)
    have mem: "i \<in> free_set P s"
      using k(3) a i by (auto simp: bit_available_word free_set_def page_bit_def i_def)
    have "i \<le> j" if j: "j \<in> free_set P s" for j
    proof (rule ccontr)
      assume "\<not> i \<le> j"
      moreover have "a \<le> j div 64" using Suc.prems j by simp
      ultimately have "j div 64 = a" "j mod 64 < k"
        using k(2) unfolding i_def by (auto simp: div_nat_eqI minus_mult_div_eq_mod [symmetric])
      with k(4) [of "j mod 64"] j a show False
        by (auto simp: bit_available_word free_set_def page_bit_def)
    qed
    with mem have min: "Min (free_set P s) = i" by (intro Min_eqI) simp_all
    have n: "unat (of_nat k :: u32) = k" using k(2) by (simp add: unat_of_nat_small)
    have u: "ucast (of_nat k :: u32) = (of_nat k :: u64)"
      using n by (metis of_nat_unat)
    have "of_nat a * 64 + of_nat k = (of_nat i :: u64)" by (simp add: i_def)
    with False k(1) mem show ?thesis
      by (auto simp: ws Let_def min i n u take_page_def page_address_def)
  qed
qed

lemma pmm_alloc_page_eq:
  assumes "pmm_size P"
  shows "pmm_alloc_page P s =
    (if free_set P s = {} then (0, s)
     else (page_address (Min (free_set P s)), take_page (Min (free_set P s)) s))"
  using alloc_scan_eq [OF assms, of s 0] by (simp add: pmm_alloc_page_def)

lemma same_page_bit: "j div 64 = i div 64 \<and> j mod 64 = i mod 64 \<longleftrightarrow> j = i" for i j :: nat
  by (metis mult_div_mod_eq)

lemma page_bit_or:
  assumes "i div 64 < length bm"
  shows "page_bit (bm[i div 64 := bm ! (i div 64) OR push_bit (i mod 64) 1]) j \<longleftrightarrow> page_bit bm j \<or> j = i"
  using same_page_bit [of j i] unfolding page_bit_update [OF assms]
  by (auto simp: bit_or_iff bit_single page_bit_def)

lemma page_bit_and_not:
  assumes "i div 64 < length bm"
  shows "page_bit (bm[i div 64 := bm ! (i div 64) AND NOT (push_bit (i mod 64) 1)]) j \<longleftrightarrow>
    page_bit bm j \<and> j \<noteq> i"
  using same_page_bit [of j i] unfolding page_bit_update [OF assms]
  by (auto simp: bit_and_iff bit_not_iff bit_single page_bit_def)

lemma take_page_sets:
  assumes "pmm_shape P s" "i < P"
  shows "free_set P (take_page i s) = free_set P s - {i}"
    and "allocated_set P (take_page i s) = insert i (allocated_set P s)"
    and "reserved_set P (take_page i s) = reserved_set P s"
    and "pmm_shape P (take_page i s)"
proof -
  have W: "i div 64 < length (bitmap s)" "i div 64 < length (allocated_bitmap s)"
    using assms word_index [of i P] by (simp_all add: pmm_shape_def)
  have "page_bit (bitmap (take_page i s)) j \<longleftrightarrow> page_bit (bitmap s) j \<or> j = i"
    "page_bit (allocated_bitmap (take_page i s)) j \<longleftrightarrow> page_bit (allocated_bitmap s) j \<or> j = i" for j
    using W by (auto simp: take_page_def page_bit_or)
  then show "free_set P (take_page i s) = free_set P s - {i}"
    "allocated_set P (take_page i s) = insert i (allocated_set P s)"
    using assms(2) by (auto simp: free_set_def allocated_set_def)
  show "reserved_set P (take_page i s) = reserved_set P s"
    by (simp add: reserved_set_def take_page_def)
  show "pmm_shape P (take_page i s)"
    using assms(1) by (simp add: pmm_shape_def take_page_def)
qed

definition give_page :: "nat \<Rightarrow> pmm \<Rightarrow> pmm" where
  "give_page i s =
     (let t = s\<lparr>allocated_bitmap := (allocated_bitmap s)[i div 64 := allocated_bitmap s ! (i div 64) AND NOT (push_bit (i mod 64) 1)]\<rparr> in
      if page_bit (reserved_bitmap s) i then t
      else t\<lparr>bitmap := (bitmap s)[i div 64 := bitmap s ! (i div 64) AND NOT (push_bit (i mod 64) 1)],
             free_count := free_count s + 1\<rparr>)"

lemma and_single_zero: "(v :: u64) AND push_bit k 1 = 0 \<longleftrightarrow> \<not> bit v k"
proof
  assume z: "v AND push_bit k 1 = 0"
  show "\<not> bit v k"
  proof
    assume b: "bit v k"
    then have "bit (v AND push_bit k 1) k"
      using bit_imp_le_length [OF b] by (simp add: bit_and_iff bit_single)
    with z show False by simp
  qed
next
  assume "\<not> bit v k"
  then show "v AND push_bit k 1 = 0"
    by (intro bit_word_eqI) (auto simp: bit_and_iff bit_single)
qed

lemma pmm_free_page_eq:
  assumes "pmm_size P"
  shows "pmm_free_page P a s =
    (if page_aligned a \<and> unat a div 4096 \<in> allocated_set P s then give_page (unat a div 4096) s else s)"
proof (cases "page_aligned a \<and> unat a div 4096 < P")
  case True
  define i where "i = unat a div 4096"
  have i: "i < P" "i < 2 ^ 30" using True assms by (auto simp: i_def pmm_size_def)
  have u: "unat (a div SB_PAGE_SIZE) = i" by (simp add: unat_div i_def)
  have "unat (ucast (a div SB_PAGE_SIZE div 64) :: u32) = i div 64"
    using i(2) by (subst unat_ucast_small) (simp_all add: unat_div i_def)
  moreover have "unat (ucast (a div SB_PAGE_SIZE mod 64) :: u32) = i mod 64"
    using i(2) by (subst unat_ucast_small) (simp_all add: unat_div unat_mod i_def less_le_trans [of _ 64])
  moreover have "\<not> a div SB_PAGE_SIZE \<ge> of_nat P"
    using i assms u by (simp add: word_le_nat_alt unat_of_nat_small pmm_size_def)
  ultimately show ?thesis
    using True i
    by (simp add: pmm_free_page_def Let_def page_aligned_def [symmetric] and_single_zero i_def [symmetric]
        allocated_set_def page_bit_def give_page_def)
next
  case False
  have "unat a div 4096 < 2 ^ 64" using unat_u64_less [of a] by simp
  then have "a div SB_PAGE_SIZE \<ge> of_nat P \<longleftrightarrow> P \<le> unat a div 4096"
    using assms by (simp add: word_le_nat_alt unat_of_nat_small unat_div pmm_size_def)
  with False show ?thesis
    by (auto simp: pmm_free_page_def Let_def page_aligned_def allocated_set_def)
qed

lemma give_page_sets:
  assumes "pmm_shape P s" "i < P"
  shows "free_set P (give_page i s) =
      (if i \<in> reserved_set P s then free_set P s else insert i (free_set P s))"
    and "allocated_set P (give_page i s) = allocated_set P s - {i}"
    and "reserved_set P (give_page i s) = reserved_set P s"
    and "pmm_shape P (give_page i s)"
proof -
  have W: "i div 64 < length (bitmap s)" "i div 64 < length (allocated_bitmap s)"
    using assms word_index [of i P] by (simp_all add: pmm_shape_def)
  have "page_bit (bitmap (give_page i s)) j \<longleftrightarrow>
      page_bit (bitmap s) j \<and> (j \<noteq> i \<or> page_bit (reserved_bitmap s) i)"
    "page_bit (allocated_bitmap (give_page i s)) j \<longleftrightarrow> page_bit (allocated_bitmap s) j \<and> j \<noteq> i" for j
    using W by (auto simp: give_page_def Let_def page_bit_and_not)
  then show "free_set P (give_page i s) =
      (if i \<in> reserved_set P s then free_set P s else insert i (free_set P s))"
    "allocated_set P (give_page i s) = allocated_set P s - {i}"
    using assms(2) by (auto simp: free_set_def allocated_set_def reserved_set_def)
  show "reserved_set P (give_page i s) = reserved_set P s"
    by (simp add: reserved_set_def give_page_def Let_def)
  show "pmm_shape P (give_page i s)"
    using assms(1) by (simp add: pmm_shape_def give_page_def Let_def)
qed

lemma card_free_set_le: "card (free_set P s) \<le> P"
  using card_mono [of "{..<P}" "free_set P s"] by (auto simp: free_set_def)

lemma take_page_inv:
  assumes "pmm_size P" "pmm_inv P s" "i \<in> free_set P s"
  shows "pmm_inv P (take_page i s)"
proof -
  have i: "i < P" using assms(3) by (simp add: free_set_def)
  have shape: "pmm_shape P s" using assms(2) by (simp add: pmm_inv_def)
  note sets = take_page_sets [OF shape i]
  have pos: "0 < card (free_set P s)" using assms(3) by (auto simp: card_gt_0_iff)
  have small: "card (free_set P s) < 2 ^ 64"
    using card_free_set_le [of P s] assms(1) by (simp add: pmm_size_def)
  have "card (free_set P s - {i}) = card (free_set P s) - 1" using assms(3) by simp
  then have "free_count (take_page i s) = of_nat (card (free_set P s - {i}))"
    using assms(2) pos small by (simp add: take_page_def pmm_inv_def of_nat_diff word_of_nat_eq_0_iff nat_dvd_not_less)
  moreover have "page_count (take_page i s) = page_count s" by (simp add: take_page_def)
  ultimately show ?thesis
    using assms(2,3) by (auto simp: pmm_inv_def sets)
qed

lemma give_page_inv:
  assumes "pmm_inv P s" "i \<in> allocated_set P s"
  shows "pmm_inv P (give_page i s)"
proof -
  have i: "i < P" using assms(2) by (simp add: allocated_set_def)
  have shape: "pmm_shape P s" using assms(1) by (simp add: pmm_inv_def)
  note sets = give_page_sets [OF shape i]
  have "i \<notin> free_set P s" using assms by (auto simp: pmm_inv_def)
  then have "free_count (give_page i s) = of_nat (card (free_set P (give_page i s)))"
    using assms(1) i by (simp add: sets) (simp add: give_page_def Let_def reserved_set_def pmm_inv_def add.commute)
  moreover have "page_count (give_page i s) = page_count s"
    by (simp add: give_page_def Let_def)
  ultimately show ?thesis
    using assms by (auto simp: pmm_inv_def sets)
qed

section \<open>The operations as one transition system\<close>

datatype pmm_op =
    Reset
  | AddUsable u64 u64
  | Reserve u64 u64
  | Init u64 u64
  | Alloc
  | Free u64

fun pmm_exec :: "nat \<Rightarrow> pmm_op \<Rightarrow> pmm \<Rightarrow> pmm" where
  "pmm_exec P Reset s = pmm_reset P s"
| "pmm_exec P (AddUsable a b) s = pmm_add_usable_range P a b s"
| "pmm_exec P (Reserve a b) s = pmm_reserve_range P a b s"
| "pmm_exec P (Init a b) s = pmm_init P a b s"
| "pmm_exec P Alloc s = snd (pmm_alloc_page P s)"
| "pmm_exec P (Free a) s = pmm_free_page P a s"

fun spec_exec :: "nat \<Rightarrow> pmm_op \<Rightarrow> page_sets \<Rightarrow> page_sets" where
  "spec_exec P Reset a = spec_reset"
| "spec_exec P (AddUsable x y) a = spec_release (range_pages P x y) a"
| "spec_exec P (Reserve x y) a = spec_reserve (range_pages P x y) a"
| "spec_exec P (Init x y) a = spec_release (range_pages P x y) spec_reset"
| "spec_exec P Alloc a = snd (spec_alloc a)"
| "spec_exec P (Free x) a = (if page_aligned x then spec_free (unat x div 4096) a else a)"

lemma take_page_abs:
  "pmm_inv P s \<Longrightarrow> i \<in> free_set P s \<Longrightarrow>
   pmm_abs P (take_page i s) =
     (pmm_abs P s)\<lparr>pfree := free_set P s - {i}, pallocated := insert i (allocated_set P s)\<rparr>"
  using take_page_sets [of P s i] by (simp add: pmm_abs_def pmm_inv_def free_set_def)

lemma give_page_abs:
  "pmm_inv P s \<Longrightarrow> i \<in> allocated_set P s \<Longrightarrow> pmm_abs P (give_page i s) = spec_free i (pmm_abs P s)"
  using give_page_sets [of P s i] by (simp add: pmm_abs_def pmm_inv_def spec_free_def allocated_set_def)

lemma Min_free_set: "free_set P s \<noteq> {} \<Longrightarrow> Min (free_set P s) \<in> free_set P s"
  by (rule Min_in) simp_all

lemma pmm_exec_refines:
  assumes "pmm_size P" "pmm_inv P s"
  shows "pmm_inv P (pmm_exec P opn s) \<and> pmm_abs P (pmm_exec P opn s) = spec_exec P opn (pmm_abs P s)"
proof (cases opn)
  case Alloc
  then show ?thesis
    using take_page_inv [OF assms] take_page_abs [OF assms(2)] assms(2) Min_free_set [of P s]
    by (simp add: pmm_alloc_page_eq [OF assms(1)] spec_alloc_def) (simp add: pmm_abs_def)
next
  case (Free a)
  then show ?thesis
    using give_page_inv [OF assms(2)] give_page_abs [OF assms(2)] assms(2)
    by (simp add: pmm_free_page_eq [OF assms(1)] spec_free_def) (simp add: pmm_abs_def)
next
  case (Init a b)
  then show ?thesis
    using range_op [OF assms(1) pmm_reset_inv, where mf = True]
    by (simp add: pmm_init_def pmm_reset_abs)
qed (use assms range_op [OF assms, where mf = True] range_op [OF assms, where mf = False] in
      \<open>simp_all add: pmm_reset_inv pmm_reset_abs pmm_add_usable_range_def pmm_reserve_range_def\<close>)


definition pmm_run :: "nat \<Rightarrow> pmm_op list \<Rightarrow> pmm \<Rightarrow> pmm" where
  "pmm_run P ops s = fold (pmm_exec P) ops s"

lemma pmm_run_simps [simp]:
  "pmm_run P [] s = s"
  "pmm_run P (x # xs) s = pmm_run P xs (pmm_exec P x s)"
  by (simp_all add: pmm_run_def)

lemma pmm_run_inv: "pmm_size P \<Longrightarrow> pmm_inv P s \<Longrightarrow> pmm_inv P (pmm_run P ops s)"
  by (induction ops arbitrary: s) (simp_all add: pmm_exec_refines)

lemma pmm_run_abs:
  "pmm_size P \<Longrightarrow> pmm_inv P s \<Longrightarrow> pmm_abs P (pmm_run P ops s) = fold (spec_exec P) ops (pmm_abs P s)"
  by (induction ops arbitrary: s) (simp_all add: pmm_exec_refines)

lemma pmm_abs_sets:
  "free_set P s = pfree (pmm_abs P s)" "reserved_set P s = preserved (pmm_abs P s)"
  "allocated_set P s = pallocated (pmm_abs P s)"
  by (simp_all add: pmm_abs_def)

text \<open>Which operations leave a reservation, and which leave an allocation, in place.\<close>

fun keeps_reserved :: "pmm_op \<Rightarrow> bool" where
  "keeps_reserved Reset = False"
| "keeps_reserved (Init _ _) = False"
| "keeps_reserved _ = True"

fun keeps_page :: "nat \<Rightarrow> pmm_op \<Rightarrow> bool" where
  "keeps_page i Reset = False"
| "keeps_page i (Init _ _) = False"
| "keeps_page i (Free a) = (a \<noteq> page_address i)"
| "keeps_page i _ = True"

lemma exec_keeps_reserved:
  assumes "pmm_size P" "pmm_inv P s" "keeps_reserved opn" "i \<in> reserved_set P s"
  shows "i \<in> reserved_set P (pmm_exec P opn s)"
  using assms(3,4) pmm_exec_refines [OF assms(1,2), of opn] unfolding pmm_abs_sets
  by (cases opn) (auto simp: spec_release_def spec_reserve_def spec_alloc_def spec_free_def)

lemma aligned_page_address:
  "page_aligned a \<Longrightarrow> unat a div 4096 < 2 ^ 30 \<Longrightarrow> a = page_address (unat a div 4096)"
  by (simp add: word_unat_eq_iff unat_page_address page_aligned_dvd)

lemma exec_keeps_page:
  assumes "pmm_size P" "pmm_inv P s" "keeps_page i opn" "i \<in> allocated_set P s"
  shows "i \<in> allocated_set P (pmm_exec P opn s)"
proof -
  have i: "i < 2 ^ 30" using assms(1,4) by (simp add: allocated_set_def pmm_size_def)
  have "i \<in> pallocated (spec_exec P opn (pmm_abs P s))"
    using assms(3,4) i aligned_page_address unfolding pmm_abs_sets
    by (cases opn) (auto simp: spec_release_def spec_reserve_def spec_alloc_def spec_free_def)
  then show ?thesis
    using pmm_exec_refines [OF assms(1,2), of opn] by (simp add: pmm_abs_sets)
qed

lemma run_keeps_reserved:
  "pmm_size P \<Longrightarrow> pmm_inv P s \<Longrightarrow> list_all keeps_reserved ops \<Longrightarrow> i \<in> reserved_set P s \<Longrightarrow>
   i \<in> reserved_set P (pmm_run P ops s)"
  by (induction ops arbitrary: s) (simp_all add: exec_keeps_reserved pmm_exec_refines)

lemma run_keeps_page:
  "pmm_size P \<Longrightarrow> pmm_inv P s \<Longrightarrow> list_all (keeps_page i) ops \<Longrightarrow> i \<in> allocated_set P s \<Longrightarrow>
   i \<in> allocated_set P (pmm_run P ops s)"
  by (induction ops arbitrary: s) (simp_all add: exec_keeps_page pmm_exec_refines)

lemma alloc_not_unavailable:
  assumes "pmm_size P" "pmm_inv P s" "i \<in> reserved_set P s \<union> allocated_set P s" "i \<noteq> 0"
  shows "fst (pmm_alloc_page P s) \<noteq> page_address i"
proof
  assume eq: "fst (pmm_alloc_page P s) = page_address i"
  have i: "i < 2 ^ 30"
    using assms(1,3) by (auto simp: reserved_set_def allocated_set_def pmm_size_def)
  have ne: "free_set P s \<noteq> {}"
    using eq i assms(4) by (auto simp: pmm_alloc_page_eq [OF assms(1)] page_address_0)
  then have m: "Min (free_set P s) \<in> free_set P s" by (rule Min_free_set)
  then have "Min (free_set P s) < 2 ^ 30" using assms(1) by (simp add: free_set_def pmm_size_def)
  with eq ne i have "Min (free_set P s) = i"
    by (simp add: pmm_alloc_page_eq [OF assms(1)] page_address_inj)
  with m assms(2,3) show False by (auto simp: pmm_inv_def)
qed

section \<open>The kernel's allocator\<close>

definition PMM_MAX_PAGES_host :: nat where
  "PMM_MAX_PAGES_host = 64 * 1024 * 1024 div 4096"

definition PMM_MAX_PAGES :: nat where
  "PMM_MAX_PAGES = 256 * 1024 * 1024 div 4096"

definition kpmm_recompute_free_count :: "pmm \<Rightarrow> pmm" where
  "kpmm_recompute_free_count = recompute_free_count PMM_MAX_PAGES"

definition kpmm_set_range_bits :: "u64 \<Rightarrow> u64 \<Rightarrow> bool \<Rightarrow> pmm \<Rightarrow> pmm" where
  "kpmm_set_range_bits = set_range_bits PMM_MAX_PAGES"

definition kpmm_reset :: "pmm \<Rightarrow> pmm" where
  "kpmm_reset = pmm_reset PMM_MAX_PAGES"

definition kpmm_add_usable_range :: "u64 \<Rightarrow> u64 \<Rightarrow> pmm \<Rightarrow> pmm" where
  "kpmm_add_usable_range usable_start usable_end s =
     kpmm_recompute_free_count (kpmm_set_range_bits usable_start usable_end True s)"

definition kpmm_reserve_range :: "u64 \<Rightarrow> u64 \<Rightarrow> pmm \<Rightarrow> pmm" where
  "kpmm_reserve_range start end s =
     kpmm_recompute_free_count (kpmm_set_range_bits start end False s)"

definition kpmm_init :: "u64 \<Rightarrow> u64 \<Rightarrow> pmm \<Rightarrow> pmm" where
  "kpmm_init usable_start usable_end s =
     kpmm_recompute_free_count (kpmm_set_range_bits usable_start usable_end True (kpmm_reset s))"

definition kpmm_alloc_page :: "pmm \<Rightarrow> u64 \<times> pmm" where
  "kpmm_alloc_page = pmm_alloc_page PMM_MAX_PAGES"

definition kpmm_free_page :: "u64 \<Rightarrow> pmm \<Rightarrow> pmm" where
  "kpmm_free_page = pmm_free_page PMM_MAX_PAGES"

text \<open>The state the kernel runs in after boot: page 0 is reserved and no live page is.\<close>

definition kpmm_ok :: "pmm \<Rightarrow> bool" where
  "kpmm_ok s \<longleftrightarrow>
     pmm_inv PMM_MAX_PAGES s \<and> 0 \<in> reserved_set PMM_MAX_PAGES s \<and>
     reserved_set PMM_MAX_PAGES s \<inter> allocated_set PMM_MAX_PAGES s = {}"

definition kpmm_avail :: "pmm \<Rightarrow> u64 set" where
  "kpmm_avail s = page_address ` free_set PMM_MAX_PAGES s"

definition kpmm_owned :: "pmm \<Rightarrow> u64 set" where
  "kpmm_owned s = page_address ` allocated_set PMM_MAX_PAGES s"

lemma PMM_MAX_PAGES_eq: "PMM_MAX_PAGES = 65536"
  by (simp add: PMM_MAX_PAGES_def)

lemma kpmm_size: "pmm_size PMM_MAX_PAGES"
  by (simp add: pmm_size_def PMM_MAX_PAGES_def)

lemma kpmm_page:
  assumes "i < PMM_MAX_PAGES" "i \<noteq> 0"
  shows "page_aligned (page_address i) \<and> page_address i \<noteq> 0 \<and> unat (page_address i) < 2 ^ 42"
  using assms by (simp add: PMM_MAX_PAGES_eq page_address_aligned page_address_0 unat_page_address)

lemma page_address_inj_on: "inj_on page_address {..<PMM_MAX_PAGES}"
  by (auto simp: inj_on_def page_address_inj PMM_MAX_PAGES_eq)

lemma kpmm_sets_below:
  "free_set PMM_MAX_PAGES s \<subseteq> {..<PMM_MAX_PAGES}" "allocated_set PMM_MAX_PAGES s \<subseteq> {..<PMM_MAX_PAGES}"
  by (auto simp: free_set_def allocated_set_def)

lemma kpmm_owned_iff:
  "a \<in> kpmm_owned s \<longleftrightarrow> page_aligned a \<and> unat a div 4096 \<in> allocated_set PMM_MAX_PAGES s"
proof
  assume "a \<in> kpmm_owned s"
  then obtain i where i: "a = page_address i" "i \<in> allocated_set PMM_MAX_PAGES s"
    by (auto simp: kpmm_owned_def)
  then have "i < 2 ^ 30" by (simp add: allocated_set_def PMM_MAX_PAGES_eq)
  with i show "page_aligned a \<and> unat a div 4096 \<in> allocated_set PMM_MAX_PAGES s"
    by (simp add: page_address_aligned unat_page_address)
next
  assume *: "page_aligned a \<and> unat a div 4096 \<in> allocated_set PMM_MAX_PAGES s"
  then have "a = page_address (unat a div 4096)"
    by (intro aligned_page_address) (auto simp: allocated_set_def PMM_MAX_PAGES_eq)
  with * show "a \<in> kpmm_owned s" unfolding kpmm_owned_def by blast
qed

lemma kpmm_exec_ok:
  assumes "kpmm_ok s" and "opn = Alloc \<or> opn = Free a"
  shows "kpmm_ok (pmm_exec PMM_MAX_PAGES opn s)"
proof -
  have inv: "pmm_inv PMM_MAX_PAGES s" using assms(1) by (simp add: kpmm_ok_def)
  have shape: "pmm_shape PMM_MAX_PAGES s" using inv by (simp add: pmm_inv_def)
  have dis: "free_set PMM_MAX_PAGES s \<inter> reserved_set PMM_MAX_PAGES s = {}"
    using inv by (auto simp: pmm_inv_def)
  have m: "Min (free_set PMM_MAX_PAGES s) \<notin> reserved_set PMM_MAX_PAGES s"
    if "free_set PMM_MAX_PAGES s \<noteq> {}"
    using Min_free_set [OF that] dis by blast
  show ?thesis
  proof (cases opn)
    case Alloc
    then show ?thesis
      using assms(1) m take_page_inv [OF kpmm_size inv] take_page_sets [OF shape] Min_free_set
      by (auto simp: kpmm_ok_def pmm_alloc_page_eq [OF kpmm_size] free_set_def)
  next
    case (Free b)
    then show ?thesis
      using assms(1) give_page_inv [OF inv] give_page_sets [OF shape]
      by (auto simp: kpmm_ok_def pmm_free_page_eq [OF kpmm_size] allocated_set_def)
  qed (use assms(2) in simp_all)
qed

interpretation kp: page_allocator kpmm_ok kpmm_alloc_page kpmm_free_page kpmm_avail kpmm_owned
proof
  fix s a
  assume ok: "kpmm_ok s"
  then have inv: "pmm_inv PMM_MAX_PAGES s" by (simp add: kpmm_ok_def)
  have nz: "0 \<notin> free_set PMM_MAX_PAGES s" "0 \<notin> allocated_set PMM_MAX_PAGES s"
    using ok by (auto simp: kpmm_ok_def pmm_inv_def)
  show "kpmm_ok (snd (kpmm_alloc_page s))"
    using kpmm_exec_ok [OF ok, of Alloc] by (simp add: kpmm_alloc_page_def)
  show "kpmm_ok (kpmm_free_page a s)"
    using kpmm_exec_ok [OF ok, of "Free a"] by (simp add: kpmm_free_page_def)
  show "page_aligned a \<and> a \<noteq> 0 \<and> unat a < 2 ^ 42" if "a \<in> kpmm_avail s"
    using that nz kpmm_sets_below kpmm_page by (auto simp: kpmm_avail_def) blast+
  show "page_aligned a \<and> a \<noteq> 0 \<and> unat a < 2 ^ 42" if "a \<in> kpmm_owned s"
    using that nz kpmm_sets_below kpmm_page by (auto simp: kpmm_owned_def) blast+
  show "kpmm_avail s \<inter> kpmm_owned s = {}"
    using inv kpmm_sets_below [of s] inj_on_image_Int [OF page_address_inj_on]
    by (simp add: kpmm_avail_def kpmm_owned_def pmm_inv_def flip: inj_on_image_Int [OF page_address_inj_on])
       blast
  show "kpmm_alloc_page s = (0, s)" if "kpmm_avail s = {}"
    using that by (simp add: kpmm_avail_def kpmm_alloc_page_def pmm_alloc_page_eq [OF kpmm_size])
  show "fst (kpmm_alloc_page s) \<in> kpmm_avail s \<and>
      kpmm_avail (snd (kpmm_alloc_page s)) = kpmm_avail s - {fst (kpmm_alloc_page s)} \<and>
      kpmm_owned (snd (kpmm_alloc_page s)) = insert (fst (kpmm_alloc_page s)) (kpmm_owned s)"
    if "kpmm_avail s \<noteq> {}"
  proof -
    let ?i = "Min (free_set PMM_MAX_PAGES s)"
    have "free_set PMM_MAX_PAGES s \<noteq> {}" using that by (auto simp: kpmm_avail_def)
    moreover from this have "?i \<in> free_set PMM_MAX_PAGES s" by (rule Min_free_set)
    moreover note take_page_abs [OF inv this]
    moreover have "page_address ` (free_set PMM_MAX_PAGES s - {?i}) = kpmm_avail s - page_address ` {?i}"
      unfolding kpmm_avail_def using calculation(2) kpmm_sets_below
      by (intro inj_on_image_set_diff [OF page_address_inj_on]) auto
    ultimately show ?thesis
      by (simp add: kpmm_alloc_page_def pmm_alloc_page_eq [OF kpmm_size] kpmm_avail_def kpmm_owned_def pmm_abs_def)
  qed
  show "kpmm_avail (kpmm_free_page a s) = insert a (kpmm_avail s) \<and>
      kpmm_owned (kpmm_free_page a s) = kpmm_owned s - {a}" if "a \<in> kpmm_owned s"
  proof -
    let ?i = "unat a div 4096"
    have i: "page_aligned a" "?i \<in> allocated_set PMM_MAX_PAGES s" using that by (simp_all add: kpmm_owned_iff)
    have a: "page_address ?i = a"
      using i by (intro aligned_page_address [symmetric]) (auto simp: allocated_set_def PMM_MAX_PAGES_eq)
    have "?i \<notin> reserved_set PMM_MAX_PAGES s" using ok i by (auto simp: kpmm_ok_def)
    moreover have "page_address ` (allocated_set PMM_MAX_PAGES s - {?i}) = kpmm_owned s - page_address ` {?i}"
      unfolding kpmm_owned_def using i kpmm_sets_below
      by (intro inj_on_image_set_diff [OF page_address_inj_on]) auto
    ultimately show ?thesis
      using give_page_abs [OF inv i(2)] i a
      by (simp add: kpmm_free_page_def pmm_free_page_eq [OF kpmm_size] kpmm_avail_def kpmm_owned_def
          pmm_abs_def spec_free_def)
  qed
  show "kpmm_free_page a s = s" if "a \<notin> kpmm_owned s"
    using that by (auto simp: kpmm_free_page_def pmm_free_page_eq [OF kpmm_size] kpmm_owned_iff)
qed

text \<open>A concrete allocator in working order: the window from 16 to 64 MiB, with page 0 reserved.\<close>

definition sample_pmm :: pmm where
  "sample_pmm = kpmm_reserve_range 0 SB_PAGE_SIZE (kpmm_init 0x01000000 0x04000000 (pmm_static PMM_MAX_PAGES))"

lemma kpmm_exec:
  "kpmm_init a b s = pmm_exec PMM_MAX_PAGES (Init a b) s"
  "kpmm_reserve_range a b s = pmm_exec PMM_MAX_PAGES (Reserve a b) s"
  "kpmm_add_usable_range a b s = pmm_exec PMM_MAX_PAGES (AddUsable a b) s"
  by (simp_all add: kpmm_init_def kpmm_reserve_range_def kpmm_add_usable_range_def kpmm_reset_def
      kpmm_recompute_free_count_def kpmm_set_range_bits_def pmm_init_def pmm_reserve_range_def pmm_add_usable_range_def)

lemma sample_pmm:
  "kpmm_ok sample_pmm" "kpmm_owned sample_pmm = {}" "kpmm_avail sample_pmm = page_address ` {4096..<16384}"
proof -
  let ?i = "pmm_exec PMM_MAX_PAGES (Init 0x01000000 0x04000000) (pmm_reset PMM_MAX_PAGES (pmm_static PMM_MAX_PAGES))"
  have s: "sample_pmm = pmm_exec PMM_MAX_PAGES (Reserve 0 SB_PAGE_SIZE) ?i"
    by (simp add: sample_pmm_def kpmm_exec pmm_init_def pmm_reset_def)
  note i = pmm_exec_refines [OF kpmm_size pmm_reset_inv [of PMM_MAX_PAGES "pmm_static PMM_MAX_PAGES"], of "Init 0x01000000 0x04000000"]
  note t = pmm_exec_refines [OF kpmm_size conjunct1 [OF i], of "Reserve 0 SB_PAGE_SIZE"]
  have "pmm_abs PMM_MAX_PAGES sample_pmm = \<lparr>pfree = {4096..<16384}, preserved = {0}, pallocated = {}\<rparr>"
    unfolding s using t i
    by (auto simp: spec_reserve_def spec_release_def spec_reset_def range_pages_def PMM_MAX_PAGES_eq)
  moreover have "pmm_inv PMM_MAX_PAGES sample_pmm" unfolding s using t by blast
  ultimately show "kpmm_ok sample_pmm" "kpmm_owned sample_pmm = {}" "kpmm_avail sample_pmm = page_address ` {4096..<16384}"
    by (simp_all add: kpmm_ok_def kpmm_owned_def kpmm_avail_def pmm_abs_sets)
qed

lemma sample_pmm_card: "card (kpmm_avail sample_pmm) = 12288"
  using card_image [OF inj_on_subset [OF page_address_inj_on], of "{4096..<16384}"]
  by (simp add: sample_pmm PMM_MAX_PAGES_eq subset_eq)

section \<open>Properties of the allocator\<close>

text \<open>
  C1. Whatever calls are made after \<open>pmm_reset\<close>, in any order, with any
  arguments, on a machine of at most \<open>2\<^sup>30\<close> pages: the bitmap allocator behaves like three
  disjoint-by-construction sets of page numbers (available, reserved, live). Its invariant holds,
  its sets are those that the same calls produce in the set-level specification, the next
  allocation returns the lowest available page (the null pointer when there is none), and
  \<open>pmm_free_pages\<close> is the exact number of available pages.
\<close>

theorem pmm_run_refines:
  assumes "pmm_size P"
  shows "pmm_inv P (pmm_run P ops (pmm_reset P s)) \<and>
    pmm_abs P (pmm_run P ops (pmm_reset P s)) = fold (spec_exec P) ops spec_reset \<and>
    fst (pmm_alloc_page P (pmm_run P ops (pmm_reset P s))) =
      (case fst (spec_alloc (fold (spec_exec P) ops spec_reset)) of None \<Rightarrow> 0 | Some i \<Rightarrow> page_address i) \<and>
    unat (pmm_free_pages (pmm_run P ops (pmm_reset P s))) =
      card (pfree (fold (spec_exec P) ops spec_reset))"
proof -
  let ?t = "pmm_run P ops (pmm_reset P s)"
  have inv: "pmm_inv P ?t" by (rule pmm_run_inv [OF assms pmm_reset_inv])
  have abs: "pmm_abs P ?t = fold (spec_exec P) ops spec_reset"
    using pmm_run_abs [OF assms pmm_reset_inv] by (simp add: pmm_reset_abs)
  show ?thesis
    unfolding abs [symmetric] using inv card_free_set_le [of P ?t] assms
    by (simp add: pmm_alloc_page_eq [OF assms] spec_alloc_def pmm_abs_def pmm_free_pages_def pmm_inv_def
        pmm_size_def unat_of_nat_small)
qed

theorem pmm_run_refines_witness:
  "pmm_size 130 \<and>
   pmm_abs 130 (pmm_run 130 [Init 0 0x5000, Reserve 0 0x1000, Alloc] (pmm_reset 130 (pmm_static 130))) =
     fold (spec_exec 130) [Init 0 0x5000, Reserve 0 0x1000, Alloc] spec_reset"
  using pmm_run_refines [of 130 "[Init 0 0x5000, Reserve 0 0x1000, Alloc]" "pmm_static 130"]
  by (simp add: pmm_size_def)

text \<open>
  A page handed out by \<open>pmm_alloc_page\<close> is not handed out again
  by any later allocation, whatever ranges are added or reserved and whatever other pages are
  allocated and released in between, as long as it is not itself released and the allocator is
  not reset.
\<close>

theorem pmm_live_page_not_reissued:
  assumes "pmm_size P" "pmm_inv P s"
    and "fst (pmm_alloc_page P s) = page_address i" "0 < i" "i < P"
    and "list_all (keeps_page i) ops"
  shows "fst (pmm_alloc_page P (pmm_run P ops (snd (pmm_alloc_page P s)))) \<noteq> page_address i"
proof -
  let ?t = "snd (pmm_alloc_page P s)"
  have i: "i < 2 ^ 30" using assms(1,5) by (simp add: pmm_size_def)
  have ne: "free_set P s \<noteq> {}"
    using assms(3,4) page_address_0 [OF i] by (auto simp: pmm_alloc_page_eq [OF assms(1)])
  have "Min (free_set P s) < 2 ^ 30"
    using Min_free_set [OF ne] assms(1) by (simp add: free_set_def pmm_size_def)
  then have "i = Min (free_set P s)"
    using assms(3) ne i page_address_inj by (auto simp: pmm_alloc_page_eq [OF assms(1)])
  then have "i \<in> allocated_set P ?t"
    using ne take_page_sets(2) [of P s i] assms(2,5) by (simp add: pmm_alloc_page_eq [OF assms(1)] pmm_inv_def)
  moreover have inv: "pmm_inv P ?t" using pmm_exec_refines [OF assms(1,2), of Alloc] by simp
  ultimately have "i \<in> allocated_set P (pmm_run P ops ?t)" by (intro run_keeps_page assms)
  then show ?thesis using assms(4) by (intro alloc_not_unavailable assms(1) pmm_run_inv inv) auto
qed

theorem pmm_live_page_not_reissued_witness:
  "fst (pmm_alloc_page 130 (pmm_run 130 [Reserve 0 0x3000, AddUsable 0 0x5000, Free 0x2000, Alloc]
     (snd (pmm_alloc_page 130 (pmm_init 130 0x1000 0x3000 (pmm_static 130)))))) \<noteq> page_address 1"
proof (rule pmm_live_page_not_reissued)
  show "pmm_inv 130 (pmm_init 130 0x1000 0x3000 (pmm_static 130))"
    using pmm_exec_refines [OF _ pmm_reset_inv, of 130 "Init 0x1000 0x3000"]
    by (simp add: pmm_size_def pmm_init_def pmm_reset_def)
  have "free_set 130 (pmm_init 130 0x1000 0x3000 (pmm_static 130)) = {1, 2}"
    using pmm_exec_refines [OF _ pmm_reset_inv, of 130 "Init 0x1000 0x3000" "pmm_static 130"]
    by (auto simp: pmm_size_def pmm_abs_sets spec_release_def spec_reset_def range_pages_def
        pmm_init_def pmm_reset_def)
  then show "fst (pmm_alloc_page 130 (pmm_init 130 0x1000 0x3000 (pmm_static 130))) = page_address 1"
    by (simp add: pmm_alloc_page_eq pmm_size_def)
qed (simp_all add: pmm_size_def page_address_def SB_PAGE_SIZE_def)

text \<open>
  Every whole page inside a range given to
  \<open>pmm_reserve_range\<close> (page 0 apart, whose address is the null pointer) is never returned by a
  later \<open>pmm_alloc_page\<close>: not after the range is offered as usable again, nor after the page is
  passed to \<open>pmm_free_page\<close>, nor after any other sequence of calls without a reset.
\<close>

theorem pmm_reserved_never_allocated:
  assumes "pmm_size P" "pmm_inv P s" "i \<in> range_pages P a b" "0 < i"
    and "list_all keeps_reserved ops"
  shows "fst (pmm_alloc_page P (pmm_run P ops (pmm_reserve_range P a b s))) \<noteq> page_address i"
proof -
  note ref = pmm_exec_refines [OF assms(1,2), of "Reserve a b"]
  have "i \<in> reserved_set P (pmm_reserve_range P a b s)"
    using ref assms(3) by (simp add: pmm_abs_sets spec_reserve_def)
  then have "i \<in> reserved_set P (pmm_run P ops (pmm_reserve_range P a b s))"
    using ref assms(1,5) by (intro run_keeps_reserved) simp_all
  then show ?thesis
    using ref assms(1,4) by (intro alloc_not_unavailable pmm_run_inv) simp_all
qed

theorem pmm_reserved_never_allocated_witness:
  "fst (pmm_alloc_page 130 (pmm_run 130 [AddUsable 0 0x5000, Free 0x2000, Alloc]
     (pmm_reserve_range 130 0x2000 0x3000 (pmm_reset 130 (pmm_static 130))))) \<noteq> page_address 2"
  by (rule pmm_reserved_never_allocated [OF _ pmm_reset_inv])
    (simp_all add: pmm_size_def range_pages_def)

end
