(* ===== verification/Pmm_Multiboot.thy ===== *)
theory Pmm_Multiboot
  imports Pmm_Refine
begin

text \<open>
  Boot-time set-up of the page allocator from the Multiboot2 information block,
  \<^verbatim>\<open>kernel/mm/pmm_multiboot.c\<close>. The block is read from byte memory; the addresses
  \<^verbatim>\<open>__kernel_start\<close> and \<^verbatim>\<open>__kernel_end\<close> are chosen by the linker and are arguments.
  The allocator's static bitmaps are not part of the block, so memory is only read here.

  Leaving a loop through \<^verbatim>\<open>fallback_to_bootstrap(); return;\<close> is \<open>Inl s\<close> with the
  allocator state at that point; leaving it normally is \<open>Inr\<close>.
\<close>

section \<open>Operations\<close>

definition SB_MB2_MAX_INFO_SIZE :: u32 where
  "SB_MB2_MAX_INFO_SIZE = 64 * 1024"

definition SB_MB2_MAX_TAGS :: u32 where
  "SB_MB2_MAX_TAGS = 128"

definition SB_MB2_MAX_MMAP_ENTRIES :: u32 where
  "SB_MB2_MAX_MMAP_ENTRIES = 128"

definition SB_MB2_MAX_MODULES :: u32 where
  "SB_MB2_MAX_MODULES = 32"

definition SB_PMM_BOOTSTRAP_LIMIT :: u64 where
  "SB_PMM_BOOTSTRAP_LIMIT = 256 * 1024 * 1024"

definition MULTIBOOT2_TAG_TYPE_END :: u32 where
  "MULTIBOOT2_TAG_TYPE_END = 0"

definition MULTIBOOT2_TAG_TYPE_MODULE :: u32 where
  "MULTIBOOT2_TAG_TYPE_MODULE = 3"

definition MULTIBOOT2_TAG_TYPE_MMAP :: u32 where
  "MULTIBOOT2_TAG_TYPE_MMAP = 6"

definition MULTIBOOT2_MMAP_TYPE_AVAILABLE :: u32 where
  "MULTIBOOT2_MMAP_TYPE_AVAILABLE = 1"

definition align_up :: "u64 \<Rightarrow> u64" where
  "align_up value =
     (if value > UINT64_MAX - (SB_PAGE_SIZE - 1) then UINT64_MAX
      else (value + SB_PAGE_SIZE - 1) AND NOT (SB_PAGE_SIZE - 1))"

definition align_down :: "u64 \<Rightarrow> u64" where
  "align_down value = value AND NOT (SB_PAGE_SIZE - 1)"

definition reserve_range :: "u64 \<Rightarrow> u64 \<Rightarrow> pmm \<Rightarrow> pmm" where
  "reserve_range start end s =
     (if end \<le> start then s
      else if start \<ge> SB_PMM_BOOTSTRAP_LIMIT then s
      else
        let end = (if end > SB_PMM_BOOTSTRAP_LIMIT then SB_PMM_BOOTSTRAP_LIMIT else end);
            start = align_down start;
            end = align_up end in
        if end > start then kpmm_reserve_range start end s else s)"

definition fallback_to_bootstrap :: "u64 \<Rightarrow> u64 \<Rightarrow> pmm \<Rightarrow> pmm" where
  "fallback_to_bootstrap kernel_start kernel_end s =
     kpmm_reserve_range 0 SB_PAGE_SIZE
       (kpmm_reserve_range kernel_start kernel_end
         (kpmm_init 0x01000000 0x04000000 s))"

text \<open>The fields of the information block: \<open>struct multiboot2_tag\<close> and its variants.\<close>

definition tag_type :: "memory \<Rightarrow> u64 \<Rightarrow> u32" where
  "tag_type m tag = load32 m tag"

definition tag_size :: "memory \<Rightarrow> u64 \<Rightarrow> u32" where
  "tag_size m tag = load32 m (tag + 4)"

definition mod_start :: "memory \<Rightarrow> u64 \<Rightarrow> u32" where
  "mod_start m tag = load32 m (tag + 8)"

definition mod_end :: "memory \<Rightarrow> u64 \<Rightarrow> u32" where
  "mod_end m tag = load32 m (tag + 12)"

definition entry_size :: "memory \<Rightarrow> u64 \<Rightarrow> u32" where
  "entry_size m mmap = load32 m (mmap + 8)"

definition entry_addr :: "memory \<Rightarrow> u64 \<Rightarrow> u64" where
  "entry_addr m entry = load64 m entry"

definition entry_len :: "memory \<Rightarrow> u64 \<Rightarrow> u64" where
  "entry_len m entry = load64 m (entry + 8)"

definition entry_type :: "memory \<Rightarrow> u64 \<Rightarrow> u32" where
  "entry_type m entry = load32 m (entry + 16)"

text \<open>One memory-map entry: lines 109 to 124.\<close>

definition mmap_entry :: "memory \<Rightarrow> u64 \<Rightarrow> pmm \<Rightarrow> pmm" where
  "mmap_entry m entry s =
     (if entry_len m entry \<noteq> 0 \<and> entry_len m entry \<le> UINT64_MAX - entry_addr m entry then
        let start = entry_addr m entry;
            end = entry_addr m entry + entry_len m entry in
        if entry_type m entry = MULTIBOOT2_MMAP_TYPE_AVAILABLE then
          if start < SB_PMM_BOOTSTRAP_LIMIT then
            let usable_end = (if end > SB_PMM_BOOTSTRAP_LIMIT then SB_PMM_BOOTSTRAP_LIMIT else end);
                usable_end = align_down usable_end in
            if usable_end > start then kpmm_add_usable_range (align_up start) usable_end s else s
          else s
        else reserve_range start end s
      else s)"

function mmap_loop :: "memory \<Rightarrow> u64 \<Rightarrow> u32 \<Rightarrow> u32 \<Rightarrow> pmm \<Rightarrow> pmm + u32 \<times> pmm" where
  "mmap_loop m mmap entry_offset mmap_entries_seen s =
     (if entry_offset \<le> tag_size m mmap - entry_size m mmap then
        if mmap_entries_seen \<ge> SB_MB2_MAX_MMAP_ENTRIES then Inl s
        else mmap_loop m mmap (entry_offset + entry_size m mmap) (mmap_entries_seen + 1)
               (mmap_entry m (mmap + ucast entry_offset) s)
      else Inr (mmap_entries_seen, s))"
  by pat_completeness auto
termination
  by (relation "measure (\<lambda>(m, mmap, entry_offset, seen, s). 128 - unat seen)")
    (auto simp: SB_MB2_MAX_MMAP_ENTRIES_def word_le_nat_alt unat_add_small)

text \<open>The local variables that the tag loop updates, with the allocator.\<close>

record walk =
  mmap_entries_seen :: u32
  modules_seen :: u32
  seen_mmap :: bool
  walk_pmm :: pmm

text \<open>The body of the tag loop for one tag that is not the end tag: lines 77 to 127.\<close>

definition tag_body :: "memory \<Rightarrow> u64 \<Rightarrow> walk \<Rightarrow> pmm + walk" where
  "tag_body m tag w =
     (if tag_type m tag = MULTIBOOT2_TAG_TYPE_MODULE then
        if tag_size m tag < 16 \<or> modules_seen w \<ge> SB_MB2_MAX_MODULES then Inl (walk_pmm w)
        else Inr (w\<lparr>walk_pmm := reserve_range (ucast (mod_start m tag)) (ucast (mod_end m tag)) (walk_pmm w),
                   modules_seen := modules_seen w + 1\<rparr>)
      else if tag_type m tag = MULTIBOOT2_TAG_TYPE_MMAP then
        if tag_size m tag < 16 then Inl (walk_pmm w)
        else if entry_size m tag < 24 \<or> entry_size m tag > tag_size m tag - 16 then Inl (walk_pmm w)
        else case mmap_loop m tag 16 (mmap_entries_seen w) (walk_pmm w) of
            Inl s \<Rightarrow> Inl s
          | Inr (seen, s) \<Rightarrow> Inr (w\<lparr>seen_mmap := True, mmap_entries_seen := seen, walk_pmm := s\<rparr>)
      else Inr w)"

function tag_loop :: "memory \<Rightarrow> u64 \<Rightarrow> u32 \<Rightarrow> u32 \<Rightarrow> u32 \<Rightarrow> walk \<Rightarrow> pmm + bool \<times> walk" where
  "tag_loop m info total_size offset tags_seen w =
     (if offset \<le> total_size - 8 \<and> tags_seen < SB_MB2_MAX_TAGS then
        let tag = info + ucast offset in
        if tag_size m tag < 8 \<or> tag_size m tag > total_size - offset then Inl (walk_pmm w)
        else if tag_type m tag = MULTIBOOT2_TAG_TYPE_END then Inr (tag_size m tag = 8, w)
        else case tag_body m tag w of
            Inl s \<Rightarrow> Inl s
          | Inr w \<Rightarrow>
              let next_offset = (tag_size m tag + 7) AND NOT 7 in
              if next_offset < tag_size m tag \<or> next_offset > total_size - offset then Inl (walk_pmm w)
              else tag_loop m info total_size (offset + next_offset) (tags_seen + 1) w
      else Inr (False, w))"
  by pat_completeness auto
termination
  by (relation "measure (\<lambda>(m, info, total, offset, seen, w). 128 - unat seen)")
    (auto simp: SB_MB2_MAX_TAGS_def word_less_nat_alt unat_add_small)

definition pmm_init_from_multiboot :: "memory \<Rightarrow> u64 \<Rightarrow> u64 \<Rightarrow> u64 \<Rightarrow> pmm \<Rightarrow> pmm" where
  "pmm_init_from_multiboot m kernel_start kernel_end info s =
     (let s = kpmm_reserve_range 0 SB_PAGE_SIZE (kpmm_reset s) in
      if info = 0 \<or> info \<ge> 0x40000000 then fallback_to_bootstrap kernel_start kernel_end s
      else
        let total_size = load32 m info in
        if total_size < 16 \<or> total_size > SB_MB2_MAX_INFO_SIZE \<or> total_size AND 7 \<noteq> 0 \<or>
           ucast total_size > UINT64_MAX - info
        then fallback_to_bootstrap kernel_start kernel_end s
        else case tag_loop m info total_size 8 0
            \<lparr>mmap_entries_seen = 0, modules_seen = 0, seen_mmap = False, walk_pmm = s\<rparr> of
          Inl s \<Rightarrow> fallback_to_bootstrap kernel_start kernel_end s
        | Inr (valid_end, w) \<Rightarrow>
            if \<not> valid_end \<or> \<not> seen_mmap w
            then fallback_to_bootstrap kernel_start kernel_end (walk_pmm w)
            else
              let s = reserve_range kernel_start kernel_end (walk_pmm w);
                  s = (if info \<le> UINT64_MAX - ucast total_size
                       then reserve_range info (info + ucast total_size) s
                       else fallback_to_bootstrap kernel_start kernel_end s) in
              kpmm_reserve_range 0 SB_PAGE_SIZE s)"

declare mmap_loop.simps [simp del] tag_loop.simps [simp del]

section \<open>Which pages the block offers and which it protects\<close>

text \<open>
  A page is offered when it lies wholly inside an available memory-map entry, and protected when
  any byte of it belongs to an interval. Both are sets of page numbers of the 256 MiB the
  allocator manages.
\<close>

definition pages_inside :: "nat \<Rightarrow> nat \<Rightarrow> nat set" where
  "pages_inside a b = {i. i < PMM_MAX_PAGES \<and> a \<le> 4096 * i \<and> 4096 * (i + 1) \<le> b}"

definition pages_touching :: "nat \<Rightarrow> nat \<Rightarrow> nat set" where
  "pages_touching a b = {i. i < PMM_MAX_PAGES \<and> a < b \<and> a < 4096 * (i + 1) \<and> 4096 * i < b}"

definition entry_valid :: "memory \<Rightarrow> u64 \<Rightarrow> bool" where
  "entry_valid m e \<longleftrightarrow> entry_len m e \<noteq> 0 \<and> unat (entry_addr m e) + unat (entry_len m e) < 2 ^ 64"

definition entry_offered :: "memory \<Rightarrow> u64 \<Rightarrow> nat set" where
  "entry_offered m e =
     (if entry_valid m e \<and> entry_type m e = MULTIBOOT2_MMAP_TYPE_AVAILABLE
      then pages_inside (unat (entry_addr m e)) (unat (entry_addr m e) + unat (entry_len m e)) else {})"

definition entry_protected :: "memory \<Rightarrow> u64 \<Rightarrow> nat set" where
  "entry_protected m e =
     (if entry_valid m e \<and> entry_type m e \<noteq> MULTIBOOT2_MMAP_TYPE_AVAILABLE
      then pages_touching (unat (entry_addr m e)) (unat (entry_addr m e) + unat (entry_len m e)) else {})"

text \<open>The addresses of the entries of a memory-map tag from byte \<open>off\<close> on.\<close>

definition entries_from :: "memory \<Rightarrow> u64 \<Rightarrow> nat \<Rightarrow> u64 set" where
  "entries_from m mmap off =
     {mmap + of_nat (off + k * unat (entry_size m mmap)) |
        k. off + (k + 1) * unat (entry_size m mmap) \<le> unat (tag_size m mmap)}"

definition tag_offered :: "memory \<Rightarrow> u64 \<Rightarrow> nat set" where
  "tag_offered m t =
     (if tag_type m t = MULTIBOOT2_TAG_TYPE_MMAP then \<Union> (entry_offered m ` entries_from m t 16) else {})"

definition tag_protected :: "memory \<Rightarrow> u64 \<Rightarrow> nat set" where
  "tag_protected m t =
     (if tag_type m t = MULTIBOOT2_TAG_TYPE_MMAP then \<Union> (entry_protected m ` entries_from m t 16)
      else if tag_type m t = MULTIBOOT2_TAG_TYPE_MODULE
      then pages_touching (unat (mod_start m t)) (unat (mod_end m t)) else {})"

text \<open>The tags of the block: from one to the next, eight-byte aligned, up to the end tag.\<close>

inductive tag_chain :: "memory \<Rightarrow> u64 \<Rightarrow> u32 \<Rightarrow> u32 \<Rightarrow> bool" for m info where
  here: "tag_chain m info offset offset"
| step: "tag_type m (info + ucast offset) \<noteq> MULTIBOOT2_TAG_TYPE_END \<Longrightarrow>
    tag_chain m info (offset + ((tag_size m (info + ucast offset) + 7) AND NOT 7)) target \<Longrightarrow>
    tag_chain m info offset target"

definition tags_from :: "memory \<Rightarrow> u64 \<Rightarrow> u32 \<Rightarrow> u64 set" where
  "tags_from m info offset = {info + ucast t | t. tag_chain m info offset t}"

lemma tags_from_unfold:
  "tags_from m info offset = insert (info + ucast offset)
     (if tag_type m (info + ucast offset) = MULTIBOOT2_TAG_TYPE_END then {}
      else tags_from m info (offset + ((tag_size m (info + ucast offset) + 7) AND NOT 7)))"
  unfolding tags_from_def by (subst tag_chain.simps) auto

section \<open>The allocator after a sequence of offers and reservations\<close>

definition extends :: "nat set \<Rightarrow> nat set \<Rightarrow> pmm \<Rightarrow> pmm \<Rightarrow> bool" where
  "extends U R s t \<longleftrightarrow>
     pmm_inv PMM_MAX_PAGES t \<and> allocated_set PMM_MAX_PAGES t = allocated_set PMM_MAX_PAGES s \<and>
     reserved_set PMM_MAX_PAGES t = reserved_set PMM_MAX_PAGES s \<union> R \<and>
     free_set PMM_MAX_PAGES t = (free_set PMM_MAX_PAGES s \<union> U) - (reserved_set PMM_MAX_PAGES s \<union> R)"

definition boot_inv :: "pmm \<Rightarrow> bool" where
  "boot_inv s \<longleftrightarrow> pmm_inv PMM_MAX_PAGES s \<and> allocated_set PMM_MAX_PAGES s = {}"

lemma extends_refl: "boot_inv s \<Longrightarrow> extends {} {} s s"
  by (auto simp: extends_def boot_inv_def pmm_inv_def)

lemma extends_trans:
  "extends U R s t \<Longrightarrow> extends V Q t u \<Longrightarrow> extends (U \<union> V) (R \<union> Q) s u"
  unfolding extends_def by auto

lemma extends_boot: "extends U R s t \<Longrightarrow> boot_inv s \<Longrightarrow> boot_inv t"
  by (simp add: extends_def boot_inv_def)

lemma range_op_extends:
  assumes "boot_inv s"
  shows "extends (range_pages PMM_MAX_PAGES a b) {} s (kpmm_add_usable_range a b s)"
    and "extends {} (range_pages PMM_MAX_PAGES a b) s (kpmm_reserve_range a b s)"
  using assms range_op [OF kpmm_size, of s a b True] range_op [OF kpmm_size, of s a b False]
  by (auto simp: extends_def boot_inv_def pmm_abs_sets kpmm_add_usable_range_def kpmm_reserve_range_def
      kpmm_recompute_free_count_def kpmm_set_range_bits_def spec_release_def spec_reserve_def)
     (auto simp: pmm_abs_def pmm_inv_def)

lemma unat_limit [simp]: "unat SB_PMM_BOOTSTRAP_LIMIT = 4096 * 65536"
  by (simp add: SB_PMM_BOOTSTRAP_LIMIT_def)

lemma unat_align_down: "unat (align_down a) = unat a div 4096 * 4096"
  using unat_page_of [of a] by (simp add: align_down_def page_of_def)

lemma unat_align_up:
  assumes "unat a \<le> 4096 * 65536"
  shows "unat (align_up a) = (unat a + 4095) div 4096 * 4096"
proof -
  have "\<not> UINT64_MAX - (SB_PAGE_SIZE - 1) < a"
    using assms by (simp add: UINT64_MAX_def SB_PAGE_SIZE_def word_less_nat_alt)
  moreover have "unat (a + SB_PAGE_SIZE - 1) = unat a + 4095"
    using assms unat_add_small [of 4095 a] by (simp add: SB_PAGE_SIZE_def)
  ultimately show ?thesis
    using unat_align_down [of "a + SB_PAGE_SIZE - 1"] by (simp add: align_up_def align_down_def)
qed

lemma round_down_le: "a div 4096 * 4096 \<le> 4096 * i \<longleftrightarrow> a < 4096 * (i + 1)" for a i :: nat
  using div_less_iff_less_mult [of 4096 a "i + 1"] by auto

lemma round_down_inside: "4096 * (i + 1) \<le> b div 4096 * 4096 \<longleftrightarrow> 4096 * (i + 1) \<le> b" for b i :: nat
  using less_eq_div_iff_mult_less_eq [of 4096 "i + 1" b] by auto

lemma round_up_le: "4096 * (i + 1) \<le> (b + 4095) div 4096 * 4096 \<longleftrightarrow> 4096 * i < b" for b i :: nat
  unfolding round_down_inside by auto

lemma round_up_inside: "(a + 4095) div 4096 * 4096 \<le> 4096 * i \<longleftrightarrow> a \<le> 4096 * i" for a i :: nat
  unfolding round_down_le by auto

lemma le_round_up: "b \<le> (b + 4095) div 4096 * 4096" for b :: nat
  using div_mult_mod_eq [of "b + 4095" 4096] mod_less_divisor [of 4096 "b + 4095"] by linarith

lemma reserve_range_extends:
  assumes "boot_inv s"
  shows "extends {} (pages_touching (unat start) (unat end)) s (reserve_range start end s)"
proof (cases "end \<le> start \<or> start \<ge> SB_PMM_BOOTSTRAP_LIMIT")
  case True
  then have "pages_touching (unat start) (unat end) = {}"
    by (auto simp: pages_touching_def PMM_MAX_PAGES_eq word_le_nat_alt)
  with True assms show ?thesis by (auto simp: reserve_range_def extends_refl)
next
  case False
  define e where "e = (if end > SB_PMM_BOOTSTRAP_LIMIT then SB_PMM_BOOTSTRAP_LIMIT else end)"
  have lt: "unat start < unat end" "unat start < 4096 * 65536"
    using False by (auto simp: word_le_nat_alt)
  have e: "unat e = min (unat end) (4096 * 65536)"
    by (auto simp: e_def word_less_nat_alt)
  have pages: "range_pages PMM_MAX_PAGES (align_down start) (align_up e) =
      pages_touching (unat start) (unat end)"
    unfolding range_pages_def pages_touching_def unat_align_down
      unat_align_up [OF eq_refl [THEN order_trans, OF e min.cobounded2]] round_down_le round_up_le
    using lt by (auto simp: e PMM_MAX_PAGES_eq)
  have "unat (align_down start) < unat (align_up e)"
    using lt div_times_less_eq_dividend [of "unat start" 4096] le_round_up [of "unat e"]
    by (simp add: unat_align_down unat_align_up e)
  then have "reserve_range start end s = kpmm_reserve_range (align_down start) (align_up e) s"
    using False unfolding reserve_range_def Let_def e_def [symmetric]
    by (simp add: word_less_nat_alt word_le_nat_alt)
  then show ?thesis using range_op_extends(2) [OF assms] pages by metis
qed

lemma entry_valid_iff:
  "entry_valid m e \<longleftrightarrow> entry_len m e \<noteq> 0 \<and> entry_len m e \<le> UINT64_MAX - entry_addr m e"
proof -
  have "unat (UINT64_MAX - entry_addr m e) = 2 ^ 64 - 1 - unat (entry_addr m e)"
    using unat_sub [of "entry_addr m e" UINT64_MAX] unat_u64_less [of "entry_addr m e"]
    by (simp add: unat_UINT64_MAX word_le_nat_alt)
  then show ?thesis
    using unat_u64_less [of "entry_addr m e"] by (auto simp: entry_valid_def word_le_nat_alt)
qed

lemma mmap_entry_extends:
  assumes "boot_inv s"
  shows "extends (entry_offered m e) (entry_protected m e) s (mmap_entry m e s)"
proof (cases "entry_valid m e")
  case False
  with assms show ?thesis
    by (auto simp: mmap_entry_def entry_offered_def entry_protected_def extends_refl entry_valid_iff [symmetric])
next
  case True
  let ?a = "unat (entry_addr m e)" and ?b = "unat (entry_addr m e) + unat (entry_len m e)"
  have en: "unat (entry_addr m e + entry_len m e) = ?b"
    using True by (intro unat_add_small) (simp add: entry_valid_def)
  show ?thesis
  proof (cases "entry_type m e = MULTIBOOT2_MMAP_TYPE_AVAILABLE")
    case False
    with True reserve_range_extends [OF assms, of "entry_addr m e" "entry_addr m e + entry_len m e"]
    show ?thesis
      by (simp add: mmap_entry_def entry_offered_def entry_protected_def en entry_valid_iff [symmetric])
  next
    case avail: True
    define u where "u = align_down (if entry_addr m e + entry_len m e > SB_PMM_BOOTSTRAP_LIMIT
      then SB_PMM_BOOTSTRAP_LIMIT else entry_addr m e + entry_len m e)"
    have u: "unat u = min ?b (4096 * 65536) div 4096 * 4096"
      by (auto simp: u_def unat_align_down en word_less_nat_alt min_def)
    have inside: "pages_inside ?a ?b = {i. i < 65536 \<and> ?a \<le> 4096 * i \<and> 4096 * (i + 1) \<le> unat u}"
      unfolding u round_down_inside by (auto simp: pages_inside_def PMM_MAX_PAGES_eq)
    show ?thesis
    proof (cases "?a < 4096 * 65536 \<and> ?a < unat u")
      case True
      have "range_pages PMM_MAX_PAGES (align_up (entry_addr m e)) u = pages_inside ?a ?b"
        using True unfolding inside range_pages_def
        by (subst unat_align_up) (auto simp: round_up_inside PMM_MAX_PAGES_eq)
      moreover have "mmap_entry m e s = kpmm_add_usable_range (align_up (entry_addr m e)) u s"
        using True avail \<open>entry_valid m e\<close>
        unfolding mmap_entry_def Let_def u_def [symmetric] entry_valid_iff [symmetric]
        by (simp add: word_less_nat_alt)
      ultimately show ?thesis
        using range_op_extends(1) [OF assms, of "align_up (entry_addr m e)" u] avail \<open>entry_valid m e\<close>
        by (simp add: entry_offered_def entry_protected_def)
    next
      case False
      then have "pages_inside ?a ?b = {}" unfolding inside by auto
      moreover have "mmap_entry m e s = s"
        using False avail \<open>entry_valid m e\<close>
        unfolding mmap_entry_def Let_def u_def [symmetric] entry_valid_iff [symmetric]
        by (auto simp: word_less_nat_alt)
      ultimately show ?thesis
        using avail assms by (simp add: entry_offered_def entry_protected_def extends_refl)
    qed
  qed
qed

section \<open>The loops\<close>

lemma collect_nat_split:
  "{f k | k :: nat. Q k} = (if Q 0 then {f 0} else {}) \<union> {f (Suc k) | k. Q (Suc k)}"
  by (auto, metis not0_implies_Suc, metis not0_implies_Suc)

lemma entries_from_unfold:
  assumes "0 < unat (entry_size m mmap)"
  shows "entries_from m mmap off =
    (if off + unat (entry_size m mmap) \<le> unat (tag_size m mmap)
     then insert (mmap + of_nat off) (entries_from m mmap (off + unat (entry_size m mmap))) else {})"
proof -
  let ?e = "unat (entry_size m mmap)" and ?n = "unat (tag_size m mmap)"
  have tail: "entries_from m mmap (off + ?e) =
      {mmap + of_nat (off + Suc k * ?e) | k. off + (Suc k + 1) * ?e \<le> ?n}"
    by (simp add: entries_from_def algebra_simps)
  have "entries_from m mmap off =
      (if off + ?e \<le> ?n then {mmap + of_nat off} else {}) \<union> entries_from m mmap (off + ?e)"
    unfolding tail entries_from_def [of m mmap off]
    using collect_nat_split [of "\<lambda>k. mmap + of_nat (off + k * ?e)" "\<lambda>k. off + (k + 1) * ?e \<le> ?n"]
    by (simp only: mult_0 add_0 mult_1 add_0_right)
  moreover have "entries_from m mmap (off + ?e) = {}" if "\<not> off + ?e \<le> ?n"
    using that unfolding tail by auto
  ultimately show ?thesis by auto
qed

lemma mmap_loop_extends:
  assumes "mmap_loop m mmap off seen s = Inr (seen', t)" "boot_inv s"
    and "24 \<le> entry_size m mmap" "entry_size m mmap \<le> tag_size m mmap"
  shows "extends (\<Union> (entry_offered m ` entries_from m mmap (unat off)))
    (\<Union> (entry_protected m ` entries_from m mmap (unat off))) s t"
  using assms
proof (induction m mmap off seen s rule: mmap_loop.induct)
  case (1 m mmap off seen s)
  let ?e = "entry_size m mmap" and ?n = "tag_size m mmap"
  have e: "24 \<le> unat ?e" "unat ?e \<le> unat ?n" using "1.prems"(3,4) by (simp_all add: word_le_nat_alt)
  have cond: "off \<le> ?n - ?e \<longleftrightarrow> unat off + unat ?e \<le> unat ?n"
    using e by (auto simp: word_le_nat_alt unat_sub)
  have unfold: "entries_from m mmap (unat off) =
    (if unat off + unat ?e \<le> unat ?n
     then insert (mmap + ucast off) (entries_from m mmap (unat off + unat ?e)) else {})"
    using entries_from_unfold [of m mmap "unat off"] e by simp
  show ?case
  proof (cases "off \<le> ?n - ?e")
    case False
    with "1.prems" cond show ?thesis
      by (simp add: mmap_loop.simps [of m mmap off] unfold extends_refl)
  next
    case True
    then have sum: "unat (off + ?e) = unat off + unat ?e"
      using cond unat_u32_less [of ?n] by (intro unat_add_small) simp
    let ?s = "mmap_entry m (mmap + ucast off) s"
    have step: "extends (entry_offered m (mmap + ucast off)) (entry_protected m (mmap + ucast off)) s ?s"
      by (rule mmap_entry_extends) fact
    have seen: "\<not> SB_MB2_MAX_MMAP_ENTRIES \<le> seen"
      using "1.prems"(1) True by (auto simp: mmap_loop.simps [of m mmap off])
    have "mmap_loop m mmap (off + ?e) (seen + 1) ?s = Inr (seen', t)"
      using "1.prems"(1) True seen by (simp add: mmap_loop.simps [of m mmap off])
    from "1.IH" [OF True seen this extends_boot [OF step "1.prems"(2)] "1.prems"(3,4)]
    have "extends (\<Union> (entry_offered m ` entries_from m mmap (unat off + unat ?e)))
      (\<Union> (entry_protected m ` entries_from m mmap (unat off + unat ?e))) ?s t"
      by (simp add: sum)
    from extends_trans [OF step this] show ?thesis
      using True cond by (simp add: unfold)
  qed
qed

lemma tag_body_extends:
  assumes "tag_body m tag w = Inr w'" "boot_inv (walk_pmm w)"
  shows "extends (tag_offered m tag) (tag_protected m tag) (walk_pmm w) (walk_pmm w')"
proof (cases "tag_type m tag = MULTIBOOT2_TAG_TYPE_MMAP")
  case True
  then have ne: "tag_type m tag \<noteq> MULTIBOOT2_TAG_TYPE_MODULE"
    by (simp add: MULTIBOOT2_TAG_TYPE_MMAP_def MULTIBOOT2_TAG_TYPE_MODULE_def)
  from assms(1) True ne obtain seen s where
    sizes: "\<not> tag_size m tag < 16" "\<not> entry_size m tag < 24" "\<not> entry_size m tag > tag_size m tag - 16"
    and loop: "mmap_loop m tag 16 (mmap_entries_seen w) (walk_pmm w) = Inr (seen, s)" "walk_pmm w' = s"
    by (auto simp: tag_body_def split: if_splits sum.splits)
  have "unat (entry_size m tag) \<le> unat (tag_size m tag - 16)" "16 \<le> unat (tag_size m tag)"
    using sizes by (simp_all add: not_less word_le_nat_alt)
  then have "entry_size m tag \<le> tag_size m tag"
    using unat_sub [of 16 "tag_size m tag"] by (simp add: word_le_nat_alt)
  from mmap_loop_extends [OF loop(1) assms(2) _ this] show ?thesis
    using True sizes loop(2) by (simp add: tag_offered_def tag_protected_def)
next
  case False
  then show ?thesis
    using assms reserve_range_extends [OF assms(2), of "ucast (mod_start m tag)" "ucast (mod_end m tag)"]
    by (auto simp: tag_body_def tag_offered_def tag_protected_def extends_refl
        split: if_splits)
qed

lemma tag_loop_extends:
  assumes "tag_loop m info tsz offset seen w = Inr (True, w')" "boot_inv (walk_pmm w)"
  shows "extends (\<Union> (tag_offered m ` tags_from m info offset))
    (\<Union> (tag_protected m ` tags_from m info offset)) (walk_pmm w) (walk_pmm w')"
  using assms
proof (induction m info tsz offset seen w rule: tag_loop.induct)
  case (1 m info tsz offset seen w)
  let ?tag = "info + ucast offset" and ?next = "(tag_size m (info + ucast offset) + 7) AND NOT 7"
  have cond: "offset \<le> tsz - 8 \<and> seen < SB_MB2_MAX_TAGS"
    and size: "\<not> (tag_size m ?tag < 8 \<or> tag_size m ?tag > tsz - offset)"
    using "1.prems"(1) by (auto simp: tag_loop.simps [of m info tsz offset] Let_def split: if_splits)
  show ?case
  proof (cases "tag_type m ?tag = MULTIBOOT2_TAG_TYPE_END")
    case True
    then have "tags_from m info offset = {?tag}" by (subst tags_from_unfold) simp
    moreover have "w' = w"
      using "1.prems"(1) cond size True by (simp add: tag_loop.simps [of m info tsz offset] Let_def)
    ultimately show ?thesis
      using True "1.prems"(2) by (simp add: tag_offered_def tag_protected_def extends_refl
          MULTIBOOT2_TAG_TYPE_END_def MULTIBOOT2_TAG_TYPE_MMAP_def MULTIBOOT2_TAG_TYPE_MODULE_def)
  next
    case False
    then obtain v where body: "tag_body m ?tag w = Inr v"
      and nxt: "\<not> (?next < tag_size m ?tag \<or> ?next > tsz - offset)"
      and loop: "tag_loop m info tsz (offset + ?next) (seen + 1) v = Inr (True, w')"
      using "1.prems"(1) cond size
      by (auto simp: tag_loop.simps [of m info tsz offset] Let_def split: if_splits sum.splits)
    note step = tag_body_extends [OF body "1.prems"(2)]
    have "extends (\<Union> (tag_offered m ` tags_from m info (offset + ?next)))
      (\<Union> (tag_protected m ` tags_from m info (offset + ?next))) (walk_pmm v) (walk_pmm w')"
      by (rule "1.IH" [OF cond refl size False body refl nxt loop extends_boot [OF step "1.prems"(2)]])
    from extends_trans [OF step this] show ?thesis
      using False by (subst (1 2) tags_from_unfold) simp
  qed
qed

section \<open>The state at the end of boot\<close>

lemma kpmm_reset_const: "kpmm_reset s = kpmm_reset t"
  by (simp add: kpmm_reset_def pmm_reset_def)

lemma kpmm_reset_sets:
  "boot_inv (kpmm_reset s)" "free_set PMM_MAX_PAGES (kpmm_reset s) = {}"
  "reserved_set PMM_MAX_PAGES (kpmm_reset s) = {}"
  using pmm_reset_inv [of PMM_MAX_PAGES s] pmm_reset_abs [of PMM_MAX_PAGES s]
  by (auto simp: boot_inv_def kpmm_reset_def pmm_abs_def spec_reset_def)

lemma fallback_const: "fallback_to_bootstrap ks ke s = fallback_to_bootstrap ks ke t"
  by (simp add: fallback_to_bootstrap_def kpmm_init_def kpmm_reset_const [of s t])

lemma range_pages_inside: "range_pages PMM_MAX_PAGES a b = pages_inside (unat a) (unat b)"
  by (simp add: range_pages_def pages_inside_def)

lemma page_zero_inside: "pages_inside 0 4096 = {0}"
  by (auto simp: pages_inside_def PMM_MAX_PAGES_eq)

lemma reserve_page_zero:
  "boot_inv s \<Longrightarrow> extends {} {0} s (kpmm_reserve_range 0 SB_PAGE_SIZE s)"
  using range_op_extends(2) [of s 0 SB_PAGE_SIZE] by (simp add: range_pages_inside page_zero_inside)

lemma fallback_extends:
  "extends (pages_inside 0x01000000 0x04000000) (pages_inside (unat ks) (unat ke) \<union> {0})
     (kpmm_reset s) (fallback_to_bootstrap ks ke s)"
proof -
  note r = kpmm_reset_sets(1) [of s]
  have e1: "extends (pages_inside 0x01000000 0x04000000) {} (kpmm_reset s) (kpmm_init 0x01000000 0x04000000 s)"
    using range_op_extends(1) [OF r, of "0x01000000" "0x04000000"]
    by (simp add: kpmm_init_def kpmm_add_usable_range_def range_pages_inside)
  note e2 = range_op_extends(2) [OF extends_boot [OF e1 r], of ks ke]
  note e3 = reserve_page_zero [OF extends_boot [OF e2 extends_boot [OF e1 r]]]
  show ?thesis
    using extends_trans [OF extends_trans [OF e1 e2] e3]
    by (simp add: fallback_to_bootstrap_def range_pages_inside Un_commute)
qed

text \<open>
  A block is accepted when its header is plausible and the walk over its tags ends at a proper
  end tag after a memory map. The walk does not depend on the allocator it started from, because
  the reset overwrites all of it.
\<close>

definition walk_start :: walk where
  "walk_start = \<lparr>mmap_entries_seen = 0, modules_seen = 0, seen_mmap = False,
     walk_pmm = kpmm_reserve_range 0 SB_PAGE_SIZE (kpmm_reset (pmm_static PMM_MAX_PAGES))\<rparr>"

definition block_accepted :: "memory \<Rightarrow> u64 \<Rightarrow> bool" where
  "block_accepted m info \<longleftrightarrow>
     info \<noteq> 0 \<and> info < 0x40000000 \<and>
     load32 m info \<ge> 16 \<and> load32 m info \<le> SB_MB2_MAX_INFO_SIZE \<and> load32 m info AND 7 = 0 \<and>
     (case tag_loop m info (load32 m info) 8 0 walk_start of
        Inl s \<Rightarrow> False | Inr (valid_end, w) \<Rightarrow> valid_end \<and> seen_mmap w)"

definition block_offered :: "memory \<Rightarrow> u64 \<Rightarrow> nat set" where
  "block_offered m info = \<Union> (tag_offered m ` tags_from m info 8)"

definition boot_protected :: "memory \<Rightarrow> u64 \<Rightarrow> u64 \<Rightarrow> u64 \<Rightarrow> nat set" where
  "boot_protected m kernel_start kernel_end info =
     insert 0 (\<Union> (tag_protected m ` tags_from m info 8) \<union>
       pages_touching (unat kernel_start) (unat kernel_end) \<union>
       pages_touching (unat info) (unat info + unat (load32 m info)))"

lemma info_end:
  assumes "info < 0x40000000" "n \<le> SB_MB2_MAX_INFO_SIZE"
  shows "unat (info + ucast n) = unat info + unat n" and "\<not> ucast n > UINT64_MAX - info"
    and "info \<le> UINT64_MAX - ucast n"
proof -
  have b: "unat info < 0x40000000" "unat n \<le> 65536"
    using assms by (simp_all add: word_less_nat_alt word_le_nat_alt SB_MB2_MAX_INFO_SIZE_def)
  then show "unat (info + ucast n) = unat info + unat n" by (simp add: unat_add_small)
  have "unat (UINT64_MAX - info) = 2 ^ 64 - 1 - unat info"
    using b unat_sub [of info UINT64_MAX] by (simp add: unat_UINT64_MAX word_le_nat_alt)
  moreover have "unat (UINT64_MAX - ucast n) = 2 ^ 64 - 1 - unat n"
    using b unat_sub [of "ucast n" UINT64_MAX] by (simp add: unat_UINT64_MAX word_le_nat_alt)
  ultimately show "\<not> ucast n > UINT64_MAX - info" "info \<le> UINT64_MAX - ucast n"
    using b by (simp_all add: word_less_nat_alt word_le_nat_alt)
qed

lemma init_accepted:
  assumes "block_accepted m info"
  obtains w where "tag_loop m info (load32 m info) 8 0 walk_start = Inr (True, w)"
    and "pmm_init_from_multiboot m ks ke info s =
      kpmm_reserve_range 0 SB_PAGE_SIZE
        (reserve_range info (info + ucast (load32 m info)) (reserve_range ks ke (walk_pmm w)))"
proof -
  from assms obtain w where w: "tag_loop m info (load32 m info) 8 0 walk_start = Inr (True, w)" "seen_mmap w"
    by (auto simp: block_accepted_def split: sum.splits)
  moreover have b: "info < 0x40000000" "load32 m info \<le> SB_MB2_MAX_INFO_SIZE"
    using assms by (simp_all add: block_accepted_def)
  ultimately show ?thesis
    using that assms info_end [OF b]
    by (auto simp: pmm_init_from_multiboot_def block_accepted_def Let_def walk_start_def
        kpmm_reset_const [of s "pmm_static PMM_MAX_PAGES"] not_less)
qed

lemma init_rejected:
  assumes "\<not> block_accepted m info"
  shows "pmm_init_from_multiboot m ks ke info s = fallback_to_bootstrap ks ke s"
  using assms
  by (auto simp: pmm_init_from_multiboot_def block_accepted_def Let_def walk_start_def not_less not_le
      kpmm_reset_const [of s "pmm_static PMM_MAX_PAGES"] intro: fallback_const split: sum.splits)

lemma init_accepted_extends:
  assumes "block_accepted m info"
  shows "extends (block_offered m info) (boot_protected m ks ke info)
    (kpmm_reset s) (pmm_init_from_multiboot m ks ke info s)"
proof -
  obtain w where w: "tag_loop m info (load32 m info) 8 0 walk_start = Inr (True, w)"
    and t: "pmm_init_from_multiboot m ks ke info s =
      kpmm_reserve_range 0 SB_PAGE_SIZE
        (reserve_range info (info + ucast (load32 m info)) (reserve_range ks ke (walk_pmm w)))"
    using init_accepted [OF assms] by blast
  note r = kpmm_reset_sets(1) [of s]
  have e0: "extends {} {0} (kpmm_reset s) (walk_pmm walk_start)"
    using reserve_page_zero [OF r] by (simp add: walk_start_def kpmm_reset_const [of s "pmm_static PMM_MAX_PAGES"])
  note b0 = extends_boot [OF e0 r]
  note e1 = tag_loop_extends [OF w b0]
  note b1 = extends_boot [OF e1 b0]
  note e2 = reserve_range_extends [OF b1, of ks ke]
  note b2 = extends_boot [OF e2 b1]
  note e3 = reserve_range_extends [OF b2, of info "info + ucast (load32 m info)"]
  note e4 = reserve_page_zero [OF extends_boot [OF e3 b2]]
  have "unat (info + ucast (load32 m info)) = unat info + unat (load32 m info)"
    using assms by (intro info_end) (simp_all add: block_accepted_def)
  then show ?thesis
    using extends_trans [OF extends_trans [OF extends_trans [OF extends_trans [OF e0 e1] e2] e3] e4]
    by (simp add: t block_offered_def boot_protected_def insert_commute Un_assoc)
qed

section \<open>Property\<close>


text \<open>A block of 56 bytes at \<open>0x9000\<close>: a memory map with the entry 1 MiB to 3 MiB, and the end tag.\<close>

definition sample_block :: "u8 list" where
  "sample_block = [56,0,0,0, 0,0,0,0,
     6,0,0,0, 40,0,0,0, 24,0,0,0, 0,0,0,0,
     0,0,16,0,0,0,0,0, 0,0,32,0,0,0,0,0, 1,0,0,0, 0,0,0,0,
     0,0,0,0, 8,0,0,0]"

lemma sample_loads:
  defines "m \<equiv> bytes_at 0x9000 sample_block"
  shows "load32 m 0x9000 = 56" "load32 m 0x9008 = 6" "load32 m 0x900C = 40" "load32 m 0x9010 = 24"
    "load64 m 0x9018 = 0x100000" "load64 m 0x9020 = 0x200000" "load32 m 0x9028 = 1"
    "load32 m 0x9030 = 0" "load32 m 0x9034 = 8"
  by (simp_all add: m_def bytes_at_def sample_block_def load32_bytes load64_bytes)

lemmas sample_fields = sample_loads tag_type_def tag_size_def entry_size_def entry_addr_def entry_len_def
  entry_type_def MULTIBOOT2_TAG_TYPE_END_def MULTIBOOT2_TAG_TYPE_MMAP_def MULTIBOOT2_TAG_TYPE_MODULE_def
  MULTIBOOT2_MMAP_TYPE_AVAILABLE_def

lemma sample_accepted: "block_accepted (bytes_at 0x9000 sample_block) 0x9000"
  by (simp add: block_accepted_def sample_fields SB_MB2_MAX_INFO_SIZE_def tag_loop.simps mmap_loop.simps
      SB_MB2_MAX_TAGS_def SB_MB2_MAX_MMAP_ENTRIES_def walk_start_def tag_body_def Let_def)

lemma sample_tags: "tags_from (bytes_at 0x9000 sample_block) 0x9000 8 = {0x9008, 0x9030}"
  by (subst tags_from_unfold, subst tags_from_unfold) (simp add: sample_fields)

lemma sample_entries: "entries_from (bytes_at 0x9000 sample_block) 0x9008 16 = {0x9018}"
  by (subst entries_from_unfold, simp add: sample_fields, subst entries_from_unfold)
    (simp_all add: sample_fields)


end
