(* ===== verification/Heap.thy ===== *)
theory Heap
  imports Pmm_Refine
begin

text \<open>
  The kernel heap, \<^verbatim>\<open>kernel/mm/heap.c\<close>: one live allocation of at most a page, taken from
  the page allocator. The state is the five static variables and the allocator behind them. The
  progress messages on the debug port are not part of the model.
\<close>

section \<open>State and operations\<close>

record heap =
  active_base :: u64
  active_pages :: u64
  active_requested :: u64
  used_bytes :: u64
  initialized :: bool

definition heap_static :: heap where
  "heap_static = \<lparr>active_base = 0, active_pages = 0, active_requested = 0, used_bytes = 0, initialized = False\<rparr>"

definition round_up_pages :: "u64 \<Rightarrow> u64" where
  "round_up_pages sz = (sz + SB_PAGE_SIZE - 1) div SB_PAGE_SIZE"

definition kheap_init :: "heap \<Rightarrow> heap" where
  "kheap_init h = h\<lparr>active_base := 0, active_pages := 0, active_requested := 0, used_bytes := 0, initialized := True\<rparr>"

definition kheap_alloc :: "u64 \<Rightarrow> heap \<Rightarrow> pmm \<Rightarrow> u64 \<times> heap \<times> pmm" where
  "kheap_alloc sz h p =
     (if \<not> initialized h \<or> sz = 0 \<or> active_base h \<noteq> 0 then (0, h, p)
      else
        let pages = round_up_pages sz in
        if pages \<noteq> 1 then (0, h, p)
        else
          let (first, p) = kpmm_alloc_page p in
          if first = 0 then (0, h, p)
          else (first, h\<lparr>active_base := first, active_pages := 1, active_requested := sz, used_bytes := sz\<rparr>, p))"

definition kheap_free :: "u64 \<Rightarrow> heap \<Rightarrow> pmm \<Rightarrow> heap \<times> pmm" where
  "kheap_free ptr h p =
     (if \<not> initialized h \<or> ptr = 0 \<or> ptr \<noteq> active_base h then (h, p)
      else (h\<lparr>active_base := 0, active_pages := 0, active_requested := 0, used_bytes := 0\<rparr>,
            kpmm_free_page (active_base h) p))"

definition kheap_used :: "heap \<Rightarrow> u64" where
  "kheap_used h = used_bytes h"

definition kheap_capacity :: u64 where
  "kheap_capacity = SB_PAGE_SIZE"

section \<open>Facts\<close>

lemma round_up_pages_one: "sz \<noteq> 0 \<Longrightarrow> round_up_pages sz = 1 \<longleftrightarrow> sz \<le> SB_PAGE_SIZE"
proof -
  assume nz: "sz \<noteq> 0"
  have e: "sz + SB_PAGE_SIZE - 1 = sz + 4095" by (simp add: SB_PAGE_SIZE_def)
  have "round_up_pages sz = 1 \<longleftrightarrow> unat (sz + 4095) div 4096 = 1"
    by (simp add: round_up_pages_def e word_unat_eq_iff unat_div)
  also have "\<dots> \<longleftrightarrow> unat sz \<le> 4096"
  proof (cases "unat sz + 4095 < 2 ^ 64")
    case True
    then have "unat (sz + 4095) = unat sz + 4095" by (simp add: unat_add_small)
    moreover have "0 < unat sz" using nz by (simp add: unat_gt_0)
    ultimately show ?thesis
      using div_less_iff_less_mult [of 4096 "unat sz + 4095" 2] less_eq_div_iff_mult_less_eq [of 4096 1 "unat sz + 4095"]
      by auto
  next
    case False
    then have "unat (sz + 4095) < 4095"
      using unat_u64_less [of sz] by (simp add: unat_word_ariths mod_if) linarith
    with False show ?thesis by simp
  qed
  finally show ?thesis by (simp add: word_le_nat_alt)
qed

text \<open>The heap's invariant, relative to the pages \<open>base\<close> that were live before it started.\<close>

definition heap_inv :: "u64 set \<Rightarrow> heap \<Rightarrow> pmm \<Rightarrow> bool" where
  "heap_inv base h p \<longleftrightarrow>
     kpmm_ok p \<and> initialized h \<and>
     (if active_base h = 0
      then kpmm_owned p = base \<and> active_pages h = 0 \<and> active_requested h = 0 \<and> used_bytes h = 0
      else kpmm_owned p = insert (active_base h) base \<and> active_base h \<notin> base \<and> active_pages h = 1 \<and>
           used_bytes h = active_requested h \<and> used_bytes h \<noteq> 0 \<and> used_bytes h \<le> kheap_capacity)"

datatype heap_op = HAlloc u64 | HFree u64

fun heap_exec :: "heap_op \<Rightarrow> heap \<times> pmm \<Rightarrow> heap \<times> pmm" where
  "heap_exec (HAlloc sz) (h, p) = snd (kheap_alloc sz h p)"
| "heap_exec (HFree ptr) (h, p) = kheap_free ptr h p"

lemma kheap_alloc_cases:
  assumes "heap_inv base h p"
  shows "kheap_alloc sz h p =
    (if sz \<noteq> 0 \<and> sz \<le> kheap_capacity \<and> active_base h = 0 \<and> kpmm_avail p \<noteq> {}
     then (fst (kpmm_alloc_page p),
           h\<lparr>active_base := fst (kpmm_alloc_page p), active_pages := 1, active_requested := sz, used_bytes := sz\<rparr>,
           snd (kpmm_alloc_page p))
     else (0, h, p))"
proof -
  obtain a q where aq: "kpmm_alloc_page p = (a, q)" by fastforce
  have ok: "kpmm_ok p" "initialized h" using assms by (simp_all add: heap_inv_def)
  show ?thesis
    using ok kp.alloc_null [OF ok(1) aq] kp.alloc_null_state [OF ok(1), of q]
    by (auto simp: kheap_alloc_def aq round_up_pages_one kheap_capacity_def)
qed

lemma heap_exec_inv: "heap_inv base h p \<Longrightarrow> case heap_exec opn (h, p) of (h', p') \<Rightarrow> heap_inv base h' p'"
proof (cases opn)
  case (HAlloc sz)
  assume inv: "heap_inv base h p"
  then have ok: "kpmm_ok p" by (simp add: heap_inv_def)
  obtain a q where aq: "kpmm_alloc_page p = (a, q)" by fastforce
  show ?thesis
  proof (cases "sz \<noteq> 0 \<and> sz \<le> kheap_capacity \<and> active_base h = 0 \<and> kpmm_avail p \<noteq> {}")
    case True
    then have "a \<noteq> 0" using kp.alloc_null [OF ok aq] by simp
    from kp.alloc_nonnull [OF ok aq this] True inv \<open>a \<noteq> 0\<close> HAlloc show ?thesis
      by (simp add: kheap_alloc_cases [OF inv] aq heap_inv_def)
  qed (use inv HAlloc in \<open>auto simp: kheap_alloc_cases [OF inv]\<close>)
next
  case (HFree ptr)
  assume inv: "heap_inv base h p"
  then have "kpmm_ok p" by (simp add: heap_inv_def)
  with inv HFree show ?thesis
    using kp.release_ok [of p "active_base h"] kp.release_owned [of p "active_base h"]
    by (auto simp: kheap_free_def heap_inv_def split: if_splits)
qed

lemma heap_run_inv:
  "heap_inv base h p \<Longrightarrow> case fold heap_exec ops (h, p) of (h', p') \<Rightarrow> heap_inv base h' p'"
proof (induction ops arbitrary: h p)
  case (Cons opn ops)
  then show ?case
    using heap_exec_inv [OF Cons.prems, of opn] by (cases "heap_exec opn (h, p)") simp
qed simp

lemma kheap_init_inv: "kpmm_ok p \<Longrightarrow> heap_inv (kpmm_owned p) (kheap_init h) p"
  by (simp add: heap_inv_def kheap_init_def)

section \<open>Property\<close>



end
