(* ===== verification/Page_Tables.thy ===== *)
theory Page_Tables
  imports Pmm_Refine
begin

text \<open>
  Four-level x86-64 page tables in physical memory, as \<^verbatim>\<open>kernel/mm/vmm.c\<close> and
  \<^verbatim>\<open>kernel/mm/address_space.c\<close> walk and extend them. Both files hold the same static
  helpers; they are modelled here once. The kernel reaches physical memory through its identity
  mapping, so a table pointer is a physical address. Memory is byte-addressed, and the
  \<open>i\<close>-th entry of a table is the 64-bit load at eight times \<open>i\<close>.

  The second half is the invariant of a table tree below one root slot and what \<open>ensure_table\<close>
  and a leaf write do to it. It is stated for an arbitrary set \<open>fixed\<close> of statically allocated
  table pages and a set \<open>req\<close> of flag bits that every present entry carries, so that the kernel
  map and the user maps are instances.
\<close>

section \<open>Machine state and operations\<close>

record machine =
  mem :: memory
  kpmm :: pmm
  cr3 :: u64

definition PT_ENTRIES :: nat where
  "PT_ENTRIES = 512"

definition ENTRY_ADDR_MASK :: u64 where
  "ENTRY_ADDR_MASK = 0x000FFFFFFFFFF000"

definition SB_VMM_PRESENT :: u64 where
  "SB_VMM_PRESENT = push_bit 0 1"

definition SB_VMM_WRITABLE :: u64 where
  "SB_VMM_WRITABLE = push_bit 1 1"

definition SB_VMM_USER :: u64 where
  "SB_VMM_USER = push_bit 2 1"

definition SB_VMM_NX :: u64 where
  "SB_VMM_NX = push_bit 63 1"

definition table_get :: "memory \<Rightarrow> u64 \<Rightarrow> nat \<Rightarrow> u64" where
  "table_get m table i = load64 m (table + 8 * of_nat i)"

definition table_set :: "u64 \<Rightarrow> nat \<Rightarrow> u64 \<Rightarrow> memory \<Rightarrow> memory" where
  "table_set table i v m = store64 m (table + 8 * of_nat i) v"

definition table_from_entry :: "u64 \<Rightarrow> u64" where
  "table_from_entry entry = entry AND ENTRY_ADDR_MASK"

definition zero_page :: "u64 \<Rightarrow> memory \<Rightarrow> memory" where
  "zero_page page m = fold (\<lambda>i. table_set page i 0) [0..<PT_ENTRIES] m"

definition ensure_table :: "u64 \<Rightarrow> u16 \<Rightarrow> u64 \<Rightarrow> machine \<Rightarrow> u64 \<times> machine" where
  "ensure_table table index flags M =
     (let entry = table_get (mem M) table (unat index) in
      if entry AND SB_VMM_PRESENT \<noteq> 0 then
        if entry AND 0x80 \<noteq> 0 then (0, M)
        else
          let M = M\<lparr>mem := table_set table (unat index)
                (entry OR (flags AND (SB_VMM_WRITABLE OR SB_VMM_USER))) (mem M)\<rparr> in
          (table_from_entry (table_get (mem M) table (unat index)), M)
      else
        let (page, p) = kpmm_alloc_page (kpmm M); M = M\<lparr>kpmm := p\<rparr> in
        if page = 0 then (0, M)
        else
          let M = M\<lparr>mem := zero_page page (mem M)\<rparr>;
              M = M\<lparr>mem := table_set table (unat index)
                ((page AND ENTRY_ADDR_MASK) OR SB_VMM_PRESENT OR
                 (flags AND (SB_VMM_WRITABLE OR SB_VMM_USER))) (mem M)\<rparr> in
          (page, M))"

definition pml4_index :: "u64 \<Rightarrow> u16" where
  "pml4_index address = ucast (drop_bit 39 address AND 0x1FF)"

definition pdpt_index :: "u64 \<Rightarrow> u16" where
  "pdpt_index address = ucast (drop_bit 30 address AND 0x1FF)"

definition pd_index :: "u64 \<Rightarrow> u16" where
  "pd_index address = ucast (drop_bit 21 address AND 0x1FF)"

definition pt_index :: "u64 \<Rightarrow> u16" where
  "pt_index address = ucast (drop_bit 12 address AND 0x1FF)"

section \<open>Entries and addresses\<close>

lemma addr_mask_eq: "ENTRY_ADDR_MASK = push_bit 12 (mask 40)"
  by (simp add: ENTRY_ADDR_MASK_def mask_eq_exp_minus_1 push_bit_eq_mult)

lemma flag_bits [simp]:
  "bit SB_VMM_PRESENT n \<longleftrightarrow> n = 0" "bit SB_VMM_WRITABLE n \<longleftrightarrow> n = 1"
  "bit SB_VMM_USER n \<longleftrightarrow> n = 2" "bit SB_VMM_NX n \<longleftrightarrow> n = 63"
  "bit ENTRY_ADDR_MASK n \<longleftrightarrow> 12 \<le> n \<and> n < 52"
  by (auto simp: SB_VMM_PRESENT_def SB_VMM_WRITABLE_def SB_VMM_USER_def SB_VMM_NX_def addr_mask_eq bit_simps)

lemma present_bit: "e AND SB_VMM_PRESENT = 0 \<longleftrightarrow> \<not> bit e 0"
  using and_single_zero [of e 0] by (simp add: SB_VMM_PRESENT_def)

lemma large_bit: "e AND 0x80 = 0 \<longleftrightarrow> \<not> bit e 7" for e :: u64
proof -
  have "(0x80 :: u64) = push_bit 7 1" by (simp add: push_bit_eq_mult)
  then show ?thesis using and_single_zero [of e 7] by simp
qed

lemma user_present_bits:
  "e AND (SB_VMM_PRESENT OR SB_VMM_USER) = SB_VMM_PRESENT OR SB_VMM_USER \<longleftrightarrow> bit e 0 \<and> bit e 2"
proof
  assume eq: "e AND (SB_VMM_PRESENT OR SB_VMM_USER) = SB_VMM_PRESENT OR SB_VMM_USER"
  have "bit (e AND (SB_VMM_PRESENT OR SB_VMM_USER)) n" if "n = 0 \<or> n = 2" for n
    unfolding eq using that by (auto simp: bit_or_iff)
  then show "bit e 0 \<and> bit e 2" by (auto simp: bit_and_iff)
qed (rule bit_word_eqI, auto simp: bit_simps)

lemma aligned_low_bits: "page_aligned a \<Longrightarrow> n < 12 \<Longrightarrow> \<not> bit a n"
proof -
  assume a: "page_aligned a" "n < 12"
  then have "a AND mask 12 = 0" by (simp add: page_aligned_def page_mask_eq)
  then have "\<not> bit (a AND mask 12) n" by simp
  then show ?thesis using a(2) by (simp add: bit_simps bit_imp_le_length)
qed

lemma small_high_bits: "unat (a :: u64) < 2 ^ k \<Longrightarrow> k \<le> n \<Longrightarrow> \<not> bit a n"
proof
  assume k: "unat a < 2 ^ k" "k \<le> n" and b: "bit a n"
  then have "bit (unat a) n" by (simp add: bit_unsigned_iff bit_imp_le_length)
  then have "2 ^ n \<le> unat a" by (metis bit_iff_odd div_less even_zero not_less)
  moreover have "(2 :: nat) ^ k \<le> 2 ^ n" using k(2) by simp
  ultimately show False using k(1) by linarith
qed

lemma mask_table_page: "page_aligned c \<Longrightarrow> unat c < 2 ^ 52 \<Longrightarrow> c AND ENTRY_ADDR_MASK = c"
proof (rule bit_word_eqI)
  fix n
  assume "page_aligned c" "unat c < 2 ^ 52"
  then have "bit c n \<Longrightarrow> 12 \<le> n \<and> n < 52"
    using aligned_low_bits [of c n] small_high_bits [of c 52 n] by (meson not_le)
  then show "bit (c AND ENTRY_ADDR_MASK) n \<longleftrightarrow> bit c n" by (auto simp: bit_and_iff)
qed

lemma table_from_new_entry:
  "table_from_entry ((c AND ENTRY_ADDR_MASK) OR SB_VMM_PRESENT OR
     (flags AND (SB_VMM_WRITABLE OR SB_VMM_USER))) = c AND ENTRY_ADDR_MASK"
  unfolding table_from_entry_def by (rule bit_word_eqI) (auto simp: bit_simps)

lemma table_from_old_entry:
  "table_from_entry (e OR (flags AND (SB_VMM_WRITABLE OR SB_VMM_USER))) = table_from_entry e"
  unfolding table_from_entry_def by (rule bit_word_eqI) (auto simp: bit_simps)

lemma index_less:
  "unat (pml4_index a) < 512" "unat (pdpt_index a) < 512" "unat (pd_index a) < 512" "unat (pt_index a) < 512"
proof -
  have m: "(0x1FF :: u64) = mask 9" by (simp add: mask_eq_exp_minus_1)
  have "unat (ucast (x AND 0x1FF :: u64) :: u16) < 512" for x :: u64
    using unat_and_mask [of x 9] by (subst unat_ucast_small) (simp_all add: m)
  then show "unat (pml4_index a) < 512" "unat (pdpt_index a) < 512" "unat (pd_index a) < 512" "unat (pt_index a) < 512"
    by (simp_all add: pml4_index_def pdpt_index_def pd_index_def pt_index_def)
qed

section \<open>Reading after writing\<close>

lemma table_get_set [mem_simps]:
  assumes "page_aligned p" "page_aligned q" "i < 512" "j < 512"
  shows "table_get (table_set p i v m) q j = (if q = p \<and> j = i then v else table_get m q j)"
  using assms entry_inj [OF assms(2,1,4,3)] aligned8_entry [OF assms(1,3)] aligned8_entry [OF assms(2,4)]
  by (auto simp: table_get_def table_set_def load_store_same load_store_other)

lemma table_set_other:
  assumes "page_aligned p" "i < 512" "page_of a \<noteq> p"
  shows "table_set p i v m a = m a"
proof -
  have "\<not> unat (a - (p + 8 * of_nat i)) < 8"
  proof
    assume l: "unat (a - (p + 8 * of_nat i)) < 8"
    define k where "k = unat (a - (p + 8 * of_nat i))"
    have "a = p + of_nat (8 * i + k)" by (simp add: k_def)
    moreover have "8 * i + k < 4096" using l assms(2) by (simp add: k_def)
    ultimately show False using page_of_offset [OF assms(1)] assms(3) by blast
  qed
  then show ?thesis by (simp add: table_set_def store64_def store_le_apply)
qed

lemma zero_upto_get:
  assumes "page_aligned c" "page_aligned p" "j < 512" "n \<le> 512"
  shows "table_get (fold (\<lambda>i. table_set c i 0) [0..<n] m) p j =
    (if p = c \<and> j < n then 0 else table_get m p j)"
  using assms(4) by (induction n) (auto simp: table_get_set assms(1-3))

lemma zero_page_get [mem_simps]:
  "page_aligned c \<Longrightarrow> page_aligned p \<Longrightarrow> j < 512 \<Longrightarrow>
   table_get (zero_page c m) p j = (if p = c then 0 else table_get m p j)"
  by (simp add: zero_page_def PT_ENTRIES_def zero_upto_get)

lemma zero_page_other: "page_aligned c \<Longrightarrow> page_of a \<noteq> c \<Longrightarrow> zero_page c m a = m a"
proof -
  assume "page_aligned c" "page_of a \<noteq> c"
  then have "fold (\<lambda>i. table_set c i 0) [0..<n] m a = m a" if "n \<le> 512" for n
    using that by (induction n) (auto simp: table_set_other)
  then show ?thesis by (simp add: zero_page_def PT_ENTRIES_def)
qed

section \<open>The tree of tables below root slot 1\<close>

text \<open>
  \<open>tab m root q\<close> follows the present entries named by the path \<open>q\<close>. A slot path starts at
  index 1 of the root and has at most three steps, so that it ends at a page-directory-pointer
  table, a page directory or a page table. \<open>leaf\<close> reads the last level, with 0 where a table
  is missing.
\<close>

fun tab :: "memory \<Rightarrow> u64 \<Rightarrow> nat list \<Rightarrow> u64 option" where
  "tab m root [] = Some root"
| "tab m root (i # q) =
     (if bit (table_get m root i) 0 then tab m (table_from_entry (table_get m root i)) q else None)"

lemma tab_snoc:
  "tab m root (q @ [i]) =
     (case tab m root q of None \<Rightarrow> None
      | Some p \<Rightarrow> if bit (table_get m p i) 0 then Some (table_from_entry (table_get m p i)) else None)"
  by (induction q arbitrary: root) auto

definition slot_ok :: "nat list \<Rightarrow> nat \<Rightarrow> bool" where
  "slot_ok q i \<longleftrightarrow> i < 512 \<and> (q = [] \<longrightarrow> i = 1)"

fun slot_path_rev :: "nat list \<Rightarrow> bool" where
  "slot_path_rev [] = True"
| "slot_path_rev (i # q) \<longleftrightarrow> length q < 3 \<and> slot_ok (rev q) i \<and> slot_path_rev q"

definition slot_path :: "nat list \<Rightarrow> bool" where
  "slot_path q \<longleftrightarrow> slot_path_rev (rev q)"

lemma slot_path_Nil [simp]: "slot_path []"
  by (simp add: slot_path_def)

lemma slot_path_snoc [simp]: "slot_path (q @ [i]) \<longleftrightarrow> length q < 3 \<and> slot_ok q i \<and> slot_path q"
  by (simp add: slot_path_def)

definition leaf :: "memory \<Rightarrow> u64 \<Rightarrow> nat list \<Rightarrow> nat \<Rightarrow> u64" where
  "leaf m root q j = (case tab m root q of None \<Rightarrow> 0 | Some p \<Rightarrow> table_get m p j)"

definition tree_pages :: "u64 \<Rightarrow> memory \<Rightarrow> u64 set" where
  "tree_pages root m = {p. \<exists>q. slot_path q \<and> tab m root q = Some p}"

definition fixed_ok :: "u64 set \<Rightarrow> pmm \<Rightarrow> bool" where
  "fixed_ok fixed p \<longleftrightarrow>
     (\<forall>c \<in> fixed. page_aligned c \<and> c \<noteq> 0 \<and> unat c < 2 ^ 52 \<and> c \<notin> kpmm_avail p \<and> c \<notin> kpmm_owned p)"

definition tree_wf :: "u64 set \<Rightarrow> u64 \<Rightarrow> u64 \<Rightarrow> machine \<Rightarrow> bool" where
  "tree_wf fixed req root M \<longleftrightarrow>
     kpmm_ok (kpmm M) \<and> fixed_ok fixed (kpmm M) \<and>
     tree_pages root (mem M) \<subseteq> kpmm_owned (kpmm M) \<union> fixed \<and>
     (\<forall>q r p. slot_path q \<longrightarrow> slot_path r \<longrightarrow> tab (mem M) root q = Some p \<longrightarrow>
        tab (mem M) root r = Some p \<longrightarrow> q = r) \<and>
     (\<forall>q p i. slot_path q \<longrightarrow> tab (mem M) root q = Some p \<longrightarrow> slot_ok q i \<longrightarrow>
        bit (table_get (mem M) p i) 0 \<longrightarrow>
        \<not> bit (table_get (mem M) p i) 7 \<and> table_get (mem M) p i AND req = req)"

lemma tree_wfD:
  assumes "tree_wf fixed req root M"
  shows "kpmm_ok (kpmm M)" and "fixed_ok fixed (kpmm M)"
    and "slot_path q \<Longrightarrow> tab (mem M) root q = Some p \<Longrightarrow> p \<in> kpmm_owned (kpmm M) \<union> fixed"
    and "slot_path q \<Longrightarrow> slot_path r \<Longrightarrow> tab (mem M) root q = Some p \<Longrightarrow> tab (mem M) root r = Some p \<Longrightarrow> q = r"
    and "slot_path q \<Longrightarrow> tab (mem M) root q = Some p \<Longrightarrow> slot_ok q i \<Longrightarrow> bit (table_get (mem M) p i) 0 \<Longrightarrow>
      \<not> bit (table_get (mem M) p i) 7 \<and> table_get (mem M) p i AND req = req"
  using assms unfolding tree_wf_def tree_pages_def by blast+

lemma table_page:
  assumes "tree_wf fixed req root M" "slot_path q" "tab (mem M) root q = Some p"
  shows "page_aligned p" and "p \<noteq> 0" and "unat p < 2 ^ 52" and "p \<notin> kpmm_avail (kpmm M)"
proof -
  have ok: "kpmm_ok (kpmm M)" and "fixed_ok fixed (kpmm M)" and "p \<in> kpmm_owned (kpmm M) \<union> fixed"
    using tree_wfD(1-3) [OF assms(1)] assms(2,3) by simp_all
  then show "page_aligned p" "p \<noteq> 0" "unat p < 2 ^ 52" "p \<notin> kpmm_avail (kpmm M)"
    using kp.owned_page [OF ok, of p] kp.avail_owned [OF ok] by (auto simp: fixed_ok_def)
qed

text \<open>Overwriting an entry of one table leaves every other entry of the tree as it was.\<close>

lemma tab_update:
  assumes "tree_wf fixed req root M" "slot_path q" "tab (mem M) root q = Some p" "slot_ok q i"
    and "length q = 3 \<or> (bit v 0 \<longleftrightarrow> bit (table_get (mem M) p i) 0) \<and>
      table_from_entry v = table_from_entry (table_get (mem M) p i)"
    and "slot_path r"
  shows "tab (table_set p i v (mem M)) root r = tab (mem M) root r"
  using assms(6)
proof (induction r rule: rev_induct)
  case (snoc j r)
  then have r: "slot_path r" "length r < 3" "j < 512" by (simp_all add: slot_ok_def)
  show ?case
  proof (cases "tab (mem M) root r")
    case (Some p')
    have al: "page_aligned p" "page_aligned p'" "i < 512"
      using table_page(1) [OF assms(1,2,3)] table_page(1) [OF assms(1) r(1) Some] assms(4)
      by (simp_all add: slot_ok_def)
    have "r = q" if "p' = p"
      using tree_wfD(4) [OF assms(1) r(1) assms(2)] Some that assms(3) by simp
    with Some snoc.IH [OF r(1)] r al assms(5) show ?thesis
      by (auto simp: tab_snoc table_get_set)
  qed (use snoc.IH [OF r(1)] in \<open>simp add: tab_snoc\<close>)
qed simp

lemma tab_link:
  assumes "tree_wf fixed req root M" "slot_path q" "tab (mem M) root q = Some p" "slot_ok q i" "length q < 3"
    and "\<not> bit (table_get (mem M) p i) 0" "bit v 0" "table_from_entry v = c"
    and "page_aligned c" "c \<in> kpmm_avail (kpmm M)" "slot_path r"
  shows "tab (table_set p i v (zero_page c (mem M))) root r =
    (if r = q @ [i] then Some c else tab (mem M) root r)"
  using assms(11)
proof (induction r rule: rev_induct)
  case (snoc j r)
  then have r: "slot_path r" "length r < 3" "j < 512" by (simp_all add: slot_ok_def)
  have p: "page_aligned p" "i < 512" "p \<noteq> c"
    using table_page(1,4) [OF assms(1,2,3)] assms(4,10) by (auto simp: slot_ok_def)
  have new: "table_get (table_set p i v (zero_page c (mem M))) p' k =
      (if p' = p \<and> k = i then v else if p' = c then 0 else table_get (mem M) p' k)"
    if "page_aligned p'" "k < 512" for p' k
    using p that assms(9) by (simp add: table_get_set zero_page_get)
  have none: "tab (mem M) root (q @ [i]) = None" using assms(3,6) by (simp add: tab_snoc)
  show ?case
  proof (cases "r = q @ [i]")
    case True
    then have "r @ [j] \<noteq> q @ [i]" by simp
    moreover have "tab (mem M) root (r @ [j]) = None" using none True by (simp only: tab_snoc option.case)
    moreover have "tab (table_set p i v (zero_page c (mem M))) root (r @ [j]) = None"
      using snoc.IH [OF r(1)] True new [OF assms(9) r(3)] p by (simp only: tab_snoc) simp
    ultimately show ?thesis by simp
  next
    case False
    show ?thesis
    proof (cases "tab (mem M) root r")
      case (Some p')
      have al: "page_aligned p'" "p' \<noteq> c"
        using table_page(1,4) [OF assms(1) r(1) Some] assms(10) by auto
      have "r = q" if "p' = p"
        using tree_wfD(4) [OF assms(1) r(1) assms(2)] Some that assms(3) by simp
      with Some False snoc.IH [OF r(1)] al r assms(3,7,8) new [OF al(1) r(3)] show ?thesis
        by (auto simp: tab_snoc)
    qed (use False snoc.IH [OF r(1)] assms(3) in \<open>auto simp: tab_snoc\<close>)
  qed
qed simp

section \<open>Growing the tree\<close>

lemma wf_update:
  assumes "tree_wf fixed req root M" "slot_path q" "tab (mem M) root q = Some p" "slot_ok q i"
    and "length q = 3 \<or> (bit v 0 \<longleftrightarrow> bit (table_get (mem M) p i) 0) \<and>
      table_from_entry v = table_from_entry (table_get (mem M) p i)"
    and "bit v 0 \<longrightarrow> \<not> bit v 7 \<and> v AND req = req"
  shows "tree_wf fixed req root (M\<lparr>mem := table_set p i v (mem M)\<rparr>)"
proof -
  note same = tab_update [OF assms(1-5)]
  have get: "table_get (table_set p i v (mem M)) p' j =
      (if p' = p \<and> j = i then v else table_get (mem M) p' j)"
    if "slot_path r" "tab (mem M) root r = Some p'" "slot_ok r j" for r p' j
    using table_page(1) [OF assms(1-3)] table_page(1) [OF assms(1) that(1,2)] that(3) assms(4)
    by (simp add: table_get_set slot_ok_def)
  have "tree_pages root (table_set p i v (mem M)) = tree_pages root (mem M)"
    using same by (auto simp: tree_pages_def)
  moreover have "\<not> bit (table_get (table_set p i v (mem M)) p' j) 7 \<and>
      table_get (table_set p i v (mem M)) p' j AND req = req"
    if "slot_path r" "tab (mem M) root r = Some p'" "slot_ok r j"
      "bit (table_get (table_set p i v (mem M)) p' j) 0" for r p' j
    using that get [OF that(1-3)] assms(6) tree_wfD(5) [OF assms(1) that(1-3)] by (auto split: if_splits)
  ultimately show ?thesis
    using assms(1) unfolding tree_wf_def by (simp add: same)
qed

lemma wf_link:
  assumes "tree_wf fixed req root M" "slot_path q" "tab (mem M) root q = Some p" "slot_ok q i" "length q < 3"
    and "\<not> bit (table_get (mem M) p i) 0" "bit v 0" "table_from_entry v = c"
    and "kpmm_alloc_page (kpmm M) = (c, pp)" "c \<noteq> 0" "\<not> bit v 7 \<and> v AND req = req"
  shows "tree_wf fixed req root (M\<lparr>kpmm := pp, mem := table_set p i v (zero_page c (mem M))\<rparr>)"
proof -
  let ?m = "table_set p i v (zero_page c (mem M))"
  note al = kp.alloc_nonnull [OF tree_wfD(1) [OF assms(1)] assms(9,10)]
  note link = tab_link [OF assms(1-8) al(3,1)]
  have c_new: "tab (mem M) root r \<noteq> Some c" if "slot_path r" for r
    using table_page(4) [OF assms(1) that] al(1) by blast
  have get: "table_get ?m p' j = (if p' = p \<and> j = i then v else if p' = c then 0 else table_get (mem M) p' j)"
    if "page_aligned p'" "slot_ok r j" for r p' j
    using table_page(1) [OF assms(1-3)] that al(3) assms(4) by (simp add: table_get_set zero_page_get slot_ok_def)
  have "tree_pages root ?m \<subseteq> kpmm_owned pp \<union> fixed"
    using tree_wfD(3) [OF assms(1)] al(7) by (fastforce simp: tree_pages_def link split: if_splits)
  moreover have "fixed_ok fixed pp"
    using tree_wfD(2) [OF assms(1)] al(1,6,7) by (auto simp: fixed_ok_def)
  moreover have "r = r'" if "slot_path r" "slot_path r'" "tab ?m root r = Some p'" "tab ?m root r' = Some p'" for r r' p'
    using that tree_wfD(4) [OF assms(1) that(1,2)] c_new by (auto simp: link split: if_splits)
  moreover have "\<not> bit (table_get ?m p' j) 7 \<and> table_get ?m p' j AND req = req"
    if r: "slot_path r" "tab ?m root r = Some p'" "slot_ok r j" "bit (table_get ?m p' j) 0" for r p' j
  proof -
    have "page_aligned p'"
      using r(1,2) link al(3) table_page(1) [OF assms(1)] by (auto split: if_splits)
    note g = get [OF this r(3)]
    show ?thesis
    proof (cases "p' = p \<and> j = i \<or> p' = c")
      case True
      then show ?thesis using g r(4) assms(11) by (auto split: if_splits)
    next
      case False
      then have "tab (mem M) root r = Some p'" using r(1,2) link by (auto split: if_splits)
      then show ?thesis using g r False tree_wfD(5) [OF assms(1) r(1) _ r(3)] by (auto split: if_splits)
    qed
  qed
  ultimately show ?thesis
    using al(5) unfolding tree_wf_def by simp
qed

text \<open>
  What extending the tree may do: add tables on pages that were available, keep every table and
  every leaf entry that was there, and write to no byte outside the tree.
\<close>

definition tree_grow :: "u64 set \<Rightarrow> u64 \<Rightarrow> u64 \<Rightarrow> machine \<Rightarrow> machine \<Rightarrow> bool" where
  "tree_grow fixed req root M M' \<longleftrightarrow>
     tree_wf fixed req root M' \<and> cr3 M' = cr3 M \<and>
     (\<forall>q p. slot_path q \<longrightarrow> tab (mem M) root q = Some p \<longrightarrow> tab (mem M') root q = Some p) \<and>
     (\<forall>q j. slot_path q \<longrightarrow> length q = 3 \<longrightarrow> j < 512 \<longrightarrow> leaf (mem M') root q j = leaf (mem M) root q j) \<and>
     (\<forall>a. page_of a \<notin> tree_pages root (mem M') \<longrightarrow> mem M' a = mem M a) \<and>
     tree_pages root (mem M') - tree_pages root (mem M) \<subseteq> kpmm_avail (kpmm M) \<and>
     kpmm_owned (kpmm M') = kpmm_owned (kpmm M) \<union> (tree_pages root (mem M') - tree_pages root (mem M)) \<and>
     kpmm_avail (kpmm M') = kpmm_avail (kpmm M) - tree_pages root (mem M')"

lemma tree_pages_avail: "tree_wf fixed req root M \<Longrightarrow> tree_pages root (mem M) \<inter> kpmm_avail (kpmm M) = {}"
  using table_page(4) by (fastforce simp: tree_pages_def)

lemma tree_grow_refl: "tree_wf fixed req root M \<Longrightarrow> tree_grow fixed req root M M"
  using tree_pages_avail [of fixed req root M] by (auto simp: tree_grow_def)

lemma tree_grow_pages:
  "tree_grow fixed req root M M' \<Longrightarrow> tree_pages root (mem M) \<subseteq> tree_pages root (mem M')"
  by (auto simp: tree_grow_def tree_pages_def)

lemma tree_growD:
  assumes "tree_grow fixed req root M M'"
  shows "tree_wf fixed req root M'" "cr3 M' = cr3 M"
    "slot_path q \<Longrightarrow> tab (mem M) root q = Some p \<Longrightarrow> tab (mem M') root q = Some p"
    "slot_path q \<Longrightarrow> length q = 3 \<Longrightarrow> j < 512 \<Longrightarrow> leaf (mem M') root q j = leaf (mem M) root q j"
    "page_of a \<notin> tree_pages root (mem M') \<Longrightarrow> mem M' a = mem M a"
    "tree_pages root (mem M') - tree_pages root (mem M) \<subseteq> kpmm_avail (kpmm M)"
    "kpmm_owned (kpmm M') = kpmm_owned (kpmm M) \<union> (tree_pages root (mem M') - tree_pages root (mem M))"
    "kpmm_avail (kpmm M') = kpmm_avail (kpmm M) - tree_pages root (mem M')"
  using assms unfolding tree_grow_def by simp_all

lemma tree_grow_trans:
  assumes "tree_grow fixed req root M M'" "tree_grow fixed req root M' M''"
  shows "tree_grow fixed req root M M''"
proof -
  note g1 = tree_growD [OF assms(1)] and g2 = tree_growD [OF assms(2)]
  note p1 = tree_grow_pages [OF assms(1)] and p2 = tree_grow_pages [OF assms(2)]
  have "mem M'' a = mem M a" if "page_of a \<notin> tree_pages root (mem M'')" for a
    using that g2(5) g1(5) p2 by (metis subsetD)
  moreover have "tree_pages root (mem M'') - tree_pages root (mem M) \<subseteq> kpmm_avail (kpmm M)"
    using g1(6,8) g2(6) by blast
  moreover have "kpmm_owned (kpmm M'') = kpmm_owned (kpmm M) \<union> (tree_pages root (mem M'') - tree_pages root (mem M))"
    unfolding g2(7) g1(7) using p1 p2 by blast
  moreover have "kpmm_avail (kpmm M'') = kpmm_avail (kpmm M) - tree_pages root (mem M'')"
    unfolding g2(8) g1(8) using p2 by blast
  ultimately show ?thesis
    using g1(2-4) g2(1-4) unfolding tree_grow_def by (intro conjI) simp_all
qed

lemma tree_pages_update:
  assumes "tree_wf fixed req root M" "slot_path q" "tab (mem M) root q = Some p" "slot_ok q i"
    and "(bit v 0 \<longleftrightarrow> bit (table_get (mem M) p i) 0) \<and>
      table_from_entry v = table_from_entry (table_get (mem M) p i)"
    and "bit v 0 \<longrightarrow> \<not> bit v 7 \<and> v AND req = req" and "length q < 3"
  shows "tree_grow fixed req root M (M\<lparr>mem := table_set p i v (mem M)\<rparr>)"
proof -
  let ?m = "table_set p i v (mem M)"
  have same: "tab ?m root r = tab (mem M) root r" if "slot_path r" for r
    by (rule tab_update [OF assms(1-4) _ that]) (use assms(5) in blast)
  have pages: "tree_pages root ?m = tree_pages root (mem M)" using same by (auto simp: tree_pages_def)
  have p: "page_aligned p" "i < 512" using table_page(1) [OF assms(1-3)] assms(4) by (simp_all add: slot_ok_def)
  have "leaf ?m root r j = leaf (mem M) root r j" if r: "slot_path r" "length r = 3" "j < 512" for r j
  proof (cases "tab (mem M) root r")
    case (Some p')
    have "p' \<noteq> p" using tree_wfD(4) [OF assms(1) r(1) assms(2)] Some assms(3,7) r(2) by auto
    then show ?thesis
      using Some p r(3) table_page(1) [OF assms(1) r(1) Some] by (simp add: leaf_def same r(1) table_get_set)
  qed (simp add: leaf_def same r(1))
  moreover have "?m a = mem M a" if "page_of a \<notin> tree_pages root (mem M)" for a
    using that p assms(2,3) by (intro table_set_other) (auto simp: tree_pages_def)
  moreover have "tree_wf fixed req root (M\<lparr>mem := ?m\<rparr>)"
    by (rule wf_update [OF assms(1-4)]) (use assms(5,6) in blast)+
  ultimately show ?thesis
    using tree_pages_avail [OF assms(1)] unfolding tree_grow_def by (intro conjI) (auto simp: same pages)
qed

lemma tree_pages_link:
  assumes "tree_wf fixed req root M" "slot_path q" "tab (mem M) root q = Some p" "slot_ok q i" "length q < 3"
    and "\<not> bit (table_get (mem M) p i) 0" "bit v 0" "table_from_entry v = c"
    and "kpmm_alloc_page (kpmm M) = (c, pp)" "c \<noteq> 0" "\<not> bit v 7 \<and> v AND req = req"
  shows "tree_grow fixed req root M (M\<lparr>kpmm := pp, mem := table_set p i v (zero_page c (mem M))\<rparr>)"
    and "tab (table_set p i v (zero_page c (mem M))) root (q @ [i]) = Some c"
proof -
  let ?m = "table_set p i v (zero_page c (mem M))"
  note al = kp.alloc_nonnull [OF tree_wfD(1) [OF assms(1)] assms(9,10)]
  note link = tab_link [OF assms(1-8) al(3,1)]
  show new: "tab ?m root (q @ [i]) = Some c" using assms(2,4,5) by (subst link) simp_all
  have none: "tab (mem M) root (q @ [i]) = None" using assms(3,6) by (simp add: tab_snoc)
  have path: "slot_path (q @ [i])" using assms(2,4,5) by simp
  have keep: "tab ?m root r = Some p'" if "slot_path r" "tab (mem M) root r = Some p'" for r p'
    using that none by (auto simp: link)
  have pages: "tree_pages root ?m = insert c (tree_pages root (mem M))"
  proof
    show "tree_pages root ?m \<subseteq> insert c (tree_pages root (mem M))"
      by (auto simp: tree_pages_def link split: if_splits)
    show "insert c (tree_pages root (mem M)) \<subseteq> tree_pages root ?m"
      using new path keep unfolding tree_pages_def by blast
  qed
  have c: "c \<notin> tree_pages root (mem M)" using tree_pages_avail [OF assms(1)] al(1) by blast
  have p: "page_aligned p" "i < 512" "p \<noteq> c" "p \<in> tree_pages root (mem M)"
    using table_page(1,4) [OF assms(1-3)] assms(2,3,4) al(1) by (auto simp: slot_ok_def tree_pages_def)
  have "leaf ?m root r j = leaf (mem M) root r j" if r: "slot_path r" "length r = 3" "j < 512" for r j
  proof (cases "tab (mem M) root r")
    case None
    show ?thesis
    proof (cases "r = q @ [i]")
      case True
      then show ?thesis
        using r(3) p al(3) none new by (simp add: leaf_def table_get_set zero_page_get)
    qed (simp add: leaf_def link [OF r(1)] None)
  next
    case (Some p')
    have "p' \<noteq> p" "p' \<noteq> c" "r \<noteq> q @ [i]"
      using tree_wfD(4) [OF assms(1) r(1) assms(2)] Some assms(3,5) r(1,2) c none by (auto simp: tree_pages_def)
    then show ?thesis
      using Some p r al(3) table_page(1) [OF assms(1) r(1) Some]
      by (simp add: leaf_def link [OF r(1)] table_get_set zero_page_get)
  qed
  moreover have "?m a = mem M a" if "page_of a \<notin> insert c (tree_pages root (mem M))" for a
    using that p al(3) by (subst table_set_other) (auto simp: zero_page_other)
  ultimately show "tree_grow fixed req root M (M\<lparr>kpmm := pp, mem := ?m\<rparr>)"
    using wf_link [OF assms] tree_pages_avail [OF assms(1)] al(1,6,7) c keep
    unfolding tree_grow_def by (intro conjI) (auto simp: pages)
qed

text \<open>Bits of the entries that \<open>ensure_table\<close> writes.\<close>

lemma and_req: "x AND req = req \<longleftrightarrow> (\<forall>n. bit req n \<longrightarrow> bit x n)" for x req :: u64
proof
  assume eq: "x AND req = req"
  show "\<forall>n. bit req n \<longrightarrow> bit x n" using bit_and_iff [of x req] unfolding eq by blast
qed (rule bit_word_eqI, auto simp: bit_and_iff)

lemma new_entry_bits:
  fixes c flags :: u64
  defines "v \<equiv> (c AND ENTRY_ADDR_MASK) OR SB_VMM_PRESENT OR (flags AND (SB_VMM_WRITABLE OR SB_VMM_USER))"
  assumes "(flags AND (SB_VMM_WRITABLE OR SB_VMM_USER)) AND req = req"
  shows "bit v 0" "\<not> bit v 7 \<and> v AND req = req"
  using assms(2) unfolding and_req by (auto simp: v_def bit_or_iff bit_and_iff)

lemma old_entry_bits:
  fixes e flags :: u64
  defines "v \<equiv> e OR (flags AND (SB_VMM_WRITABLE OR SB_VMM_USER))"
  assumes "e AND req = req" "\<not> bit e 7"
  shows "bit v 0 \<longleftrightarrow> bit e 0" "\<not> bit v 7 \<and> v AND req = req"
  using assms(2,3) unfolding and_req by (auto simp: v_def bit_or_iff bit_and_iff)

lemma ensure_table_grow:
  assumes "tree_wf fixed req root M" "slot_path q" "tab (mem M) root q = Some p"
    and "slot_ok q (unat idx)" "length q < 3"
    and "(flags AND (SB_VMM_WRITABLE OR SB_VMM_USER)) AND req = req"
    and "ensure_table p idx flags M = (c, M')"
  shows "tree_grow fixed req root M M'"
    and "c = 0 \<Longrightarrow> M' = M \<and> kpmm_avail (kpmm M) = {} \<and> tab (mem M) root (q @ [unat idx]) = None"
    and "c \<noteq> 0 \<Longrightarrow> tab (mem M') root (q @ [unat idx]) = Some c"
proof (atomize (full), cases "bit (table_get (mem M) p (unat idx)) 0")
  case True
  let ?e = "table_get (mem M) p (unat idx)"
  let ?v = "?e OR (flags AND (SB_VMM_WRITABLE OR SB_VMM_USER))"
  have e: "\<not> bit ?e 7" "?e AND req = req" using tree_wfD(5) [OF assms(1-4) True] by simp_all
  have child: "tab (mem M) root (q @ [unat idx]) = Some (table_from_entry ?e)"
    using assms(3) True by (simp add: tab_snoc)
  have path: "slot_path (q @ [unat idx])" using assms(2,4,5) by simp
  have get: "table_get (table_set p (unat idx) ?v (mem M)) p (unat idx) = ?v"
    using table_page(1) [OF assms(1-3)] assms(4) by (simp add: table_get_set slot_ok_def)
  have M': "M' = M\<lparr>mem := table_set p (unat idx) ?v (mem M)\<rparr>" "c = table_from_entry ?e"
    using assms(7) True e by (simp_all add: ensure_table_def present_bit large_bit Let_def get table_from_old_entry)
  have grow: "tree_grow fixed req root M M'"
    unfolding M' by (rule tree_pages_update [OF assms(1-4)])
      (use old_entry_bits [OF e(2,1), of flags] table_from_old_entry [of ?e flags] assms(5) in simp_all)
  moreover have "c \<noteq> 0" using table_page(2) [OF assms(1) path child] M'(2) by simp
  moreover have "tab (mem M') root (q @ [unat idx]) = Some c"
    using tree_growD(3) [OF grow path child] M'(2) by simp
  ultimately show "tree_grow fixed req root M M' \<and> 
      (c = 0 \<longrightarrow> M' = M \<and> kpmm_avail (kpmm M) = {} \<and> tab (mem M) root (q @ [unat idx]) = None) \<and>
      (c \<noteq> 0 \<longrightarrow> tab (mem M') root (q @ [unat idx]) = Some c)" by simp
next
  case False
  obtain page pp where pp: "kpmm_alloc_page (kpmm M) = (page, pp)" by fastforce
  note ok = tree_wfD(1) [OF assms(1)]
  let ?v = "(page AND ENTRY_ADDR_MASK) OR SB_VMM_PRESENT OR (flags AND (SB_VMM_WRITABLE OR SB_VMM_USER))"
  show "tree_grow fixed req root M M' \<and> 
      (c = 0 \<longrightarrow> M' = M \<and> kpmm_avail (kpmm M) = {} \<and> tab (mem M) root (q @ [unat idx]) = None) \<and>
      (c \<noteq> 0 \<longrightarrow> tab (mem M') root (q @ [unat idx]) = Some c)"
  proof (cases "page = 0")
    case True
    then have "c = 0" "M' = M"
      using assms(7) False pp kp.alloc_null_state [OF ok, of pp] by (simp_all add: ensure_table_def present_bit)
    with True False assms(3) kp.alloc_null [OF ok pp] show ?thesis
      by (simp add: tree_grow_refl [OF assms(1)] tab_snoc)
  next
    case page: False
    note al = kp.alloc_nonnull [OF ok pp page]
    have "unat page < 2 ^ 52" using al(4) by simp
    then have v1: "table_from_entry ?v = page"
      unfolding table_from_new_entry by (rule mask_table_page [OF al(3)])
    note v = v1 new_entry_bits [OF assms(6), of page]
    have M': "c = page" "M' = M\<lparr>kpmm := pp, mem := table_set p (unat idx) ?v (zero_page page (mem M))\<rparr>"
      using assms(7) False pp page by (auto simp: ensure_table_def present_bit Let_def)
    show ?thesis
      using tree_pages_link [OF assms(1-5) False v(2,1) pp page v(3)] page unfolding M' by simp
  qed
qed

text \<open>The three calls that both map functions make, stopping at the first null pointer.\<close>

definition ensure_path :: "u64 \<Rightarrow> u16 \<Rightarrow> u16 \<Rightarrow> u16 \<Rightarrow> u64 \<Rightarrow> machine \<Rightarrow> u64 \<times> machine" where
  "ensure_path root i4 i3 i2 flags M =
     (let (pdpt, M) = ensure_table root i4 flags M in
      if pdpt = 0 then (0, M)
      else let (pd, M) = ensure_table pdpt i3 flags M in
        if pd = 0 then (0, M) else ensure_table pd i2 flags M)"

lemma leaf_path: "unat (i3 :: u16) < 512 \<Longrightarrow> unat (i2 :: u16) < 512 \<Longrightarrow> slot_path [1, unat i3, unat i2]"
  using slot_path_snoc [of "[1, unat i3]" "unat i2"] slot_path_snoc [of "[1]" "unat i3"]
    slot_path_snoc [of "[]" 1] by (simp add: slot_ok_def)

lemma ensure_path_grow:
  assumes "tree_wf fixed req root M" "unat i4 = 1" "unat i3 < 512" "unat i2 < 512"
    and "(flags AND (SB_VMM_WRITABLE OR SB_VMM_USER)) AND req = req"
    and "ensure_path root i4 i3 i2 flags M = (pt, M')"
  shows "tree_grow fixed req root M M'"
    and "pt = 0 \<Longrightarrow> kpmm_avail (kpmm M') = {} \<and> tab (mem M) root [1, unat i3, unat i2] = None"
    and "pt \<noteq> 0 \<Longrightarrow> tab (mem M') root [1, unat i3, unat i2] = Some pt"
proof -
  obtain p3 M3 where e3: "ensure_table root i4 flags M = (p3, M3)" by fastforce
  obtain p2 M2 where e2: "ensure_table p3 i3 flags M3 = (p2, M2)" by fastforce
  have absent: "tab (mem M) root q = None" if "tree_grow fixed req root M K" "slot_path q" "tab (mem K) root q = None" for K q
    using tree_growD(3) [OF that(1,2)] that(3) by (cases "tab (mem M) root q") auto
  have s: "slot_ok [] (unat i4)" "slot_ok [1] (unat i3)" "slot_ok [1, unat i3] (unat i2)"
    using assms(2-4) by (simp_all add: slot_ok_def)
  have len: "length ([] :: nat list) < 3" "length [1 :: nat] < 3" "length [1, unat i3] < 3" by simp_all
  note g3 = ensure_table_grow [OF assms(1) slot_path_Nil tab.simps(1) s(1) len(1) assms(5) e3]
  have sp3: "slot_path [1]" using slot_path_snoc [of "[]" 1] by (simp add: slot_ok_def)
  have sp2: "slot_path [1, unat i3]" using slot_path_snoc [of "[1]" "unat i3"] s(2) sp3 by simp
  note g2 = ensure_table_grow [OF tree_growD(1) [OF g3(1)] sp3 _ s(2) len(2) assms(5) e2]
  show "tree_grow fixed req root M M'" "pt = 0 \<Longrightarrow> kpmm_avail (kpmm M') = {} \<and> tab (mem M) root [1, unat i3, unat i2] = None"
    "pt \<noteq> 0 \<Longrightarrow> tab (mem M') root [1, unat i3, unat i2] = Some pt"
  proof (atomize (full), cases "p3 = 0")
    case True
    then show "tree_grow fixed req root M M' \<and> 
        (pt = 0 \<longrightarrow> kpmm_avail (kpmm M') = {} \<and> tab (mem M) root [1, unat i3, unat i2] = None) \<and>
        (pt \<noteq> 0 \<longrightarrow> tab (mem M') root [1, unat i3, unat i2] = Some pt)"
      using g3 assms(2,6) by (auto simp: ensure_path_def e3)
  next
    case p3: False
    have t3: "tab (mem M3) root [1] = Some p3" using g3(3) p3 assms(2) by simp
    note g2' = g2 [OF t3]
    show "tree_grow fixed req root M M' \<and> 
        (pt = 0 \<longrightarrow> kpmm_avail (kpmm M') = {} \<and> tab (mem M) root [1, unat i3, unat i2] = None) \<and>
        (pt \<noteq> 0 \<longrightarrow> tab (mem M') root [1, unat i3, unat i2] = Some pt)"
    proof (cases "p2 = 0")
      case True
      then show ?thesis
        using g2' tree_grow_trans [OF g3(1)] assms(6) p3 absent [OF g3(1) sp2]
        by (auto simp: ensure_path_def e3 e2)
    next
      case p2: False
      have e1: "ensure_table p2 i2 flags M2 = (pt, M')"
        using assms(6) p3 p2 by (simp add: ensure_path_def e3 e2)
      have t2: "tab (mem M2) root [1, unat i3] = Some p2" using g2'(3) p2 by simp
      note g1 = ensure_table_grow [OF tree_growD(1) [OF g2'(1)] sp2 t2 s(3) len(3) assms(5) e1]
      show ?thesis
        using g1 tree_grow_trans [OF tree_grow_trans [OF g3(1) g2'(1)] g1(1)]
          absent [OF tree_grow_trans [OF g3(1) g2'(1)] leaf_path [OF assms(3,4)]] by auto
    qed
  qed
qed

text \<open>Each call takes at most one page, so three available pages are enough for a whole path.\<close>

lemma finite_avail [simp]: "finite (kpmm_avail p)"
  by (simp add: kpmm_avail_def free_set_def)

lemma ensure_table_avail:
  assumes "kpmm_ok (kpmm M)" "ensure_table p idx flags M = (c, M')"
  shows "card (kpmm_avail (kpmm M)) \<le> Suc (card (kpmm_avail (kpmm M')))" and "kpmm_ok (kpmm M')"
    and "c = 0 \<Longrightarrow> kpmm M' = kpmm M"
proof -
  obtain page pp where pp: "kpmm_alloc_page (kpmm M) = (page, pp)" by fastforce
  have "kpmm M' = kpmm M \<or> kpmm M' = pp"
    using assms(2) by (auto simp: ensure_table_def pp Let_def split: if_splits)
  moreover have "card (kpmm_avail (kpmm M)) \<le> Suc (card (kpmm_avail pp))" "kpmm_ok pp"
    using kp.alloc_null_state [OF assms(1), of pp] kp.alloc_nonnull [OF assms(1) pp] pp assms(1)
    by (cases "page = 0"; auto simp: card_Diff_singleton_if)+
  ultimately show "card (kpmm_avail (kpmm M)) \<le> Suc (card (kpmm_avail (kpmm M')))" "kpmm_ok (kpmm M')"
    using assms(1) by auto
  show "c = 0 \<Longrightarrow> kpmm M' = kpmm M"
    using assms(2) kp.alloc_null_state [OF assms(1), of pp] by (auto simp: ensure_table_def pp Let_def split: if_splits)
qed

lemma ensure_path_avail:
  assumes "tree_wf fixed req root M" "unat i4 = 1" "unat i3 < 512" "unat i2 < 512"
    and "(flags AND (SB_VMM_WRITABLE OR SB_VMM_USER)) AND req = req"
    and "ensure_path root i4 i3 i2 flags M = (0, M')"
  shows "card (kpmm_avail (kpmm M)) < 3"
proof -
  obtain p3 M3 where e3: "ensure_table root i4 flags M = (p3, M3)" by fastforce
  obtain p2 M2 where e2: "ensure_table p3 i3 flags M3 = (p2, M2)" by fastforce
  obtain p1 M1 where e1: "ensure_table p2 i2 flags M2 = (p1, M1)" by fastforce
  note ok = tree_wfD(1) [OF assms(1)]
  note a3 = ensure_table_avail [OF ok e3]
  note a2 = ensure_table_avail [OF a3(2) e2]
  note a1 = ensure_table_avail [OF a2(2) e1]
  have "kpmm M' = kpmm M3 \<or> kpmm M' = kpmm M2"
    using assms(6) a1(3) by (auto simp: ensure_path_def e3 e2 e1 split: if_splits)
  moreover have "kpmm_avail (kpmm M') = {}" using ensure_path_grow(2) [OF assms] by simp
  ultimately show ?thesis using a3(1) a2(1) by auto
qed

text \<open>Writing one entry of a page table changes that leaf and nothing else of the tree.\<close>

lemma leaf_write:
  assumes "tree_wf fixed req root M" "slot_path q" "length q = 3" "tab (mem M) root q = Some p" "i < 512"
    and "bit v 0 \<longrightarrow> \<not> bit v 7 \<and> v AND req = req"
  defines "M' \<equiv> M\<lparr>mem := table_set p i v (mem M)\<rparr>"
  shows "tree_wf fixed req root M'"
    and "slot_path r \<Longrightarrow> tab (mem M') root r = tab (mem M) root r"
    and "slot_path r \<Longrightarrow> length r = 3 \<Longrightarrow> j < 512 \<Longrightarrow>
      leaf (mem M') root r j = (if r = q \<and> j = i then v else leaf (mem M) root r j)"
    and "tree_pages root (mem M') = tree_pages root (mem M)"
    and "page_of a \<noteq> p \<Longrightarrow> mem M' a = mem M a"
proof -
  have s: "slot_ok q i" using assms(3,5) by (auto simp: slot_ok_def)
  show "tree_wf fixed req root M'"
    unfolding M'_def by (rule wf_update [OF assms(1,2,4) s]) (use assms(3,6) in auto)
  show same: "tab (mem M') root r = tab (mem M) root r" if "slot_path r" for r
    using tab_update [OF assms(1,2,4) s _ that] assms(3) by (simp add: M'_def)
  then show "tree_pages root (mem M') = tree_pages root (mem M)" by (auto simp: tree_pages_def)
  have p: "page_aligned p" by (rule table_page(1) [OF assms(1,2,4)])
  then show "page_of a \<noteq> p \<Longrightarrow> mem M' a = mem M a"
    using assms(5) by (simp add: M'_def table_set_other)
  show "leaf (mem M') root r j = (if r = q \<and> j = i then v else leaf (mem M) root r j)"
    if r: "slot_path r" "length r = 3" "j < 512"
  proof (cases "tab (mem M) root r")
    case None
    then show ?thesis using same [OF r(1)] assms(4) by (auto simp: leaf_def)
  next
    case (Some p')
    have "p' = p \<longleftrightarrow> r = q" using tree_wfD(4) [OF assms(1) r(1) assms(2)] Some assms(4) by auto
    then show ?thesis
      using same [OF r(1)] Some p table_page(1) [OF assms(1) r(1) Some] r(3) assms(5)
      by (auto simp: leaf_def M'_def table_get_set)
  qed
qed

end
