(* ===== verification/Slot_Map.thy ===== *)
theory Slot_Map
  imports Page_Tables
begin

text \<open>
  Virtual addresses of root slot 1 as a map: the page-table entry an address selects, what
  \<open>map_path\<close> (build the missing tables, then fill one free leaf) does to that map, and the fact
  that a tree keeps its content when none of its bytes change. The kernel map and the user address
  spaces are both read through these lemmas.
\<close>

section \<open>Indices and bits of an address\<close>

lemma bit_index:
  "bit (pml4_index a) k \<longleftrightarrow> k < 9 \<and> bit a (39 + k)" "bit (pdpt_index a) k \<longleftrightarrow> k < 9 \<and> bit a (30 + k)"
  "bit (pd_index a) k \<longleftrightarrow> k < 9 \<and> bit a (21 + k)" "bit (pt_index a) k \<longleftrightarrow> k < 9 \<and> bit a (12 + k)"
proof -
  have m: "(0x1FF :: u64) = mask 9" by (simp add: mask_eq_exp_minus_1)
  show "bit (pml4_index a) k \<longleftrightarrow> k < 9 \<and> bit a (39 + k)" "bit (pdpt_index a) k \<longleftrightarrow> k < 9 \<and> bit a (30 + k)"
    "bit (pd_index a) k \<longleftrightarrow> k < 9 \<and> bit a (21 + k)" "bit (pt_index a) k \<longleftrightarrow> k < 9 \<and> bit a (12 + k)"
    by (auto simp: pml4_index_def pdpt_index_def pd_index_def pt_index_def m bit_simps)
qed

lemma bit_from_index:
  "39 \<le> n \<Longrightarrow> n < 48 \<Longrightarrow> bit a n \<longleftrightarrow> bit (pml4_index a) (n - 39)"
  "30 \<le> n \<Longrightarrow> n < 39 \<Longrightarrow> bit a n \<longleftrightarrow> bit (pdpt_index a) (n - 30)"
  "21 \<le> n \<Longrightarrow> n < 30 \<Longrightarrow> bit a n \<longleftrightarrow> bit (pd_index a) (n - 21)"
  "12 \<le> n \<Longrightarrow> n < 21 \<Longrightarrow> bit a n \<longleftrightarrow> bit (pt_index a) (n - 12)"
  by (simp_all add: bit_index less_diff_conv2)

lemma bit_page_of: "bit (page_of a) n \<longleftrightarrow> bit a n \<and> 12 \<le> n"
  by (auto simp: page_of_def page_mask_eq bit_simps dest: bit_imp_le_length)

lemma index_page_of [simp]:
  "pml4_index (page_of a) = pml4_index a" "pdpt_index (page_of a) = pdpt_index a"
  "pd_index (page_of a) = pd_index a" "pt_index (page_of a) = pt_index a"
  by (rule bit_word_eqI, auto simp: bit_index bit_page_of)+

lemma slot_paths:
  "slot_path [1]" "slot_path [1, unat (pdpt_index a)]" "slot_path [1, unat (pdpt_index a), unat (pd_index a)]"
  using slot_path_snoc [of "[]" 1] slot_path_snoc [of "[1]" "unat (pdpt_index a)"] leaf_path [OF index_less(2,3), of a a]
  by (simp_all add: slot_ok_def index_less)

lemma slot_oks:
  "slot_ok [] 1" "slot_ok [1] (unat (pdpt_index a))" "slot_ok [1, i] (unat (pd_index a))"
  "slot_ok [1, i, j] (unat (pt_index a))"
  by (simp_all add: slot_ok_def index_less)

section \<open>The entry selected by an address\<close>

definition slot_pte :: "u64 \<Rightarrow> machine \<Rightarrow> u64 \<Rightarrow> u64" where
  "slot_pte root M a = leaf (mem M) root [1, unat (pdpt_index a), unat (pd_index a)] (unat (pt_index a))"

definition same_slot :: "u64 \<Rightarrow> u64 \<Rightarrow> bool" where
  "same_slot a b \<longleftrightarrow> pdpt_index a = pdpt_index b \<and> pd_index a = pd_index b \<and> pt_index a = pt_index b"

lemma same_slot_page_of [simp]: "same_slot (page_of a) b \<longleftrightarrow> same_slot a b" "same_slot a a"
  by (simp_all add: same_slot_def)

lemma slot_pte_same: "same_slot a b \<Longrightarrow> slot_pte root M a = slot_pte root M b"
  by (simp add: slot_pte_def same_slot_def)

lemma slot_pte_grow: "tree_grow fixed req root M M' \<Longrightarrow> slot_pte root M' a = slot_pte root M a"
  unfolding slot_pte_def by (rule tree_growD(4) [OF _ slot_paths(3)]) (simp_all add: index_less)

lemma slot_index_eq:
  "[1, unat (pdpt_index a), unat (pd_index a)] = [1, unat (pdpt_index va), unat (pd_index va)] \<and>
    unat (pt_index a) = unat (pt_index va) \<longleftrightarrow> same_slot a va"
  by (auto simp: same_slot_def word_unat_eq_iff)

text \<open>
  The part of a mapping's effect that does not depend on its result: the tables stay a
  well-formed tree, new tables come from available pages, and no byte outside the tables changes.
\<close>

definition slot_frame :: "u64 set \<Rightarrow> u64 \<Rightarrow> u64 \<Rightarrow> machine \<Rightarrow> machine \<Rightarrow> bool" where
  "slot_frame fixed req root M M' \<longleftrightarrow>
     tree_wf fixed req root M' \<and> cr3 M' = cr3 M \<and>
     tree_pages root (mem M) \<subseteq> tree_pages root (mem M') \<and>
     tree_pages root (mem M') - tree_pages root (mem M) \<subseteq> kpmm_avail (kpmm M) \<and>
     kpmm_owned (kpmm M') = kpmm_owned (kpmm M) \<union> (tree_pages root (mem M') - tree_pages root (mem M)) \<and>
     kpmm_avail (kpmm M') = kpmm_avail (kpmm M) - tree_pages root (mem M') \<and>
     (\<forall>b. page_of b \<notin> tree_pages root (mem M') \<longrightarrow> mem M' b = mem M b)"

lemma grow_frame: "tree_grow fixed req root M M' \<Longrightarrow> slot_frame fixed req root M M'"
  using tree_grow_pages [of fixed req root M M'] by (simp add: slot_frame_def tree_grow_def)

lemma frame_refl: "tree_wf fixed req root M \<Longrightarrow> slot_frame fixed req root M M"
  by (intro grow_frame tree_grow_refl)

lemma write_effect:
  fixes va
  defines "q \<equiv> [1, unat (pdpt_index va), unat (pd_index va)]"
  assumes "slot_frame fixed req root M M1" "tab (mem M1) root q = Some pt"
    and "M' = M1\<lparr>mem := table_set pt (unat (pt_index va)) v (mem M1)\<rparr>"
    and "bit v 0 \<longrightarrow> \<not> bit v 7 \<and> v AND req = req"
  shows "slot_frame fixed req root M M'"
    and "slot_pte root M' a = (if same_slot a va then v else slot_pte root M1 a)"
proof -
  have wf: "tree_wf fixed req root M1" using assms(2) by (simp add: slot_frame_def)
  have q: "slot_path q" "length q = 3" unfolding q_def using slot_paths(3) [of va] by simp_all
  note w = leaf_write [OF wf q assms(3) index_less(4) [of va] assms(5), folded assms(4)]
  have "pt \<in> tree_pages root (mem M1)" using q(1) assms(3) by (auto simp: tree_pages_def)
  then have "mem M' b = mem M1 b" if "page_of b \<notin> tree_pages root (mem M1)" for b
    using that by (intro w(5)) blast
  moreover have "kpmm M' = kpmm M1" "cr3 M' = cr3 M1" by (simp_all add: assms(4))
  ultimately show "slot_frame fixed req root M M'"
    using assms(2) w(1,4) unfolding slot_frame_def by simp
  show "slot_pte root M' a = (if same_slot a va then v else slot_pte root M1 a)"
    using w(3) [OF slot_paths(3) [of a] _ index_less(4) [of a]] slot_index_eq [of a va]
    by (simp add: slot_pte_def q_def)
qed

section \<open>Mapping one page\<close>

definition map_path :: "u64 \<Rightarrow> u64 \<Rightarrow> u64 \<Rightarrow> u64 \<Rightarrow> machine \<Rightarrow> int \<times> machine" where
  "map_path root va flags v M =
     (let (pt, M') = ensure_path root (pml4_index va) (pdpt_index va) (pd_index va) flags M in
      if pt = 0 then (-1, M')
      else if bit (table_get (mem M') pt (unat (pt_index va))) 0 then (-2, M')
      else (0, M'\<lparr>mem := table_set pt (unat (pt_index va)) v (mem M')\<rparr>))"

lemma map_path_all:
  assumes "tree_wf fixed req root M" "pml4_index va = 1"
    and "(flags AND (SB_VMM_WRITABLE OR SB_VMM_USER)) AND req = req"
    and "\<not> bit v 7 \<and> v AND req = req"
    and "map_path root va flags v M = (r, M')"
  shows "slot_frame fixed req root M M' \<and>
    (\<forall>a. slot_pte root M' a = (if r = 0 \<and> same_slot a va then v else slot_pte root M a)) \<and>
    (r = 0 \<or> r = -1 \<or> r = -2) \<and> (r = -2 \<longleftrightarrow> bit (slot_pte root M va) 0) \<and>
    (r = -1 \<longrightarrow> card (kpmm_avail (kpmm M)) < 3)"
proof -
  obtain pt M1 where e: "ensure_path root (pml4_index va) (pdpt_index va) (pd_index va) flags M = (pt, M1)"
    by fastforce
  have i4: "unat (pml4_index va) = 1" using assms(2) by simp
  note g = ensure_path_grow [OF assms(1) i4 index_less(2,3) assms(3) e]
  note call = assms(5) [unfolded map_path_def e prod.case Let_def]
  have pte: "slot_pte root M va = table_get (mem M1) pt (unat (pt_index va))" if "pt \<noteq> 0"
    using g(3) [OF that] slot_pte_grow [OF g(1), of va] by (simp add: slot_pte_def leaf_def)
  note same = slot_pte_grow [OF g(1)] grow_frame [OF g(1)]
  consider "pt = 0" | "pt \<noteq> 0" "bit (slot_pte root M va) 0" | "pt \<noteq> 0" "\<not> bit (slot_pte root M va) 0" by blast
  then show ?thesis
  proof cases
    case 1
    moreover have "card (kpmm_avail (kpmm M)) < 3"
      using ensure_path_avail [OF assms(1) i4 index_less(2,3) assms(3)] e 1 by blast
    moreover have "\<not> bit (slot_pte root M va) 0" using g(2) [OF 1] by (simp add: slot_pte_def leaf_def)
    ultimately show ?thesis using same call by auto
  next
    case 2
    with same call pte show ?thesis by auto
  next
    case 3
    then have "r = 0" "M' = M1\<lparr>mem := table_set pt (unat (pt_index va)) v (mem M1)\<rparr>" using call pte by auto
    with write_effect [OF same(2) g(3) [OF 3(1)] this(2)] 3 assms(4) same(1) show ?thesis by simp
  qed
qed

section \<open>Trees whose bytes do not change\<close>

text \<open>A tree none of whose bytes change stays as it is, provided its pages stay live.\<close>

lemma table_get_frame:
  assumes "page_aligned p" "i < 512" "\<And>a. page_of a = p \<Longrightarrow> m' a = m a"
  shows "table_get m' p i = table_get m p i"
  unfolding table_get_def load64_def
proof (rule load_le_cong)
  fix k :: nat assume "k < 8"
  then have "page_of (p + of_nat (8 * i + k)) = p" using assms(1,2) by (intro page_of_offset) simp_all
  then show "m' (p + 8 * of_nat i + of_nat k) = m (p + 8 * of_nat i + of_nat k)"
    by (intro assms(3)) (simp add: add.assoc)
qed

lemma tab_frame:
  assumes "tree_wf fixed req root M" "\<forall>a. page_of a \<in> tree_pages root (mem M) \<longrightarrow> mem M' a = mem M a"
  shows "slot_path q \<Longrightarrow> tab (mem M') root q = tab (mem M) root q"
    and "slot_path q \<Longrightarrow> tab (mem M) root q = Some p \<Longrightarrow> i < 512 \<Longrightarrow> table_get (mem M') p i = table_get (mem M) p i"
proof -
  show get: "table_get (mem M') p i = table_get (mem M) p i"
    if "slot_path q" "tab (mem M) root q = Some p" "i < 512" for q p i
    using that assms table_page(1) [OF assms(1) that(1,2)]
    by (intro table_get_frame) (auto simp: tree_pages_def)
  show "slot_path q \<Longrightarrow> tab (mem M') root q = tab (mem M) root q"
  proof (induction q rule: rev_induct)
    case (snoc i q)
    then have "slot_path q" "i < 512" by (simp_all add: slot_ok_def)
    with snoc.IH get show ?case by (auto simp: tab_snoc split: option.split)
  qed simp
qed

lemma tree_frame:
  assumes "tree_wf fixed req root M" "\<forall>a. page_of a \<in> tree_pages root (mem M) \<longrightarrow> mem M' a = mem M a"
    and "kpmm_ok (kpmm M')" "fixed_ok fixed (kpmm M')" "kpmm_owned (kpmm M) \<subseteq> kpmm_owned (kpmm M')"
  shows "tree_wf fixed req root M'" and "tree_pages root (mem M') = tree_pages root (mem M)"
proof -
  note t = tab_frame [OF assms(1,2)]
  show pages: "tree_pages root (mem M') = tree_pages root (mem M)" using t(1) by (auto simp: tree_pages_def)
  have "tree_pages root (mem M) \<subseteq> kpmm_owned (kpmm M') \<union> fixed"
    using assms(1,5) unfolding tree_wf_def by blast
  moreover have "\<not> bit (table_get (mem M') p i) 7 \<and> table_get (mem M') p i AND req = req"
    if "slot_path q" "tab (mem M) root q = Some p" "slot_ok q i" "bit (table_get (mem M') p i) 0" for q p i
    using that tree_wfD(5) [OF assms(1) that(1-3)] t(2) [OF that(1,2)] by (simp add: slot_ok_def)
  moreover note tree_wfD(4) [OF assms(1)]
  ultimately show "tree_wf fixed req root M'"
    using assms(3,4) unfolding tree_wf_def pages by (simp add: t(1))
qed

section \<open>A concrete machine\<close>

definition sample_machine :: machine where
  "sample_machine = \<lparr>mem = (\<lambda>_. 0), kpmm = sample_pmm, cr3 = 0x1000\<rparr>"

end
