(* ===== verification/Address_Space.thy ===== *)
theory Address_Space
  imports Slot_Map
begin

text \<open>
  User address spaces, \<^verbatim>\<open>kernel/mm/address_space.c\<close>: creation, mapping of user pages in
  root slot 1, translation, activation and destruction. A pointer parameter that the code
  compares with null is an option; the result code is an \<open>int\<close>.
\<close>

section \<open>Operations\<close>

record address_space =
  pml4_physical :: u64

definition PAGE_OFFSET_MASK :: u64 where
  "PAGE_OFFSET_MASK = 0xFFF"

definition SB_USER_BASE :: u64 where
  "SB_USER_BASE = 0x0000008000000000"

definition SB_USER_STACK_TOP :: u64 where
  "SB_USER_STACK_TOP = 0x0000008000100000"

definition SB_USER_PML4_INDEX :: u64 where
  "SB_USER_PML4_INDEX = drop_bit 39 SB_USER_BASE AND 0x1FF"

definition SB_USER_LIMIT :: u64 where
  "SB_USER_LIMIT = 0x0000800000000000"

definition address_space_create :: "address_space option \<Rightarrow> machine \<Rightarrow> int \<times> address_space option \<times> machine" where
  "address_space_create space M =
     (case space of None \<Rightarrow> (-1, None, M)
      | Some sp \<Rightarrow>
          let (pml4_page, p) = kpmm_alloc_page (kpmm M); M = M\<lparr>kpmm := p\<rparr> in
          if pml4_page = 0 then (-1, Some sp, M)
          else
            let M = M\<lparr>mem := zero_page pml4_page (mem M)\<rparr>;
                current = cr3 M AND ENTRY_ADDR_MASK;
                M = M\<lparr>mem := table_set pml4_page 0 (table_get (mem M) current 0) (mem M)\<rparr> in
            (0, Some (sp\<lparr>pml4_physical := pml4_page\<rparr>), M))"

definition address_space_map_user ::
    "address_space option \<Rightarrow> u64 \<Rightarrow> u64 \<Rightarrow> u64 \<Rightarrow> machine \<Rightarrow> int \<times> machine" where
  "address_space_map_user space virtual_address physical_address flags M =
     (case space of None \<Rightarrow> (-1, M)
      | Some sp \<Rightarrow>
          if virtual_address AND PAGE_OFFSET_MASK \<noteq> 0 \<or> physical_address AND PAGE_OFFSET_MASK \<noteq> 0 \<or>
             ucast (pml4_index virtual_address) \<noteq> SB_USER_PML4_INDEX \<or> virtual_address \<ge> SB_USER_LIMIT
          then (-1, M)
          else
            let pml4 = pml4_physical sp;
                user_flags = flags OR SB_VMM_USER;
                (pdpt, M) = ensure_table pml4 (pml4_index virtual_address) user_flags M in
            if pdpt = 0 then (-1, M)
            else let (pd, M) = ensure_table pdpt (pdpt_index virtual_address) user_flags M in
            if pd = 0 then (-1, M)
            else let (pt, M) = ensure_table pd (pd_index virtual_address) user_flags M in
            if pt = 0 then (-1, M)
            else
              let index = unat (pt_index virtual_address) in
              if table_get (mem M) pt index AND SB_VMM_PRESENT \<noteq> 0 then (-2, M)
              else (0, M\<lparr>mem := table_set pt index
                     ((physical_address AND ENTRY_ADDR_MASK) OR SB_VMM_PRESENT OR SB_VMM_USER OR
                      (flags AND (SB_VMM_WRITABLE OR SB_VMM_NX))) (mem M)\<rparr>))"

definition address_space_translate_user ::
    "address_space option \<Rightarrow> u64 \<Rightarrow> u64 option \<Rightarrow> machine \<Rightarrow> int \<times> u64 option" where
  "address_space_translate_user space virtual_address physical_address M =
     (case (space, physical_address) of
        (Some sp, Some _) \<Rightarrow>
          if ucast (pml4_index virtual_address) \<noteq> SB_USER_PML4_INDEX \<or> virtual_address \<ge> SB_USER_LIMIT
          then (-1, physical_address)
          else
            let pu = SB_VMM_PRESENT OR SB_VMM_USER;
                pml4 = pml4_physical sp;
                e4 = table_get (mem M) pml4 (unat (pml4_index virtual_address)) in
            if e4 AND pu \<noteq> pu then (-1, physical_address)
            else let pdpt = table_from_entry e4;
                     e3 = table_get (mem M) pdpt (unat (pdpt_index virtual_address)) in
            if e3 AND pu \<noteq> pu then (-1, physical_address)
            else let pd = table_from_entry e3;
                     e2 = table_get (mem M) pd (unat (pd_index virtual_address)) in
            if e2 AND pu \<noteq> pu then (-1, physical_address)
            else let pt = table_from_entry e2;
                     e1 = table_get (mem M) pt (unat (pt_index virtual_address)) in
            if e1 AND pu \<noteq> pu then (-1, physical_address)
            else (0, Some ((e1 AND ENTRY_ADDR_MASK) OR (virtual_address AND PAGE_OFFSET_MASK)))
      | _ \<Rightarrow> (-1, physical_address))"

definition address_space_activate :: "address_space option \<Rightarrow> machine \<Rightarrow> int \<times> machine" where
  "address_space_activate space M =
     (case space of None \<Rightarrow> (-1, M)
      | Some sp \<Rightarrow> if pml4_physical sp = 0 then (-1, M) else (0, M\<lparr>cr3 := pml4_physical sp\<rparr>))"

definition address_space_destroy :: "address_space option \<Rightarrow> machine \<Rightarrow> address_space option \<times> machine" where
  "address_space_destroy space M =
     (case space of None \<Rightarrow> (None, M)
      | Some sp \<Rightarrow>
          if pml4_physical sp = 0 then (Some sp, M)
          else (Some (sp\<lparr>pml4_physical := 0\<rparr>), M\<lparr>kpmm := kpmm_free_page (pml4_physical sp) (kpmm M)\<rparr>))"

section \<open>Addresses of the user slot\<close>

definition user_address :: "u64 \<Rightarrow> bool" where
  "user_address a \<longleftrightarrow> pml4_index a = 1 \<and> a < SB_USER_LIMIT"

lemma user_pml4_index: "SB_USER_PML4_INDEX = 1"
  by (simp add: SB_USER_PML4_INDEX_def SB_USER_BASE_def drop_bit_eq_div)

lemma user_slot: "ucast (pml4_index a) = SB_USER_PML4_INDEX \<longleftrightarrow> pml4_index a = 1"
  by (simp add: user_pml4_index word_unat_eq_iff)

lemma page_offset: "a AND PAGE_OFFSET_MASK = 0 \<longleftrightarrow> page_aligned a"
  by (simp add: page_aligned_def PAGE_OFFSET_MASK_def SB_PAGE_SIZE_def)

lemma user_page_inj:
  assumes "user_address a" "user_address b" "page_aligned a" "page_aligned b"
    and "pdpt_index a = pdpt_index b" "pd_index a = pd_index b" "pt_index a = pt_index b"
  shows "a = b"
proof (rule bit_word_eqI)
  fix n assume "n < LENGTH(64)"
  have hi: "\<not> bit x n" if "user_address x" "47 \<le> n" for x
    using that by (intro small_high_bits [of x 47]) (simp_all add: user_address_def SB_USER_LIMIT_def word_less_nat_alt)
  have p4: "pml4_index a = pml4_index b" using assms(1,2) by (simp add: user_address_def)
  consider "n < 12" | "12 \<le> n" "n < 21" | "21 \<le> n" "n < 30" | "30 \<le> n" "n < 39" | "39 \<le> n" "n < 47" | "47 \<le> n"
    by linarith
  then show "bit a n \<longleftrightarrow> bit b n"
  proof cases
    case 1
    then show ?thesis using aligned_low_bits assms(3,4) by blast
  next
    case 2
    then show ?thesis using bit_from_index(4) [of n a] bit_from_index(4) [of n b] assms(7) by simp
  next
    case 3
    then show ?thesis using bit_from_index(3) [of n a] bit_from_index(3) [of n b] assms(6) by simp
  next
    case 4
    then show ?thesis using bit_from_index(2) [of n a] bit_from_index(2) [of n b] assms(5) by simp
  next
    case 5
    then show ?thesis using bit_from_index(1) [of n a] bit_from_index(1) [of n b] p4 by simp
  qed (use hi assms(1,2) in blast)
qed

lemma page_of_limit: "page_of a < SB_USER_LIMIT \<longleftrightarrow> a < SB_USER_LIMIT"
proof -
  have e: "unat SB_USER_LIMIT = 4096 * 34359738368" by (simp add: SB_USER_LIMIT_def)
  show ?thesis
    using div_less_iff_less_mult [of 4096 "unat a" 34359738368]
    by (simp add: word_less_nat_alt unat_page_of e mult.commute)
qed

lemma user_address_page_of [simp]: "user_address (page_of a) \<longleftrightarrow> user_address a"
  by (simp add: user_address_def page_of_limit)

section \<open>The user map\<close>

text \<open>
  The abstract content of an address space: a finite partial function from page-aligned user
  addresses to the leaf entries of present pages.
\<close>

definition space_wf :: "address_space \<Rightarrow> machine \<Rightarrow> bool" where
  "space_wf sp M \<longleftrightarrow> tree_wf {} SB_VMM_USER (pml4_physical sp) M"

definition space_tables :: "address_space \<Rightarrow> machine \<Rightarrow> u64 set" where
  "space_tables sp M = tree_pages (pml4_physical sp) (mem M)"

definition user_pte :: "address_space \<Rightarrow> machine \<Rightarrow> u64 \<Rightarrow> u64" where
  "user_pte sp M a = slot_pte (pml4_physical sp) M a"

definition user_map :: "address_space \<Rightarrow> machine \<Rightarrow> u64 \<Rightarrow> u64 option" where
  "user_map sp M a =
     (if user_address a \<and> page_aligned a \<and> bit (user_pte sp M a) 0 then Some (user_pte sp M a) else None)"

definition user_entry :: "u64 \<Rightarrow> u64 \<Rightarrow> u64" where
  "user_entry pa flags =
     (pa AND ENTRY_ADDR_MASK) OR SB_VMM_PRESENT OR SB_VMM_USER OR (flags AND (SB_VMM_WRITABLE OR SB_VMM_NX))"

lemma user_pte_page_of [simp]: "user_pte sp M (page_of a) = user_pte sp M a"
  by (simp add: user_pte_def slot_pte_def)

lemma user_req: "e AND SB_VMM_USER = SB_VMM_USER \<longleftrightarrow> bit e 2"
  by (simp add: and_req)

lemma user_entry_bits: "bit (user_entry pa flags) 0" "bit (user_entry pa flags) 2" "\<not> bit (user_entry pa flags) 7"
  by (auto simp: user_entry_def bit_or_iff bit_and_iff)

lemma user_entry_addr: "user_entry pa flags AND ENTRY_ADDR_MASK = pa AND ENTRY_ADDR_MASK"
  unfolding user_entry_def by (rule bit_word_eqI) (auto simp: bit_simps)

lemma level_bits:
  assumes "space_wf sp M" "slot_path q" "tab (mem M) (pml4_physical sp) q = Some p" "slot_ok q i"
  shows "bit (table_get (mem M) p i) 0 \<Longrightarrow> bit (table_get (mem M) p i) 2"
  using tree_wfD(5) [OF assms(1) [unfolded space_wf_def] assms(2-4)] by (simp add: user_req)

lemma translate_user_eq:
  assumes "space_wf sp M"
  shows "address_space_translate_user (Some sp) a (Some x) M =
    (if user_address a \<and> bit (user_pte sp M a) 0
     then (0, Some ((user_pte sp M a AND ENTRY_ADDR_MASK) OR (a AND PAGE_OFFSET_MASK)))
     else (-1, Some x))"
proof (cases "user_address a")
  case False
  then show ?thesis by (auto simp: address_space_translate_user_def user_slot user_address_def)
next
  case True
  let ?m = "mem M" and ?r = "pml4_physical sp"
  let ?e4 = "table_get ?m ?r 1"
  let ?e3 = "table_get ?m (table_from_entry ?e4) (unat (pdpt_index a))"
  let ?e2 = "table_get ?m (table_from_entry ?e3) (unat (pd_index a))"
  let ?e1 = "table_get ?m (table_from_entry ?e2) (unat (pt_index a))"
  have b4: "bit ?e4 0 \<Longrightarrow> bit ?e4 2"
    by (rule level_bits [OF assms slot_path_Nil tab.simps(1) slot_oks(1)])
  have b3: "bit ?e4 0 \<Longrightarrow> bit ?e3 0 \<Longrightarrow> bit ?e3 2"
    by (rule level_bits [OF assms slot_paths(1) _ slot_oks(2)]) simp_all
  have b2: "bit ?e4 0 \<Longrightarrow> bit ?e3 0 \<Longrightarrow> bit ?e2 0 \<Longrightarrow> bit ?e2 2"
    by (rule level_bits [OF assms slot_paths(2) [of a] _ slot_oks(3)]) simp_all
  have b1: "bit ?e4 0 \<Longrightarrow> bit ?e3 0 \<Longrightarrow> bit ?e2 0 \<Longrightarrow> bit ?e1 0 \<Longrightarrow> bit ?e1 2"
    by (rule level_bits [OF assms slot_paths(3) [of a] _ slot_oks(4)]) simp_all
  have pte: "user_pte sp M a = (if bit ?e4 0 \<and> bit ?e3 0 \<and> bit ?e2 0 then ?e1 else 0)"
    by (simp add: user_pte_def slot_pte_def leaf_def)
  show ?thesis
    using True b4 b3 b2 b1
    by (auto simp: address_space_translate_user_def user_pml4_index user_address_def user_present_bits pte Let_def)
qed

lemma map_user_path:
  "address_space_map_user (Some sp) va pa flags M =
     (if page_aligned va \<and> page_aligned pa \<and> user_address va
      then map_path (pml4_physical sp) va (flags OR SB_VMM_USER) (user_entry pa flags) M else (-1, M))"
  by (auto simp: address_space_map_user_def map_path_def ensure_path_def page_offset user_slot user_address_def
      present_bit user_entry_def Let_def split: prod.splits)

lemma user_flags_req: "((flags OR SB_VMM_USER) AND (SB_VMM_WRITABLE OR SB_VMM_USER)) AND SB_VMM_USER = SB_VMM_USER"
  by (simp add: user_req bit_or_iff bit_and_iff)

lemma user_same_slot:
  "user_address a \<Longrightarrow> user_address va \<Longrightarrow> page_aligned va \<Longrightarrow> same_slot a va \<longleftrightarrow> page_of a = va"
  using user_page_inj [of "page_of a" va] by (auto simp: same_slot_def)

definition map_frame :: "address_space \<Rightarrow> machine \<Rightarrow> machine \<Rightarrow> bool" where
  "map_frame sp M M' \<longleftrightarrow> slot_frame {} SB_VMM_USER (pml4_physical sp) M M'"

lemma map_frameD:
  assumes "map_frame sp M M'"
  shows "space_wf sp M'" "cr3 M' = cr3 M" "space_tables sp M \<subseteq> space_tables sp M'"
    "space_tables sp M' - space_tables sp M \<subseteq> kpmm_avail (kpmm M)"
    "kpmm_owned (kpmm M') = kpmm_owned (kpmm M) \<union> (space_tables sp M' - space_tables sp M)"
    "kpmm_avail (kpmm M') = kpmm_avail (kpmm M) - space_tables sp M'"
    "page_of b \<notin> space_tables sp M' \<Longrightarrow> mem M' b = mem M b"
  using assms by (simp_all add: map_frame_def slot_frame_def space_wf_def space_tables_def)

text \<open>What a call of \<open>address_space_map_user\<close> does, on each of its exits.\<close>

lemma map_user_all:
  assumes "space_wf sp M" "address_space_map_user (Some sp) va pa flags M = (r, M')"
  shows "map_frame sp M M' \<and>
    (\<forall>a. user_address a \<longrightarrow>
       user_pte sp M' a = (if r = 0 \<and> page_of a = va then user_entry pa flags else user_pte sp M a)) \<and>
    (r = 0 \<or> r = -1 \<or> r = -2) \<and>
    (r = -2 \<longleftrightarrow> page_aligned va \<and> page_aligned pa \<and> user_address va \<and> bit (user_pte sp M va) 0) \<and>
    (r = 0 \<longrightarrow> page_aligned va \<and> page_aligned pa \<and> user_address va \<and> \<not> bit (user_pte sp M va) 0) \<and>
    (r = -1 \<longrightarrow> page_aligned va \<and> page_aligned pa \<and> user_address va \<longrightarrow> card (kpmm_avail (kpmm M)) < 3)"
proof (cases "page_aligned va \<and> page_aligned pa \<and> user_address va")
  case False
  with assms(2) have "r = -1" "M' = M" by (auto simp: map_user_path)
  then show ?thesis
    using False frame_refl assms(1) by (auto simp: map_frame_def space_wf_def)
next
  case True
  then have m: "map_path (pml4_physical sp) va (flags OR SB_VMM_USER) (user_entry pa flags) M = (r, M')"
    and i4: "pml4_index va = 1"
    using assms(2) by (simp_all add: map_user_path user_address_def)
  have v: "\<not> bit (user_entry pa flags) 7 \<and> user_entry pa flags AND SB_VMM_USER = SB_VMM_USER"
    by (simp add: user_entry_bits user_req)
  from map_path_all [OF assms(1) [unfolded space_wf_def] i4 user_flags_req v m] True show ?thesis
    using user_same_slot [of _ va] by (auto simp: map_frame_def user_pte_def)
qed

lemma map_user_effect:
  assumes "space_wf sp M" "address_space_map_user (Some sp) va pa flags M = (r, M')"
  shows "map_frame sp M M'"
    and "user_address a \<Longrightarrow> user_pte sp M' a = (if r = 0 \<and> page_of a = va then user_entry pa flags else user_pte sp M a)"
    and "r = 0 \<or> r = -1 \<or> r = -2"
    and "r = -2 \<longleftrightarrow> page_aligned va \<and> page_aligned pa \<and> user_address va \<and> bit (user_pte sp M va) 0"
    and "r = 0 \<Longrightarrow> page_aligned va \<and> page_aligned pa \<and> user_address va \<and> \<not> bit (user_pte sp M va) 0"
    and "r = -1 \<Longrightarrow> page_aligned va \<Longrightarrow> page_aligned pa \<Longrightarrow> user_address va \<Longrightarrow> card (kpmm_avail (kpmm M)) < 3"
  using map_user_all [OF assms] by blast+

lemma user_map_update:
  assumes "space_wf sp M" "address_space_map_user (Some sp) va pa flags M = (r, M')"
  shows "user_map sp M' = (if r = 0 then (user_map sp M)(va \<mapsto> user_entry pa flags) else user_map sp M)"
proof
  fix a
  show "user_map sp M' a = (if r = 0 then (user_map sp M)(va \<mapsto> user_entry pa flags) else user_map sp M) a"
    using map_user_effect(2) [OF assms, of a] map_user_effect(5) [OF assms] page_of_id [of a] user_entry_bits(1)
    by (auto simp: user_map_def)
qed

section \<open>Creation\<close>

lemma empty_tables:
  assumes "\<not> bit (table_get m root 1) 0"
  shows "tree_pages root m = {root}" and "slot_path q \<Longrightarrow> tab m root q = (if q = [] then Some root else None)"
proof -
  show t: "tab m root q = (if q = [] then Some root else None)" if "slot_path q" for q
    using that
  proof (induction q rule: rev_induct)
    case (snoc i q)
    then have "slot_path q" "q = [] \<Longrightarrow> i = 1" unfolding slot_path_snoc by (simp_all add: slot_ok_def)
    with snoc.IH assms show ?case by (cases "q = []") (simp_all add: tab_snoc)
  qed simp
  then show "tree_pages root m = {root}"
    by (auto simp: tree_pages_def split: if_splits intro: exI [of _ "[]"])
qed

lemma create_effect:
  assumes "kpmm_ok (kpmm M)" "address_space_create (Some sp) M = (r, sp', M')"
  shows "r = 0 \<Longrightarrow> \<exists>root. sp' = Some (sp\<lparr>pml4_physical := root\<rparr>) \<and> root \<in> kpmm_avail (kpmm M) \<and>
      kpmm_owned (kpmm M') = insert root (kpmm_owned (kpmm M)) \<and> kpmm_ok (kpmm M') \<and>
      kpmm_avail (kpmm M') = kpmm_avail (kpmm M) - {root} \<and> cr3 M' = cr3 M \<and>
      (\<forall>i < 512. table_get (mem M') root i =
         (if i = 0 \<and> cr3 M AND ENTRY_ADDR_MASK \<noteq> root then table_get (mem M) (cr3 M AND ENTRY_ADDR_MASK) 0 else 0)) \<and>
      (\<forall>a. page_of a \<noteq> root \<longrightarrow> mem M' a = mem M a)"
    and "r \<noteq> 0 \<Longrightarrow> r = -1 \<and> sp' = Some sp \<and> M' = M \<and> kpmm_avail (kpmm M) = {}"
proof -
  obtain c pp where c: "kpmm_alloc_page (kpmm M) = (c, pp)" by fastforce
  have cur: "page_aligned (cr3 M AND ENTRY_ADDR_MASK)"
    unfolding page_aligned_def page_mask_eq by (rule bit_word_eqI) (auto simp: bit_simps)
  show "r = 0 \<Longrightarrow> \<exists>root. sp' = Some (sp\<lparr>pml4_physical := root\<rparr>) \<and> root \<in> kpmm_avail (kpmm M) \<and>
      kpmm_owned (kpmm M') = insert root (kpmm_owned (kpmm M)) \<and> kpmm_ok (kpmm M') \<and>
      kpmm_avail (kpmm M') = kpmm_avail (kpmm M) - {root} \<and> cr3 M' = cr3 M \<and>
      (\<forall>i < 512. table_get (mem M') root i =
         (if i = 0 \<and> cr3 M AND ENTRY_ADDR_MASK \<noteq> root then table_get (mem M) (cr3 M AND ENTRY_ADDR_MASK) 0 else 0)) \<and>
      (\<forall>a. page_of a \<noteq> root \<longrightarrow> mem M' a = mem M a)"
  proof -
    assume "r = 0"
    then have nz: "c \<noteq> 0" using assms(2) c by (auto simp: address_space_create_def Let_def)
    note al = kp.alloc_nonnull [OF assms(1) c nz]
    have eqs: "sp' = Some (sp\<lparr>pml4_physical := c\<rparr>)" "kpmm M' = pp" "cr3 M' = cr3 M"
      "mem M' = table_set c 0 (table_get (zero_page c (mem M)) (cr3 M AND ENTRY_ADDR_MASK) 0) (zero_page c (mem M))"
      using assms(2) c nz by (auto simp: address_space_create_def Let_def)
    then show ?thesis
      using al cur by (intro exI [of _ c]) (simp add: table_get_set zero_page_get table_set_other zero_page_other)
  qed
  show "r \<noteq> 0 \<Longrightarrow> r = -1 \<and> sp' = Some sp \<and> M' = M \<and> kpmm_avail (kpmm M) = {}"
    using assms(2) c kp.alloc_null [OF assms(1) c] kp.alloc_null_state [OF assms(1), of pp]
    by (auto simp: address_space_create_def Let_def split: if_splits)
qed

lemma create_space:
  assumes "kpmm_ok (kpmm M)" "address_space_create (Some sp0) M = (0, sp', M')"
  obtains sp where "sp' = Some sp" "space_wf sp M'" "user_map sp M' = Map.empty"
    "space_tables sp M' = {pml4_physical sp}" "pml4_physical sp \<in> kpmm_avail (kpmm M)"
    "kpmm_owned (kpmm M') = insert (pml4_physical sp) (kpmm_owned (kpmm M))"
    "\<forall>a. page_of a \<noteq> pml4_physical sp \<longrightarrow> mem M' a = mem M a"
proof -
  obtain root where r: "sp' = Some (sp0\<lparr>pml4_physical := root\<rparr>)" "root \<in> kpmm_avail (kpmm M)"
      "kpmm_owned (kpmm M') = insert root (kpmm_owned (kpmm M))" "kpmm_ok (kpmm M')"
      "\<forall>i < 512. table_get (mem M') root i =
         (if i = 0 \<and> cr3 M AND ENTRY_ADDR_MASK \<noteq> root then table_get (mem M) (cr3 M AND ENTRY_ADDR_MASK) 0 else 0)"
      "\<forall>a. page_of a \<noteq> root \<longrightarrow> mem M' a = mem M a"
    using create_effect(1) [OF assms] by blast
  let ?sp = "sp0\<lparr>pml4_physical := root\<rparr>"
  have no: "\<not> bit (table_get (mem M') root 1) 0" using r(5) by simp
  note t = empty_tables [OF no]
  have wf: "space_wf ?sp M'"
    using r(3,4) no by (auto simp: space_wf_def tree_wf_def t fixed_ok_def slot_ok_def split: if_splits)
  have "user_map ?sp M' = Map.empty"
    using t(2) [OF slot_paths(3)] by (auto simp: user_map_def user_pte_def slot_pte_def leaf_def)
  with wf r t(1) show ?thesis by (intro that [of ?sp]) (simp_all add: space_tables_def)
qed

section \<open>Properties\<close>

text \<open>
  C2. On a well-formed address space \<open>address_space_map_user\<close> is an update of a
  partial function from user pages to entries. It returns 0 only for page-aligned addresses in the
  user slot whose page is not mapped, and then exactly that page becomes mapped, to the masked
  physical address with the present and user bits and the caller's writable and no-execute bits;
  it returns -2 exactly when such a page is already mapped; it returns -1 otherwise, and for valid
  arguments only when fewer than three pages are available for tables. In every case the map is otherwise unchanged,
  the table tree stays well formed, new tables come from available pages, and no byte outside the
  tables of this space is written.
\<close>

theorem map_user_refines:
  assumes "space_wf sp M" "address_space_map_user (Some sp) va pa flags M = (r, M')"
  shows "user_map sp M' = (if r = 0 then (user_map sp M)(va \<mapsto> user_entry pa flags) else user_map sp M) \<and>
    map_frame sp M M' \<and> r \<in> {0, -1, -2} \<and>
    (r = -2 \<longleftrightarrow> page_aligned pa \<and> va \<in> dom (user_map sp M)) \<and>
    (r = 0 \<longrightarrow> page_aligned va \<and> page_aligned pa \<and> user_address va \<and> va \<notin> dom (user_map sp M)) \<and>
    (r = -1 \<longrightarrow> \<not> (page_aligned va \<and> page_aligned pa \<and> user_address va) \<or> card (kpmm_avail (kpmm M)) < 3)"
  using user_map_update [OF assms] map_user_effect [OF assms] by (auto simp: user_map_def split: if_splits)

definition sample_space :: "address_space \<times> machine" where
  "sample_space =
     (let (r, sp, M) = address_space_create (Some \<lparr>pml4_physical = 0\<rparr>) sample_machine in (the sp, M))"

lemma sample_create:
  obtains M where "address_space_create (Some \<lparr>pml4_physical = 0\<rparr>) sample_machine = (0, Some (fst sample_space), M)"
    "snd sample_space = M"
proof -
  obtain r sp M where c: "address_space_create (Some \<lparr>pml4_physical = 0\<rparr>) sample_machine = (r, sp, M)"
    by (metis prod_cases3)
  have ok: "kpmm_ok (kpmm sample_machine)" by (simp add: sample_machine_def sample_pmm)
  have "r = 0"
    using create_effect(2) [OF ok c] by (auto simp: sample_machine_def sample_pmm)
  then obtain s where "sp = Some s" using create_effect(1) [OF ok c] by blast
  with c \<open>r = 0\<close> show ?thesis by (intro that [of M]) (simp_all add: sample_space_def)
qed

lemma sample_space_facts:
  "space_wf (fst sample_space) (snd sample_space)" "user_map (fst sample_space) (snd sample_space) = Map.empty"
  "kpmm_avail (kpmm (snd sample_space)) = page_address ` {4096..<16384} - {pml4_physical (fst sample_space)}"
  "cr3 (snd sample_space) = 0x1000" "kpmm_ok (kpmm (snd sample_space))"
proof -
  obtain M where c: "address_space_create (Some \<lparr>pml4_physical = 0\<rparr>) sample_machine = (0, Some (fst sample_space), M)"
    and M: "snd sample_space = M" by (rule sample_create)
  have ok: "kpmm_ok (kpmm sample_machine)" by (simp add: sample_machine_def sample_pmm)
  show "space_wf (fst sample_space) (snd sample_space)" "user_map (fst sample_space) (snd sample_space) = Map.empty"
    using create_space [OF ok c] M by blast+
  show "kpmm_avail (kpmm (snd sample_space)) = page_address ` {4096..<16384} - {pml4_physical (fst sample_space)}"
    "cr3 (snd sample_space) = 0x1000" "kpmm_ok (kpmm (snd sample_space))"
    using create_effect(1) [OF ok c] M by (auto simp: sample_machine_def sample_pmm)
qed

lemma sample_space_card: "12287 \<le> card (kpmm_avail (kpmm (snd sample_space)))"
  using sample_pmm_card by (simp add: sample_space_facts(3) sample_pmm(3) card_Diff_singleton_if)

theorem map_user_refines_witness:
  "\<exists>r M'. address_space_map_user (Some (fst sample_space)) 0x8000001000 0x2000000 SB_VMM_WRITABLE (snd sample_space) = (r, M') \<and>
     map_frame (fst sample_space) (snd sample_space) M' \<and> r \<in> {0, -1, -2}"
proof -
  obtain r M' where "address_space_map_user (Some (fst sample_space)) 0x8000001000 0x2000000 SB_VMM_WRITABLE (snd sample_space) = (r, M')"
    by fastforce
  with map_user_refines [OF sample_space_facts(1) this] show ?thesis by blast
qed

text \<open>
  After a successful mapping of the page \<open>va\<close> to the frame \<open>pa\<close>, every
  address of that page translates to the same offset in the frame, and every other address, in
  the user slot or not, translates exactly as before.
\<close>

theorem map_user_translate:
  assumes "space_wf sp M" "address_space_map_user (Some sp) va pa flags M = (0, M')"
  shows "address_space_translate_user (Some sp) a (Some x) M' =
    (if page_of a = va then (0, Some ((pa AND ENTRY_ADDR_MASK) OR (a AND PAGE_OFFSET_MASK)))
     else address_space_translate_user (Some sp) a (Some x) M)"
proof -
  have wf: "space_wf sp M'" by (rule map_frameD(1) [OF map_user_effect(1) [OF assms]])
  have "user_address va" using map_user_effect(5) [OF assms] by simp
  then have "user_address a" if "page_of a = va" using that user_address_page_of [of a] by simp
  then show ?thesis
    using map_user_effect(2) [OF assms, of a] user_entry_bits(1) [of pa flags] user_entry_addr [of pa flags]
    unfolding translate_user_eq [OF wf] translate_user_eq [OF assms(1)]
    by (cases "page_of a = va") auto
qed

lemma sample_map:
  obtains M' where "address_space_map_user (Some (fst sample_space)) 0x8000001000 0x2000000 SB_VMM_WRITABLE (snd sample_space) = (0, M')"
proof -
  obtain r M' where m: "address_space_map_user (Some (fst sample_space)) 0x8000001000 0x2000000 SB_VMM_WRITABLE (snd sample_space) = (r, M')"
    by fastforce
  have "page_aligned 0x8000001000" "page_aligned 0x2000000" "user_address 0x8000001000"
    by (simp_all add: page_aligned_def SB_PAGE_SIZE_def user_address_def pml4_index_def drop_bit_eq_div SB_USER_LIMIT_def)
  then have "r = 0"
    using map_user_effect(3,4,6) [OF sample_space_facts(1) m] sample_space_card fun_cong [OF sample_space_facts(2), of "0x8000001000"]
    by (auto simp: user_map_def split: if_splits)
  with m show ?thesis by (intro that) simp
qed

theorem map_user_translate_witness:
  "\<exists>M'. address_space_map_user (Some (fst sample_space)) 0x8000001000 0x2000000 SB_VMM_WRITABLE (snd sample_space) = (0, M') \<and>
     address_space_translate_user (Some (fst sample_space)) 0x8000001234 (Some 0) M' = (0, Some 0x2000234)"
proof -
  obtain M' where m: "address_space_map_user (Some (fst sample_space)) 0x8000001000 0x2000000 SB_VMM_WRITABLE (snd sample_space) = (0, M')"
    by (rule sample_map)
  with map_user_translate [OF sample_space_facts(1) m, of "0x8000001234" 0] show ?thesis
    by (auto simp: page_of_def SB_PAGE_SIZE_def ENTRY_ADDR_MASK_def PAGE_OFFSET_MASK_def)
qed

lemma other_space_frame:
  assumes "space_wf sp2 M" "kpmm_ok (kpmm M')" "kpmm_owned (kpmm M) \<subseteq> kpmm_owned (kpmm M')"
    and "\<forall>a. page_of a \<in> space_tables sp2 M \<longrightarrow> mem M' a = mem M a"
  shows "space_wf sp2 M' \<and> space_tables sp2 M' = space_tables sp2 M \<and>
    address_space_translate_user (Some sp2) a (Some x) M' = address_space_translate_user (Some sp2) a (Some x) M"
proof -
  have fr: "\<forall>a. page_of a \<in> tree_pages (pml4_physical sp2) (mem M) \<longrightarrow> mem M' a = mem M a"
    using assms(4) by (simp add: space_tables_def)
  have wf: "tree_wf {} SB_VMM_USER (pml4_physical sp2) M" using assms(1) by (simp add: space_wf_def)
  note t = tree_frame [OF wf fr assms(2) _ assms(3)]
  have wf': "space_wf sp2 M'" using t(1) by (simp add: space_wf_def fixed_ok_def)
  have "user_pte sp2 M' a = user_pte sp2 M a"
    using tab_frame [OF wf fr slot_paths(3) [of a]] index_less(4) [of a]
    by (auto simp: user_pte_def slot_pte_def leaf_def split: option.split)
  then show ?thesis
    using wf' t(2) by (simp add: space_tables_def translate_user_eq [OF wf'] translate_user_eq [OF assms(1)] fixed_ok_def)
qed

lemma space_tables_owned: "space_wf sp M \<Longrightarrow> space_tables sp M \<subseteq> kpmm_owned (kpmm M)"
  by (auto simp: space_wf_def tree_wf_def space_tables_def)

text \<open>
  C5. Two address spaces that share no table page do not influence each other: a
  call of \<open>address_space_map_user\<close> on one, whatever its arguments and result, leaves the other
  well formed with the same tables and the same translation of every address, and the two still
  share no table page.
\<close>

theorem spaces_isolated:
  assumes "space_wf sp M" "space_wf sp2 M" "space_tables sp M \<inter> space_tables sp2 M = {}"
    and "address_space_map_user (Some sp) va pa flags M = (r, M')"
  shows "space_wf sp2 M' \<and> space_tables sp2 M' = space_tables sp2 M \<and>
    address_space_translate_user (Some sp2) a (Some x) M' = address_space_translate_user (Some sp2) a (Some x) M \<and>
    space_tables sp M' \<inter> space_tables sp2 M' = {}"
proof -
  note f = map_frameD [OF map_user_effect(1) [OF assms(1,4)]]
  have ok: "kpmm_ok (kpmm M)" "kpmm_ok (kpmm M')"
    using assms(1) f(1) by (simp_all add: space_wf_def tree_wf_def)
  have dis: "space_tables sp M' \<inter> space_tables sp2 M = {}"
    using f assms(3) space_tables_owned [OF assms(2)] kp.avail_owned [OF ok(1)] by blast
  then have "\<forall>a. page_of a \<in> space_tables sp2 M \<longrightarrow> mem M' a = mem M a" using f(7) by blast
  with other_space_frame [OF assms(2) ok(2)] f(5) dis show ?thesis by simp
qed

lemma create_beside:
  assumes "kpmm_ok (kpmm M)" "address_space_create (Some sp0) M = (0, Some sp, M')" "space_wf sp2 M"
  shows "space_wf sp M' \<and> user_map sp M' = Map.empty \<and> space_tables sp M' \<subseteq> kpmm_avail (kpmm M) \<and>
    space_wf sp2 M' \<and> space_tables sp2 M' = space_tables sp2 M \<and>
    address_space_translate_user (Some sp2) a (Some x) M' = address_space_translate_user (Some sp2) a (Some x) M \<and>
    space_tables sp M' \<inter> space_tables sp2 M' = {}"
proof -
  have c: "space_wf sp M'" "user_map sp M' = Map.empty" "space_tables sp M' = {pml4_physical sp}"
    "pml4_physical sp \<in> kpmm_avail (kpmm M)"
    "kpmm_owned (kpmm M') = insert (pml4_physical sp) (kpmm_owned (kpmm M))"
    "\<forall>a. page_of a \<noteq> pml4_physical sp \<longrightarrow> mem M' a = mem M a"
    using create_space [OF assms(1,2)] by blast+
  have dis: "pml4_physical sp \<notin> space_tables sp2 M"
    using c(4) space_tables_owned [OF assms(3)] kp.avail_owned [OF assms(1)] by blast
  then have fr: "\<forall>a. page_of a \<in> space_tables sp2 M \<longrightarrow> mem M' a = mem M a" using c(6) by metis
  have "kpmm_ok (kpmm M')" "kpmm_owned (kpmm M) \<subseteq> kpmm_owned (kpmm M')"
    using c(1,5) by (auto simp: space_wf_def tree_wf_def)
  from other_space_frame [OF assms(3) this fr, of a x] c dis show ?thesis by simp
qed

text \<open>
  When \<open>address_space_create\<close> succeeds, the new address space is well formed
  and maps nothing, its root carries the current kernel entry in slot 0, its only table is a page
  that was available, and every address space that existed before keeps its tables and the
  translation of every address and shares no table with the new one.
\<close>

theorem create_isolated:
  assumes "kpmm_ok (kpmm M)" "address_space_create (Some sp0) M = (0, Some sp, M')"
    and "space_wf sp2 M" "cr3 M AND ENTRY_ADDR_MASK \<notin> kpmm_avail (kpmm M)"
  shows "space_wf sp M' \<and> user_map sp M' = Map.empty \<and>
    table_get (mem M') (pml4_physical sp) 0 = table_get (mem M) (cr3 M AND ENTRY_ADDR_MASK) 0 \<and>
    space_tables sp M' \<subseteq> kpmm_avail (kpmm M) \<and>
    space_wf sp2 M' \<and> space_tables sp2 M' = space_tables sp2 M \<and>
    address_space_translate_user (Some sp2) a (Some x) M' = address_space_translate_user (Some sp2) a (Some x) M \<and>
    space_tables sp M' \<inter> space_tables sp2 M' = {}"
  using create_beside [OF assms(1-3)] create_effect(1) [OF assms(1,2)] assms(4) by auto

text \<open>A second address space beside the sample one.\<close>

lemma sample_pair:
  obtains sp2 M2 where "address_space_create (Some \<lparr>pml4_physical = 0\<rparr>) (snd sample_space) = (0, Some sp2, M2)"
proof -
  obtain r sp M where c: "address_space_create (Some \<lparr>pml4_physical = 0\<rparr>) (snd sample_space) = (r, sp, M)"
    by (metis prod_cases3)
  have "r = 0" using create_effect(2) [OF sample_space_facts(5) c] sample_space_card by (cases "r = 0") simp_all
  moreover from this obtain sp2 where "sp = Some sp2"
    using create_effect(1) [OF sample_space_facts(5) c] by blast
  ultimately show ?thesis using c that by simp
qed

lemma sample_cr3: "cr3 (snd sample_space) AND ENTRY_ADDR_MASK \<notin> kpmm_avail (kpmm (snd sample_space))"
proof -
  have "\<not> (4096 \<le> i \<and> i < 16384 \<and> page_address i = 0x1000)" for i
    using unat_page_address [of i] by (auto simp: word_unat_eq_iff)
  then show ?thesis by (auto simp: sample_space_facts(3,4) ENTRY_ADDR_MASK_def)
qed

theorem create_isolated_witness:
  "\<exists>sp2 M2. address_space_create (Some \<lparr>pml4_physical = 0\<rparr>) (snd sample_space) = (0, Some sp2, M2) \<and>
     space_wf sp2 M2 \<and> space_wf (fst sample_space) M2 \<and>
     space_tables sp2 M2 \<inter> space_tables (fst sample_space) M2 = {}"
proof -
  obtain sp2 M2 where c: "address_space_create (Some \<lparr>pml4_physical = 0\<rparr>) (snd sample_space) = (0, Some sp2, M2)"
    by (rule sample_pair)
  from create_isolated [OF sample_space_facts(5) c sample_space_facts(1) sample_cr3] c show ?thesis by blast
qed

theorem spaces_isolated_witness:
  "\<exists>sp2 M2 r M3. address_space_create (Some \<lparr>pml4_physical = 0\<rparr>) (snd sample_space) = (0, Some sp2, M2) \<and>
     address_space_map_user (Some sp2) 0x8000001000 0x2000000 SB_VMM_WRITABLE M2 = (r, M3) \<and>
     address_space_translate_user (Some (fst sample_space)) 0x8000001000 (Some 0) M3 =
       address_space_translate_user (Some (fst sample_space)) 0x8000001000 (Some 0) M2"
proof -
  obtain sp2 M2 where c: "address_space_create (Some \<lparr>pml4_physical = 0\<rparr>) (snd sample_space) = (0, Some sp2, M2)"
    by (rule sample_pair)
  have p: "space_wf sp2 M2" "space_wf (fst sample_space) M2"
    "space_tables sp2 M2 \<inter> space_tables (fst sample_space) M2 = {}"
    using create_beside [OF sample_space_facts(5) c sample_space_facts(1)] by blast+
  obtain r M3 where m: "address_space_map_user (Some sp2) 0x8000001000 0x2000000 SB_VMM_WRITABLE M2 = (r, M3)"
    by fastforce
  from spaces_isolated [OF p m] c m show ?thesis by blast
qed

end
