(* ===== verification/Arrays.thy ===== *)
theory Arrays
  imports Sb_Prelude "HOL-Library.Monad_Syntax"
begin

text \<open>
  Bounds-checked arrays for the code that works on buffers. A C array is a list; an access outside
  it has the value \<open>None\<close>, and so has every function that makes one. \<open>None\<close> also stands for a loop
  that never ends, so that a result \<open>Some r\<close> says that the code returns \<open>r\<close> after accesses that all
  stay inside their arrays.
\<close>

definition array_get :: "'a list \<Rightarrow> nat \<Rightarrow> 'a option" where
  "array_get xs i = (if i < length xs then Some (xs ! i) else None)"

definition array_set :: "nat \<Rightarrow> 'a \<Rightarrow> 'a list \<Rightarrow> 'a list option" where
  "array_set i v xs = (if i < length xs then Some (xs[i := v]) else None)"

primrec for_each :: "('i \<Rightarrow> 's \<Rightarrow> 's option) \<Rightarrow> 'i list \<Rightarrow> 's \<Rightarrow> 's option" where
  "for_each f [] s = Some s"
| "for_each f (i # is) s = do { s \<leftarrow> f i s; for_each f is s }"

text \<open>The loop that copies \<open>n\<close> bytes from offset \<open>si\<close> of one array to offset \<open>di\<close> of another.\<close>

definition copy_bytes :: "nat \<Rightarrow> 'a list \<Rightarrow> nat \<Rightarrow> nat \<Rightarrow> 'a list \<Rightarrow> 'a list option" where
  "copy_bytes n src si di dst =
     for_each (\<lambda>i dst. do { v \<leftarrow> array_get src (si + i); array_set (di + i) v dst }) [0..<n] dst"

text \<open>What the copy leaves in the destination.\<close>

definition patch :: "nat \<Rightarrow> 'a list \<Rightarrow> 'a list \<Rightarrow> 'a list" where
  "patch di new dst = take di dst @ new @ drop (di + length new) dst"

lemma array_get_in [simp]: "i < length xs \<Longrightarrow> array_get xs i = Some (xs ! i)"
  by (simp add: array_get_def)

lemma array_set_in [simp]: "i < length xs \<Longrightarrow> array_set i v xs = Some (xs[i := v])"
  by (simp add: array_set_def)

section \<open>Loops\<close>

lemma for_each_append: "for_each f (is @ js) s = do { s \<leftarrow> for_each f is s; for_each f js s }"
  by (induction "is" arbitrary: s) (auto split: Option.bind_split)

lemma for_each_cong:
  assumes "\<And>i s. i \<in> set is \<Longrightarrow> f i s = g i s"
  shows "for_each f is s = for_each g is s"
  using assms by (induction "is" arbitrary: s) (auto intro!: Option.bind_cong)

lemma for_each_inv:
  assumes "P s" "\<And>i s. i \<in> set is \<Longrightarrow> P s \<Longrightarrow> \<exists>s'. f i s = Some s' \<and> P s'"
  shows "\<exists>s'. for_each f is s = Some s' \<and> P s'"
  using assms by (induction "is" arbitrary: s) fastforce+

lemma for_each_upt:
  assumes "P 0 s" "\<And>i s. i < n \<Longrightarrow> P i s \<Longrightarrow> \<exists>s'. f i s = Some s' \<and> P (Suc i) s'"
  shows "\<exists>s'. for_each f [0..<n] s = Some s' \<and> P n s'"
  using assms
proof (induction n)
  case (Suc n)
  then obtain s' where "for_each f [0..<n] s = Some s'" "P n s'" by (metis less_SucI)
  then show ?case using Suc.prems(2) [of n s'] by (auto simp: for_each_append)
qed simp

section \<open>Splicing and copying\<close>

lemma length_patch [simp]: "di + length new \<le> length dst \<Longrightarrow> length (patch di new dst) = length dst"
  by (simp add: patch_def)

lemma patch_Nil [simp]: "patch di [] dst = dst"
  by (simp add: patch_def)

lemma nth_patch:
  assumes "di + length new \<le> length dst" "i < length dst"
  shows "patch di new dst ! i = (if di \<le> i \<and> i < di + length new then new ! (i - di) else dst ! i)"
  using assms by (auto simp: patch_def nth_append min_def)

lemma take_drop_patch: "di + length new \<le> length dst \<Longrightarrow> take (length new) (drop di (patch di new dst)) = new"
  by (simp add: patch_def)

lemma take_drop_patch_other:
  assumes "di + length new \<le> length dst" "a + n \<le> di \<or> di + length new \<le> a" "a + n \<le> length dst"
  shows "take n (drop a (patch di new dst)) = take n (drop a dst)"
  using assms by (intro nth_equalityI) (auto simp: nth_patch)

lemma patch_snoc:
  assumes "di + length new < length dst"
  shows "(patch di new dst)[di + length new := v] = patch di (new @ [v]) dst"
  using assms by (intro nth_equalityI) (auto simp: nth_patch nth_list_update nth_append)

lemma patch_patch_append:
  assumes "di + length xs + length ys \<le> length dst"
  shows "patch (di + length xs) ys (patch di xs dst) = patch di (xs @ ys) dst"
  using assms by (intro nth_equalityI) (auto simp: nth_patch nth_append)

lemma copy_bytes_Some:
  assumes "si + n \<le> length src" "di + n \<le> length dst"
  shows "copy_bytes n src si di dst = Some (patch di (take n (drop si src)) dst)"
  using assms
proof (induction n)
  case (Suc n)
  have "take (Suc n) (drop si src) = take n (drop si src) @ [src ! (si + n)]"
    using Suc.prems by (simp add: take_Suc_conv_app_nth)
  with Suc patch_snoc [of di "take n (drop si src)" dst "src ! (si + n)"] show ?case
    by (simp add: copy_bytes_def for_each_append array_get_def array_set_def)
qed (simp add: copy_bytes_def)

lemma copy_bytes_None:
  assumes "length src < si + n \<or> length dst < di + n" "0 < n"
  shows "copy_bytes n src si di dst = None"
proof (rule ccontr)
  assume "copy_bytes n src si di dst \<noteq> None"
  then obtain r where r: "copy_bytes n src si di dst = Some r" by auto
  have *: "si + m \<le> length src \<and> di + m \<le> length dst \<and> length r = length dst"
    if "0 < m" "copy_bytes m src si di dst = Some r" for m r using that
  proof (induction m arbitrary: r)
    case (Suc m)
    from Suc.prems obtain q where q: "copy_bytes m src si di dst = Some q" "si + m < length src"
        "di + m < length q" "length r = length q"
      by (auto simp: copy_bytes_def for_each_append array_get_def array_set_def bind_eq_Some_conv split: if_splits)
    with Suc.IH [of q] show ?case by (cases m) (auto simp: copy_bytes_def)
  qed simp
  from * [OF assms(2) r] assms(1) show False by auto
qed

lemma copy_bytes_index:
  assumes "\<And>i. i < n \<Longrightarrow> f i = si + i" "\<And>i. i < n \<Longrightarrow> g i = di + i"
  shows "for_each (\<lambda>i dst. do { v \<leftarrow> array_get src (f i); array_set (g i) v dst }) [0..<n] dst =
    copy_bytes n src si di dst"
  unfolding copy_bytes_def by (rule for_each_cong) (simp add: assms)

end
