(* ===== verification/Port_Io.thy ===== *)
theory Port_Io
  imports Arrays
begin

text \<open>
  Port input and output and the serial console. The devices behind the ports are not part of the
  sources: a record of port functions on a device state is an argument of every definition that
  uses a port, and a property that needs a device to behave states it as a hypothesis.

  The console printer is the same polling loop in \<^verbatim>\<open>kernel/kernel.c\<close>, \<^verbatim>\<open>kernel/pci.c\<close>,
  \<^verbatim>\<open>kernel/timer.c\<close>, \<^verbatim>\<open>kernel/scheduler.c\<close>, \<^verbatim>\<open>kernel/mm/heap.c\<close>, \<^verbatim>\<open>kernel/mm/vmm.c\<close> and
  \<^verbatim>\<open>kernel/arch/x86_64/gdt.c\<close>: it waits until the transmitter is empty and sends a character. It
  never returns if the transmitter stays busy, which is the value \<open>None\<close>.
\<close>

section \<open>Ports\<close>

record 'h port_io =
  inb :: "u16 \<Rightarrow> 'h \<Rightarrow> u8 \<times> 'h"
  outb :: "u16 \<Rightarrow> u8 \<Rightarrow> 'h \<Rightarrow> 'h"
  inw :: "u16 \<Rightarrow> 'h \<Rightarrow> u16 \<times> 'h"
  outw :: "u16 \<Rightarrow> u16 \<Rightarrow> 'h \<Rightarrow> 'h"
  inl :: "u16 \<Rightarrow> 'h \<Rightarrow> u32 \<times> 'h"
  outl :: "u16 \<Rightarrow> u32 \<Rightarrow> 'h \<Rightarrow> 'h"

section \<open>The console\<close>

definition serial_init :: "'h port_io \<Rightarrow> 'h \<Rightarrow> 'h" where
  "serial_init io h =
     (let h = outb io 0x3F9 0x00 h; h = outb io 0x3FB 0x80 h; h = outb io 0x3F8 0x03 h; h = outb io 0x3F9 0x00 h;
          h = outb io 0x3FB 0x03 h; h = outb io 0x3FA 0xC7 h in
      outb io 0x3FC 0x0B h)"

partial_function (option) serial_write_char :: "'h port_io \<Rightarrow> char \<Rightarrow> 'h \<Rightarrow> 'h option" where
  "serial_write_char io c h =
     (let (status, h) = inb io 0x3FD h in
      if status AND 0x20 \<noteq> 0 then Some (outb io 0x3F8 (of_char c) h)
      else serial_write_char io c h)"

primrec serial_write :: "'h port_io \<Rightarrow> string \<Rightarrow> 'h \<Rightarrow> 'h option" where
  "serial_write io [] h = Some h"
| "serial_write io (c # s) h = do { h \<leftarrow> serial_write_char io c h; serial_write io s h }"

definition crlf :: string where
  "crlf = [CHR 0x0D, CHR 0x0A]"

text \<open>The digits are collected from the low end into a buffer with room for \<open>space\<close> more
  characters and sent in reverse; the buffer is kept in the order in which it is sent.\<close>

definition hex_digits :: string where
  "hex_digits = ''0123456789ABCDEF''"

fun debug_collect :: "nat \<Rightarrow> u64 \<Rightarrow> string \<Rightarrow> string" where
  "debug_collect 0 value buffer = buffer"
| "debug_collect (Suc space) value buffer =
     (if value \<noteq> 0
      then debug_collect space (drop_bit 4 value) (hex_digits ! unat (value AND 0xF) # buffer)
      else buffer)"

definition serial_write_u64 :: "'h port_io \<Rightarrow> u64 \<Rightarrow> 'h \<Rightarrow> 'h option" where
  "serial_write_u64 io v h =
     (if v = 0 then serial_write_char io (CHR ''0'') h
      else do { h \<leftarrow> serial_write io ''0x'' h; serial_write io (debug_collect 16 v []) h })"

section \<open>Numbers\<close>

definition hex_value :: "char \<Rightarrow> nat" where
  "hex_value c = length (takeWhile (\<lambda>d. d \<noteq> c) hex_digits)"

definition of_hex :: "string \<Rightarrow> nat" where
  "of_hex s = foldl (\<lambda>n c. 16 * n + hex_value c) 0 s"

lemma hex_value_digit: "d < 16 \<Longrightarrow> hex_value (hex_digits ! d) = d"
proof -
  have "list_all (\<lambda>d. hex_value (hex_digits ! d) = d) [0..<16]"
    by (simp add: hex_value_def hex_digits_def upt_rec)
  then show "d < 16 \<Longrightarrow> hex_value (hex_digits ! d) = d" by (simp add: list_all_iff)
qed

lemma debug_collect_digits:
  "unat v < 16 ^ n \<Longrightarrow>
   \<exists>ds. debug_collect n v buffer = ds @ buffer \<and> of_hex ds = unat v \<and> length ds \<le> n \<and>
     (ds = [] \<longleftrightarrow> v = 0) \<and> (ds \<noteq> [] \<longrightarrow> hd ds \<noteq> CHR ''0'')"
proof (induction n arbitrary: v buffer)
  case 0
  then show ?case by (simp add: of_hex_def unat_eq_zero)
next
  case (Suc n)
  show ?case
  proof (cases "v = 0")
    case True
    then show ?thesis by (simp add: of_hex_def)
  next
    case False
    have lo: "unat (v AND 0xF) = unat v mod 16" and hi: "unat (drop_bit 4 v) = unat v div 16"
      using unat_and_mask [of v 4] by (simp_all add: mask_eq_exp_minus_1 drop_bit_eq_div unat_div)
    let ?c = "hex_digits ! (unat v mod 16)"
    have "unat (drop_bit 4 v) < 16 ^ n" using Suc.prems by (simp add: hi less_mult_imp_div_less mult.commute)
    from Suc.IH [OF this, of "?c # buffer"] obtain ds where ds:
      "debug_collect n (drop_bit 4 v) (?c # buffer) = ds @ ?c # buffer" "of_hex ds = unat v div 16" "length ds \<le> n"
      "ds \<noteq> [] \<longrightarrow> hd ds \<noteq> CHR ''0''" by (auto simp: hi)
    have "of_hex (ds @ [?c]) = unat v"
      using ds(2) hex_value_digit [of "unat v mod 16"] by (simp add: of_hex_def)
    moreover have "ds = [] \<Longrightarrow> ?c \<noteq> CHR ''0''"
    proof
      assume "ds = []" "?c = CHR ''0''"
      then have "unat v div 16 = 0" "unat v mod 16 = 0"
        using ds(2) hex_value_digit [of "unat v mod 16"] by (simp_all add: of_hex_def hex_value_def hex_digits_def)
      then show False using False by (metis mod_mult_div_eq mult_0_right add_0 unat_eq_zero)
    qed
    ultimately show ?thesis
      using False ds(1,3,4) lo by (intro exI [of _ "ds @ [?c]"]) (auto simp: hd_append)
  qed
qed

text \<open>A seventeenth step finds nothing left to print.\<close>

lemma debug_collect_more:
  "unat v < 16 ^ n \<Longrightarrow> debug_collect (Suc n) v buffer = debug_collect n v buffer"
proof (induction n arbitrary: v buffer)
  case 0
  then show ?case by (simp add: unat_eq_zero)
next
  case (Suc n)
  have "unat (drop_bit 4 v) < 16 ^ n"
    using Suc.prems by (simp add: drop_bit_eq_div unat_div less_mult_imp_div_less mult.commute)
  from Suc.IH [OF this] show ?case by (subst debug_collect.simps) simp
qed

section \<open>A console that works\<close>

text \<open>
  The documented behaviour of the transmitter: reading the line status does not send anything, the
  transmitter is empty after at most \<open>busy h\<close> reads of it, and a byte written to the data port
  is sent. \<open>sent\<close> is the text that has gone out.
\<close>

definition uart_ok :: "'h port_io \<Rightarrow> ('h \<Rightarrow> nat) \<Rightarrow> ('h \<Rightarrow> string) \<Rightarrow> bool" where
  "uart_ok io busy sent \<longleftrightarrow>
     (\<forall>h. let (status, h') = inb io 0x3FD h in
        sent h' = sent h \<and> (status AND 0x20 = 0 \<longrightarrow> busy h' < busy h)) \<and>
     (\<forall>h c. sent (outb io 0x3F8 (of_char c) h) = sent h @ [c])"

lemma serial_char_sent:
  assumes "uart_ok io busy sent"
  shows "\<exists>h'. serial_write_char io c h = Some h' \<and> sent h' = sent h @ [c]"
proof (induction "busy h" arbitrary: h rule: less_induct)
  case less
  obtain status h' where i: "inb io 0x3FD h = (status, h')" by (cases "inb io 0x3FD h")
  have h': "sent h' = sent h" "status AND 0x20 = 0 \<longrightarrow> busy h' < busy h"
  proof -
    have "let (status, h') = inb io 0x3FD h in sent h' = sent h \<and> (status AND 0x20 = 0 \<longrightarrow> busy h' < busy h)"
      using assms unfolding uart_ok_def by blast
    then show "sent h' = sent h" "status AND 0x20 = 0 \<longrightarrow> busy h' < busy h" by (simp_all add: i)
  qed
  have out: "sent (outb io 0x3F8 (of_char c) h') = sent h' @ [c]" using assms by (auto simp: uart_ok_def)
  show ?case
  proof (cases "status AND 0x20 = 0")
    case True
    then show ?thesis using less [of h'] h' i by (simp add: serial_write_char.simps [of io c h])
  next
    case False
    then show ?thesis using h' i out by (simp add: serial_write_char.simps [of io c h])
  qed
qed

lemma serial_write_sent:
  assumes "uart_ok io busy sent"
  shows "\<exists>h'. serial_write io s h = Some h' \<and> sent h' = sent h @ s"
proof (induction s arbitrary: h)
  case (Cons c s)
  obtain h1 where "serial_write_char io c h = Some h1" "sent h1 = sent h @ [c]"
    using serial_char_sent [OF assms] by blast
  then show ?case using Cons.IH [of h1] by auto
qed simp

lemma serial_u64_sent:
  assumes "uart_ok io busy sent"
  shows "\<exists>h'. serial_write_u64 io v h = Some h' \<and>
    sent h' = sent h @ (if v = 0 then ''0'' else ''0x'' @ debug_collect 16 v [])"
proof (cases "v = 0")
  case True
  then show ?thesis using serial_char_sent [OF assms] by (simp add: serial_write_u64_def)
next
  case False
  obtain h1 where "serial_write io ''0x'' h = Some h1" "sent h1 = sent h @ ''0x''"
    using serial_write_sent [OF assms] by blast
  then show ?thesis using False serial_write_sent [OF assms, of "debug_collect 16 v []" h1]
    by (auto simp: serial_write_u64_def)
qed


text \<open>A transmitter that is busy for three reads of its status after each byte.\<close>

definition sample_uart :: "(nat \<times> string) port_io" where
  "sample_uart = \<lparr>inb = (\<lambda>p (n, s). if n = 0 then (0x20, n, s) else (0, n - 1, s)),
     outb = (\<lambda>p v (n, s). (3, if p = 0x3F8 then s @ [char_of (unat v)] else s)),
     inw = (\<lambda>p h. (0, h)), outw = (\<lambda>p v h. h), inl = (\<lambda>p h. (0, h)), outl = (\<lambda>p v h. h)\<rparr>"

lemma char_of_byte: "char_of (unat (of_char c :: u8)) = c"
proof -
  have "(of_char c :: nat) < 256" by (cases c) (simp add: of_char_def)
  then have "unat (of_char c :: u8) = of_char c"
    using unat_of_nat_small [of "of_char c", where 'a = 8] by (simp add: of_nat_of_char)
  then show ?thesis by simp
qed

lemma sample_uart_ok: "uart_ok sample_uart fst snd"
  by (auto simp: uart_ok_def sample_uart_def char_of_byte split: prod.splits)


end
