(* ===== verification/Vmm.thy ===== *)
theory Vmm
  imports Slot_Map Port_Io
begin

text \<open>
  The kernel's own page map, \<^verbatim>\<open>kernel/mm/vmm.c\<close>: bootstrap tables below root slot 1, and
  mapping, unmapping and translation of pages. The addresses of the static tables are fixed by the
  linker and form the layout argument. Translation caches are not modelled, so \<^verbatim>\<open>invlpg\<close> has
  no effect here; the progress messages on the debug port are left out, except for the routine
  that prints a number, which is modelled by the characters it sends.
\<close>

section \<open>Operations\<close>

record vmm_layout =
  l_pml4 :: u64
  l_pdpt :: u64
  l_bootstrap_pd :: u64
  l_bootstrap_pt :: u64
  l_bootstrap_high_pdpt :: u64

definition PAGE_MASK :: u64 where
  "PAGE_MASK = NOT (SB_PAGE_SIZE - 1)"

definition BOOTSTRAP_TEST_PML4_INDEX :: nat where
  "BOOTSTRAP_TEST_PML4_INDEX = 1"

definition debug_write_u64 :: "u64 \<Rightarrow> string" where
  "debug_write_u64 value = (if value = 0 then ''0'' else debug_collect 17 value [])"

definition vmm_map_page :: "vmm_layout \<Rightarrow> u64 \<Rightarrow> u64 \<Rightarrow> u64 \<Rightarrow> machine \<Rightarrow> int \<times> machine" where
  "vmm_map_page L virtual_address physical_address flags M =
     (if virtual_address AND NOT PAGE_MASK \<noteq> 0 \<or> physical_address AND NOT PAGE_MASK \<noteq> 0 then (-1, M)
      else
        let i4 = pml4_index virtual_address;
            i3 = pdpt_index virtual_address;
            i2 = pd_index virtual_address;
            i1 = pt_index virtual_address;
            root = l_pml4 L;
            (pdpt_table, M) = ensure_table root i4 flags M in
        if pdpt_table = 0 then (-1, M)
        else let (pd_table, M) = ensure_table pdpt_table i3 flags M in
        if pd_table = 0 then (-1, M)
        else let (pt_table, M) = ensure_table pd_table i2 flags M in
        if pt_table = 0 then (-1, M)
        else if table_get (mem M) pt_table (unat i1) AND SB_VMM_PRESENT \<noteq> 0 then (-2, M)
        else (0, M\<lparr>mem := table_set pt_table (unat i1)
               ((physical_address AND ENTRY_ADDR_MASK) OR SB_VMM_PRESENT OR
                (flags AND (SB_VMM_WRITABLE OR SB_VMM_USER OR SB_VMM_NX))) (mem M)\<rparr>))"

definition vmm_unmap_page :: "vmm_layout \<Rightarrow> u64 \<Rightarrow> u64 option \<Rightarrow> machine \<Rightarrow> int \<times> u64 option \<times> machine" where
  "vmm_unmap_page L virtual_address physical_address M =
     (if virtual_address AND NOT PAGE_MASK \<noteq> 0 then (-1, physical_address, M)
      else
        let e4 = table_get (mem M) (l_pml4 L) (unat (pml4_index virtual_address)) in
        if e4 AND SB_VMM_PRESENT = 0 \<or> e4 AND 0x80 \<noteq> 0 then (-1, physical_address, M)
        else let pdpt_table = table_from_entry e4;
                 e3 = table_get (mem M) pdpt_table (unat (pdpt_index virtual_address)) in
        if e3 AND SB_VMM_PRESENT = 0 \<or> e3 AND 0x80 \<noteq> 0 then (-1, physical_address, M)
        else let pd_table = table_from_entry e3;
                 e2 = table_get (mem M) pd_table (unat (pd_index virtual_address)) in
        if e2 AND SB_VMM_PRESENT = 0 \<or> e2 AND 0x80 \<noteq> 0 then (-1, physical_address, M)
        else let pt_table = table_from_entry e2;
                 index = unat (pt_index virtual_address);
                 entry = table_get (mem M) pt_table index in
        if entry AND SB_VMM_PRESENT = 0 then (-1, physical_address, M)
        else (0, (case physical_address of None \<Rightarrow> None | Some _ \<Rightarrow> Some (entry AND ENTRY_ADDR_MASK)),
              M\<lparr>mem := table_set pt_table index 0 (mem M)\<rparr>))"

definition vmm_translate :: "vmm_layout \<Rightarrow> u64 \<Rightarrow> machine \<Rightarrow> u64" where
  "vmm_translate L virtual_address M =
     (let e4 = table_get (mem M) (l_pml4 L) (unat (pml4_index virtual_address)) in
      if e4 AND SB_VMM_PRESENT = 0 then 0
      else let pdpt_table = table_from_entry e4;
               e3 = table_get (mem M) pdpt_table (unat (pdpt_index virtual_address)) in
      if e3 AND SB_VMM_PRESENT = 0 then 0
      else if e3 AND 0x80 \<noteq> 0 then (e3 AND 0x000FFFFFC0000000) OR (virtual_address AND 0x3FFFFFFF)
      else let pd_table = table_from_entry e3;
               e2 = table_get (mem M) pd_table (unat (pd_index virtual_address)) in
      if e2 AND SB_VMM_PRESENT = 0 then 0
      else if e2 AND 0x80 \<noteq> 0 then (e2 AND 0x000FFFFFFFE00000) OR (virtual_address AND 0x1FFFFF)
      else let pt_table = table_from_entry e2;
               e1 = table_get (mem M) pt_table (unat (pt_index virtual_address)) in
      if e1 AND SB_VMM_PRESENT = 0 then 0
      else (e1 AND ENTRY_ADDR_MASK) OR (virtual_address AND 0xFFF))"

text \<open>The static variable \<^verbatim>\<open>bootstrap_ready\<close> is the boolean that is passed and returned.\<close>

definition vmm_init :: "vmm_layout \<Rightarrow> bool \<Rightarrow> machine \<Rightarrow> bool \<times> machine" where
  "vmm_init L bootstrap_ready M =
     (if bootstrap_ready then (bootstrap_ready, M)
      else
        let high_test_virtual = 0x0000008000000000;
            high_pdpt_i = unat (pdpt_index high_test_virtual);
            m = fold (\<lambda>i m. table_set (l_bootstrap_high_pdpt L) i 0
                   (table_set (l_bootstrap_pt L) i 0 (table_set (l_bootstrap_pd L) i 0 m)))
                 [0..<PT_ENTRIES] (mem M);
            m = table_set (l_bootstrap_pd L) 0
                  ((l_bootstrap_pt L AND ENTRY_ADDR_MASK) OR SB_VMM_PRESENT OR SB_VMM_WRITABLE) m;
            m = table_set (l_bootstrap_high_pdpt L) high_pdpt_i
                  ((l_bootstrap_pd L AND ENTRY_ADDR_MASK) OR SB_VMM_PRESENT OR SB_VMM_WRITABLE) m;
            m = table_set (l_pml4 L) BOOTSTRAP_TEST_PML4_INDEX
                  ((l_bootstrap_high_pdpt L AND ENTRY_ADDR_MASK) OR SB_VMM_PRESENT OR SB_VMM_WRITABLE) m;
            legacy_pdpt_i = unat (pdpt_index 0x0000004000000000);
            m = (if table_get m (l_pdpt L) legacy_pdpt_i AND SB_VMM_PRESENT = 0
                 then table_set (l_pdpt L) legacy_pdpt_i
                   ((l_bootstrap_pd L AND ENTRY_ADDR_MASK) OR SB_VMM_PRESENT OR SB_VMM_WRITABLE) m
                 else m) in
        (True, M\<lparr>mem := m\<rparr>))"

section \<open>The map of slot 1\<close>

definition vmm_fixed :: "vmm_layout \<Rightarrow> u64 set" where
  "vmm_fixed L = {l_pml4 L, l_bootstrap_pd L, l_bootstrap_pt L, l_bootstrap_high_pdpt L}"

definition vmm_wf :: "vmm_layout \<Rightarrow> machine \<Rightarrow> bool" where
  "vmm_wf L M \<longleftrightarrow> tree_wf (vmm_fixed L) 0 (l_pml4 L) M"

definition vmm_entry :: "u64 \<Rightarrow> u64 \<Rightarrow> u64" where
  "vmm_entry pa flags =
     (pa AND ENTRY_ADDR_MASK) OR SB_VMM_PRESENT OR (flags AND (SB_VMM_WRITABLE OR SB_VMM_USER OR SB_VMM_NX))"

lemma page_mask_aligned: "a AND NOT PAGE_MASK = 0 \<longleftrightarrow> page_aligned a"
  by (simp add: PAGE_MASK_def page_aligned_def)

lemma vmm_entry_bits: "bit (vmm_entry pa flags) 0" "\<not> bit (vmm_entry pa flags) 7"
  by (auto simp: vmm_entry_def bit_or_iff bit_and_iff)

lemma vmm_entry_addr: "vmm_entry pa flags AND ENTRY_ADDR_MASK = pa AND ENTRY_ADDR_MASK"
  unfolding vmm_entry_def by (rule bit_word_eqI) (auto simp: bit_simps)

lemma vmm_map_path:
  "vmm_map_page L va pa flags M =
     (if page_aligned va \<and> page_aligned pa then map_path (l_pml4 L) va flags (vmm_entry pa flags) M else (-1, M))"
  by (auto simp: vmm_map_page_def map_path_def ensure_path_def page_mask_aligned present_bit vmm_entry_def
      Let_def split: prod.splits)

text \<open>The three table entries on the way to an address of slot 1, when no large page is in the way.\<close>

lemma walk_cases:
  fixes L M a
  defines "e4 \<equiv> table_get (mem M) (l_pml4 L) 1"
  defines "e3 \<equiv> table_get (mem M) (table_from_entry e4) (unat (pdpt_index a))"
  defines "e2 \<equiv> table_get (mem M) (table_from_entry e3) (unat (pd_index a))"
  assumes "vmm_wf L M"
  shows "bit e4 0 \<Longrightarrow> \<not> bit e4 7" "bit e4 0 \<Longrightarrow> bit e3 0 \<Longrightarrow> \<not> bit e3 7"
    "bit e4 0 \<Longrightarrow> bit e3 0 \<Longrightarrow> bit e2 0 \<Longrightarrow> \<not> bit e2 7"
    "slot_pte (l_pml4 L) M a =
       (if bit e4 0 \<and> bit e3 0 \<and> bit e2 0 then table_get (mem M) (table_from_entry e2) (unat (pt_index a)) else 0)"
    "bit e4 0 \<Longrightarrow> bit e3 0 \<Longrightarrow> bit e2 0 \<Longrightarrow>
       tab (mem M) (l_pml4 L) [1, unat (pdpt_index a), unat (pd_index a)] = Some (table_from_entry e2)"
proof -
  note wf = tree_wfD(5) [OF assms(4) [unfolded vmm_wf_def]]
  show "bit e4 0 \<Longrightarrow> \<not> bit e4 7"
    using wf [OF slot_path_Nil tab.simps(1) slot_oks(1)] by (simp add: e4_def)
  show "bit e4 0 \<Longrightarrow> bit e3 0 \<Longrightarrow> \<not> bit e3 7"
    using wf [OF slot_paths(1) _ slot_oks(2)] by (simp add: e4_def e3_def)
  show "bit e4 0 \<Longrightarrow> bit e3 0 \<Longrightarrow> bit e2 0 \<Longrightarrow> \<not> bit e2 7"
    using wf [OF slot_paths(2) [of a] _ slot_oks(3)] by (simp add: e4_def e3_def e2_def)
  show "slot_pte (l_pml4 L) M a =
       (if bit e4 0 \<and> bit e3 0 \<and> bit e2 0 then table_get (mem M) (table_from_entry e2) (unat (pt_index a)) else 0)"
    by (simp add: slot_pte_def leaf_def e4_def e3_def e2_def)
  show "bit e4 0 \<Longrightarrow> bit e3 0 \<Longrightarrow> bit e2 0 \<Longrightarrow>
       tab (mem M) (l_pml4 L) [1, unat (pdpt_index a), unat (pd_index a)] = Some (table_from_entry e2)"
    by (simp add: e4_def e3_def e2_def)
qed

lemma vmm_translate_eq:
  assumes "vmm_wf L M" "pml4_index a = 1"
  shows "vmm_translate L a M =
    (if bit (slot_pte (l_pml4 L) M a) 0 then (slot_pte (l_pml4 L) M a AND ENTRY_ADDR_MASK) OR (a AND 0xFFF) else 0)"
  using walk_cases(1) [OF assms(1)] walk_cases(2-5) [OF assms(1), of a] by (auto simp: vmm_translate_def assms(2) present_bit large_bit Let_def)

lemma vmm_unmap_eq:
  assumes "vmm_wf L M" "pml4_index va = 1" "page_aligned va" "bit (slot_pte (l_pml4 L) M va) 0"
  obtains pt where "tab (mem M) (l_pml4 L) [1, unat (pdpt_index va), unat (pd_index va)] = Some pt"
    and "vmm_unmap_page L va (Some x) M =
      (0, Some (slot_pte (l_pml4 L) M va AND ENTRY_ADDR_MASK), M\<lparr>mem := table_set pt (unat (pt_index va)) 0 (mem M)\<rparr>)"
  using walk_cases(1) [OF assms(1)] walk_cases(2-5) [OF assms(1), of va] assms(2-4)
  by (simp add: vmm_unmap_page_def page_mask_aligned present_bit large_bit Let_def split: if_splits)

lemma vmm_unmap_none:
  assumes "vmm_wf L M" "pml4_index va = 1" "\<not> (page_aligned va \<and> bit (slot_pte (l_pml4 L) M va) 0)"
  shows "vmm_unmap_page L va x M = (-1, x, M)"
  using walk_cases(1) [OF assms(1)] walk_cases(2-5) [OF assms(1), of va] assms(2,3)
  by (auto simp: vmm_unmap_page_def page_mask_aligned present_bit large_bit Let_def split: if_splits)

section \<open>The bootstrap tables\<close>

definition layout_ok :: "vmm_layout \<Rightarrow> pmm \<Rightarrow> bool" where
  "layout_ok L p \<longleftrightarrow>
     distinct [l_pml4 L, l_pdpt L, l_bootstrap_pd L, l_bootstrap_pt L, l_bootstrap_high_pdpt L] \<and>
     (\<forall>c \<in> insert (l_pdpt L) (vmm_fixed L). page_aligned c \<and> c \<noteq> 0 \<and> unat c < 2 ^ 52 \<and> c \<notin> kpmm_avail p \<and> c \<notin> kpmm_owned p)"

lemma zero_three:
  assumes "page_aligned a" "page_aligned b" "page_aligned c" "page_aligned p" "j < 512" "n \<le> 512"
  shows "table_get (fold (\<lambda>i m. table_set a i 0 (table_set b i 0 (table_set c i 0 m))) [0..<n] m) p j =
    (if p \<in> {a, b, c} \<and> j < n then 0 else table_get m p j)"
  using assms(6) by (induction n) (auto simp: table_get_set assms(1-5))

definition boot_entry :: "u64 \<Rightarrow> u64" where
  "boot_entry t = (t AND ENTRY_ADDR_MASK) OR SB_VMM_PRESENT OR SB_VMM_WRITABLE"

lemma boot_entry_bits: "bit (boot_entry t) 0" "\<not> bit (boot_entry t) 7"
  by (simp_all add: boot_entry_def bit_or_iff bit_and_iff)

lemma boot_entry_table: "page_aligned t \<Longrightarrow> unat t < 2 ^ 52 \<Longrightarrow> table_from_entry (boot_entry t) = t"
proof -
  have "table_from_entry (boot_entry t) = t AND ENTRY_ADDR_MASK"
    unfolding table_from_entry_def boot_entry_def by (rule bit_word_eqI) (auto simp: bit_simps)
  then show "page_aligned t \<Longrightarrow> unat t < 2 ^ 52 \<Longrightarrow> ?thesis" by (simp add: mask_table_page)
qed

lemma boot_indices: "pdpt_index 0x8000000000 = 0" "pdpt_index 0x4000000000 = 256"
  by (simp_all add: pdpt_index_def drop_bit_eq_div)

lemma vmm_init_tables:
  assumes "layout_ok L (kpmm M)" "vmm_init L False M = (ready, M')"
  shows "ready" "kpmm M' = kpmm M" "cr3 M' = cr3 M"
    "table_get (mem M') (l_pml4 L) 1 = boot_entry (l_bootstrap_high_pdpt L)"
    "i < 512 \<Longrightarrow> table_get (mem M') (l_bootstrap_high_pdpt L) i = (if i = 0 then boot_entry (l_bootstrap_pd L) else 0)"
    "i < 512 \<Longrightarrow> table_get (mem M') (l_bootstrap_pd L) i = (if i = 0 then boot_entry (l_bootstrap_pt L) else 0)"
    "i < 512 \<Longrightarrow> table_get (mem M') (l_bootstrap_pt L) i = 0"
proof -
  have al: "page_aligned (l_pml4 L)" "page_aligned (l_pdpt L)" "page_aligned (l_bootstrap_pd L)"
    "page_aligned (l_bootstrap_pt L)" "page_aligned (l_bootstrap_high_pdpt L)"
    using assms(1) by (simp_all add: layout_ok_def vmm_fixed_def)
  have dis: "distinct [l_pml4 L, l_pdpt L, l_bootstrap_pd L, l_bootstrap_pt L, l_bootstrap_high_pdpt L]"
    using assms(1) by (simp add: layout_ok_def)
  define m0 where "m0 = fold (\<lambda>i m. table_set (l_bootstrap_high_pdpt L) i 0
      (table_set (l_bootstrap_pt L) i 0 (table_set (l_bootstrap_pd L) i 0 m))) [0..<PT_ENTRIES] (mem M)"
  have z: "table_get m0 p j = 0" if "p \<in> {l_bootstrap_high_pdpt L, l_bootstrap_pt L, l_bootstrap_pd L}" "j < 512" for p j
    using that al unfolding m0_def by (subst zero_three) (auto simp: PT_ENTRIES_def)
  define m1 where "m1 = table_set (l_pml4 L) 1 (boot_entry (l_bootstrap_high_pdpt L))
      (table_set (l_bootstrap_high_pdpt L) 0 (boot_entry (l_bootstrap_pd L))
        (table_set (l_bootstrap_pd L) 0 (boot_entry (l_bootstrap_pt L)) m0))"
  have M': "ready" "M' = M\<lparr>mem := (if table_get m1 (l_pdpt L) 256 AND SB_VMM_PRESENT = 0
      then table_set (l_pdpt L) 256 (boot_entry (l_bootstrap_pd L)) m1 else m1)\<rparr>"
    using assms(2) by (auto simp: vmm_init_def Let_def boot_indices m0_def [symmetric] m1_def boot_entry_def BOOTSTRAP_TEST_PML4_INDEX_def)
  then show "ready" "kpmm M' = kpmm M" "cr3 M' = cr3 M" by simp_all
  have get: "table_get (mem M') p j = table_get m1 p j" if "p \<noteq> l_pdpt L" "page_aligned p" "j < 512" for p j
    using that al by (simp add: M' table_get_set)
  show "table_get (mem M') (l_pml4 L) 1 = boot_entry (l_bootstrap_high_pdpt L)"
    "i < 512 \<Longrightarrow> table_get (mem M') (l_bootstrap_high_pdpt L) i = (if i = 0 then boot_entry (l_bootstrap_pd L) else 0)"
    "i < 512 \<Longrightarrow> table_get (mem M') (l_bootstrap_pd L) i = (if i = 0 then boot_entry (l_bootstrap_pt L) else 0)"
    "i < 512 \<Longrightarrow> table_get (mem M') (l_bootstrap_pt L) i = 0"
    using dis al z by (auto simp: get m1_def table_get_set)
qed

text \<open>After \<open>vmm_init\<close> slot 1 holds one table per level, and maps nothing.\<close>

lemma vmm_init_tab:
  assumes "layout_ok L (kpmm M)" "vmm_init L False M = (ready, M')" "slot_path q"
  shows "tab (mem M') (l_pml4 L) q =
    (if q = [] then Some (l_pml4 L) else if q = [1] then Some (l_bootstrap_high_pdpt L)
     else if q = [1, 0] then Some (l_bootstrap_pd L) else if q = [1, 0, 0] then Some (l_bootstrap_pt L) else None)"
  using assms(3)
proof (induction q rule: rev_induct)
  case (snoc i q)
  then have q: "slot_path q" "length q < 3" "slot_ok q i" "i < 512" unfolding slot_path_snoc by (simp_all add: slot_ok_def)
  note t = vmm_init_tables [OF assms(1,2)]
  have bt: "table_from_entry (boot_entry c) = c" if "c \<in> vmm_fixed L" for c
    using that assms(1) by (intro boot_entry_table) (auto simp: layout_ok_def)
  consider "q = []" | "q = [1]" | "q = [1, 0]" | "q \<noteq> []" "q \<noteq> [1]" "q \<noteq> [1, 0]" by blast
  then show ?case
  proof cases
    case 1
    with q(3) have "i = 1" by (simp add: slot_ok_def)
    with 1 t(4) bt show ?thesis by (simp add: boot_entry_bits vmm_fixed_def)
  next
    case 2
    with snoc.IH [OF q(1)] q(4) t(5) [of i] bt show ?thesis
      unfolding tab_snoc by (cases "i = 0") (simp_all add: boot_entry_bits vmm_fixed_def)
  next
    case 3
    with snoc.IH [OF q(1)] q(4) t(6) [of i] bt show ?thesis
      unfolding tab_snoc by (cases "i = 0") (simp_all add: boot_entry_bits vmm_fixed_def)
  next
    case 4
    then have "tab (mem M') (l_pml4 L) q = None" using snoc.IH [OF q(1)] q(2) by auto
    with 4 show ?thesis unfolding tab_snoc by (cases q rule: rev_cases) auto
  qed
qed simp

lemma vmm_init_wf:
  assumes "layout_ok L (kpmm M)" "kpmm_ok (kpmm M)" "vmm_init L False M = (ready, M')"
  shows "vmm_wf L M'" and "slot_pte (l_pml4 L) M' a = 0"
proof -
  note t = vmm_init_tables [OF assms(1,3)]
  note tab = vmm_init_tab [OF assms(1,3)]
  have dis: "distinct [l_pml4 L, l_bootstrap_pd L, l_bootstrap_pt L, l_bootstrap_high_pdpt L]"
    using assms(1) by (auto simp: layout_ok_def)
  have "fixed_ok (vmm_fixed L) (kpmm M')" using assms(1) by (simp add: fixed_ok_def layout_ok_def t(2))
  moreover have "tree_pages (l_pml4 L) (mem M') \<subseteq> vmm_fixed L"
    by (auto simp: tree_pages_def tab vmm_fixed_def split: if_splits)
  moreover have "q = r" if "slot_path q" "slot_path r" "tab (mem M') (l_pml4 L) q = Some p" "tab (mem M') (l_pml4 L) r = Some p" for q r p
    using that(3,4) dis unfolding tab [OF that(1)] tab [OF that(2)] by (auto split: if_splits)
  moreover have "\<not> bit (table_get (mem M') p i) 7"
    if "slot_path q" "tab (mem M') (l_pml4 L) q = Some p" "slot_ok q i" for q p i
    using that(2,3) t(4) t(5-7) [of i] unfolding tab [OF that(1)]
    by (auto simp: slot_ok_def boot_entry_bits split: if_splits)
  ultimately show "vmm_wf L M'" using assms(2) t(2) unfolding vmm_wf_def tree_wf_def by simp blast
  show "slot_pte (l_pml4 L) M' a = 0"
    unfolding slot_pte_def leaf_def tab [OF slot_paths(3)] using t(7) [OF index_less(4) [of a]] by simp
qed

section \<open>Properties\<close>

lemma vmm_map_effect:
  assumes "vmm_wf L M" "pml4_index va = 1" "vmm_map_page L va pa flags M = (0, M')"
  shows "vmm_wf L M'" and "page_aligned va" and "page_aligned pa"
    and "slot_pte (l_pml4 L) M' a = (if same_slot a va then vmm_entry pa flags else slot_pte (l_pml4 L) M a)"
    and "\<not> bit (slot_pte (l_pml4 L) M va) 0"
proof -
  have v: "\<not> bit (vmm_entry pa flags) 7 \<and> vmm_entry pa flags AND 0 = 0" by (simp add: vmm_entry_bits)
  have m: "page_aligned va" "page_aligned pa" "map_path (l_pml4 L) va flags (vmm_entry pa flags) M = (0, M')"
    using assms(3) by (auto simp: vmm_map_path split: if_splits)
  have z: "(flags AND (SB_VMM_WRITABLE OR SB_VMM_USER)) AND 0 = 0" by simp
  note all = map_path_all [OF assms(1) [unfolded vmm_wf_def] assms(2) z v m(3)]
  show "vmm_wf L M'" "page_aligned va" "page_aligned pa"
    "slot_pte (l_pml4 L) M' a = (if same_slot a va then vmm_entry pa flags else slot_pte (l_pml4 L) M a)"
    "\<not> bit (slot_pte (l_pml4 L) M va) 0"
    using all m by (simp_all add: vmm_wf_def slot_frame_def)
qed


definition sample_layout :: vmm_layout where
  "sample_layout = \<lparr>l_pml4 = 0x1000, l_pdpt = 0x2000, l_bootstrap_pd = 0x3000, l_bootstrap_pt = 0x4000,
     l_bootstrap_high_pdpt = 0x5000\<rparr>"

lemma sample_layout_ok: "layout_ok sample_layout (kpmm sample_machine)"
proof -
  have "c \<notin> page_address ` {4096..<16384}" if "unat c < 0x1000000" for c
    using that unat_page_address by fastforce
  then show ?thesis
    by (simp add: layout_ok_def vmm_fixed_def sample_layout_def sample_machine_def sample_pmm page_aligned_def
        SB_PAGE_SIZE_def)
qed

definition sample_kernel :: machine where
  "sample_kernel = snd (vmm_init sample_layout False sample_machine)"

lemma sample_kernel_wf: "vmm_wf sample_layout sample_kernel" "slot_pte (l_pml4 sample_layout) sample_kernel a = 0"
  "kpmm sample_kernel = sample_pmm"
proof -
  obtain ready where i: "vmm_init sample_layout False sample_machine = (ready, sample_kernel)"
    by (metis sample_kernel_def prod.collapse)
  have ok: "kpmm_ok (kpmm sample_machine)" by (simp add: sample_machine_def sample_pmm)
  show "vmm_wf sample_layout sample_kernel" "slot_pte (l_pml4 sample_layout) sample_kernel a = 0"
    by (rule vmm_init_wf [OF sample_layout_ok ok i])+
  show "kpmm sample_kernel = sample_pmm"
    using vmm_init_tables(2) [OF sample_layout_ok i] by (simp add: sample_machine_def)
qed

lemma sample_kernel_map:
  obtains M' where "vmm_map_page sample_layout 0x8000001000 0x2000000 SB_VMM_WRITABLE sample_kernel = (0, M')"
proof -
  obtain r M' where m: "vmm_map_page sample_layout 0x8000001000 0x2000000 SB_VMM_WRITABLE sample_kernel = (r, M')" by fastforce
  then have p: "map_path (l_pml4 sample_layout) 0x8000001000 SB_VMM_WRITABLE (vmm_entry 0x2000000 SB_VMM_WRITABLE) sample_kernel = (r, M')"
    by (simp add: vmm_map_path page_aligned_def SB_PAGE_SIZE_def)
  have "pml4_index 0x8000001000 = 1" by (simp add: pml4_index_def drop_bit_eq_div)
  from map_path_all [OF sample_kernel_wf(1) [unfolded vmm_wf_def] this _ _ p]
  have "r = 0" using sample_pmm_card by (auto simp: vmm_entry_bits sample_kernel_wf(2,3))
  with m that show ?thesis by simp
qed




section \<open>Printing numbers\<close>

text \<open>
  The number printer sends the upper-case hexadecimal form of every
  64-bit value, at most 16 digits and without a leading zero: reading the characters back gives
  the value. The 17-character buffer is therefore never full before the value is used up.
\<close>

theorem debug_write_u64_roundtrip:
  "of_hex (debug_write_u64 v) = unat v \<and> length (debug_write_u64 v) \<in> {1..16} \<and>
   (hd (debug_write_u64 v) = CHR ''0'' \<longleftrightarrow> v = 0)"
proof (cases "v = 0")
  case True
  then show ?thesis by (simp add: debug_write_u64_def of_hex_def hex_value_def hex_digits_def)
next
  case False
  have "unat v < 16 ^ 16" using unat_u64_less [of v] by simp
  from debug_collect_digits [OF this, of "[]"] debug_collect_more [OF this, of "[]"] False show ?thesis
    by (auto simp: debug_write_u64_def Suc_le_eq)
qed

end
