(* ===== verification/Scheduler.thy ===== *)
theory Scheduler
  imports Sb_Prelude
begin

text \<open>
  The task table and the cooperative round-robin scheduler, \<^verbatim>\<open>kernel/scheduler.c\<close>, with the
  assembly context switch \<^verbatim>\<open>kernel/arch/x86_64/context.S\<close>. A task pointer is an index into the
  table, the null pointer is \<open>None\<close>. The messages on the debug port are left out.
\<close>

section \<open>State\<close>

datatype task_state =
    SB_TASK_UNUSED
  | SB_TASK_READY
  | SB_TASK_RUNNING
  | SB_TASK_BLOCKED
  | SB_TASK_SLEEPING
  | SB_TASK_EXITED

record task_context =
  ctx_r15 :: u64
  ctx_r14 :: u64
  ctx_r13 :: u64
  ctx_r12 :: u64
  ctx_rbx :: u64
  ctx_rbp :: u64
  ctx_rip :: u64
  ctx_rsp :: u64

record task =
  task_id :: u64
  runtime_ticks :: u64
  task_priority :: u32
  task_state :: task_state
  task_context :: task_context
  kernel_stack_base :: u64
  kernel_stack_top :: u64

record sched =
  tasks :: "task list"
  task_count :: u32
  current_index :: u32
  scheduler_tick_count :: u64

definition SB_BOOTSTRAP_TASK_ID :: u64 where
  "SB_BOOTSTRAP_TASK_ID = 1"

definition SB_BOOTSTRAP_PRIORITY :: u32 where
  "SB_BOOTSTRAP_PRIORITY = 128"

definition SB_SCHED_MAX_TASKS :: u32 where
  "SB_SCHED_MAX_TASKS = 64"

section \<open>Operations\<close>

definition zero_context :: task_context where
  "zero_context = \<lparr>ctx_r15 = 0, ctx_r14 = 0, ctx_r13 = 0, ctx_r12 = 0, ctx_rbx = 0, ctx_rbp = 0, ctx_rip = 0, ctx_rsp = 0\<rparr>"

definition clear_task :: "task \<Rightarrow> task" where
  "clear_task t = t\<lparr>task_id := 0, runtime_ticks := 0, task_priority := 0, task_state := SB_TASK_UNUSED,
     task_context := zero_context, kernel_stack_base := 0, kernel_stack_top := 0\<rparr>"

definition set_task :: "nat \<Rightarrow> (task \<Rightarrow> task) \<Rightarrow> sched \<Rightarrow> sched" where
  "set_task i f s = s\<lparr>tasks := (tasks s)[i := f (tasks s ! i)]\<rparr>"

definition scheduler_init :: "sched \<Rightarrow> sched" where
  "scheduler_init s =
     (let s = fold (\<lambda>i. set_task i clear_task) [0..<unat SB_SCHED_MAX_TASKS] s;
          s = set_task 0 (\<lambda>t. t\<lparr>task_id := SB_BOOTSTRAP_TASK_ID, runtime_ticks := 0,
                task_priority := SB_BOOTSTRAP_PRIORITY, task_state := SB_TASK_RUNNING\<rparr>) s in
      s\<lparr>task_count := 1, current_index := 0, scheduler_tick_count := 0\<rparr>)"

definition scheduler_tick :: "sched \<Rightarrow> sched" where
  "scheduler_tick s =
     (let s = s\<lparr>scheduler_tick_count := scheduler_tick_count s + 1\<rparr> in
      if task_count s = 0 then s
      else if task_state (tasks s ! unat (current_index s)) = SB_TASK_RUNNING
      then set_task (unat (current_index s)) (\<lambda>t. t\<lparr>runtime_ticks := runtime_ticks t + 1\<rparr>) s
      else s)"

definition scheduler_ticks :: "sched \<Rightarrow> u64" where
  "scheduler_ticks s = scheduler_tick_count s"

definition scheduler_current :: "sched \<Rightarrow> nat option" where
  "scheduler_current s = (if task_count s = 0 then None else Some (unat (current_index s)))"

definition scheduler_add_kernel_task :: "u64 \<Rightarrow> u32 \<Rightarrow> sched \<Rightarrow> int \<times> sched" where
  "scheduler_add_kernel_task ident prio s =
     (if task_count s \<ge> SB_SCHED_MAX_TASKS \<or> ident = 0 then (-1, s)
      else if list_ex (\<lambda>i. task_state (tasks s ! i) \<noteq> SB_TASK_UNUSED \<and> task_id (tasks s ! i) = ident)
                [0..<unat (task_count s)]
      then (-2, s)
      else
        let s = set_task (unat (task_count s)) (\<lambda>t. t\<lparr>task_id := ident, runtime_ticks := 0, task_priority := prio,
              task_state := SB_TASK_READY, task_context := zero_context, kernel_stack_base := 0, kernel_stack_top := 0\<rparr>) s in
        (0, s\<lparr>task_count := task_count s + 1\<rparr>))"

text \<open>The \<^verbatim>\<open>for\<close> loop over \<open>step\<close>; the list holds the steps that are left.\<close>

fun pick_loop :: "sched \<Rightarrow> nat list \<Rightarrow> nat option \<times> sched" where
  "pick_loop s [] = (Some (unat (current_index s)), s)"
| "pick_loop s (step # steps) =
     (let candidate = (current_index s + of_nat step) mod task_count s in
      if task_state (tasks s ! unat candidate) = SB_TASK_READY \<or> task_state (tasks s ! unat candidate) = SB_TASK_RUNNING
      then
        let s = set_task (unat (current_index s)) (\<lambda>t. t\<lparr>task_state := SB_TASK_READY\<rparr>) s;
            s = s\<lparr>current_index := candidate\<rparr>;
            s = set_task (unat (current_index s)) (\<lambda>t. t\<lparr>task_state := SB_TASK_RUNNING\<rparr>) s in
        (Some (unat (current_index s)), s)
      else pick_loop s steps)"

definition scheduler_pick_next :: "sched \<Rightarrow> nat option \<times> sched" where
  "scheduler_pick_next s =
     (if task_count s = 0 then (None, s) else pick_loop s [1..<unat (task_count s) + 1])"

definition scheduler_task_count :: "sched \<Rightarrow> u32" where
  "scheduler_task_count s = task_count s"

text \<open>
  The processor state that the context switch touches: the callee-saved registers, the stack
  pointer, and the instruction pointer after the final \<^verbatim>\<open>retq\<close>. On entry the return address
  is the word at the top of the stack.
\<close>

record cpu =
  r15 :: u64
  r14 :: u64
  r13 :: u64
  r12 :: u64
  rbx :: u64
  rbp :: u64
  rsp :: u64
  rip :: u64

definition sb_context_switch :: "task_context \<Rightarrow> cpu \<Rightarrow> memory \<Rightarrow> task_context \<times> cpu \<times> memory" where
  "sb_context_switch new_context c m =
     (let old_context = \<lparr>ctx_r15 = r15 c, ctx_r14 = r14 c, ctx_r13 = r13 c, ctx_r12 = r12 c, ctx_rbx = rbx c,
            ctx_rbp = rbp c, ctx_rip = load64 m (rsp c), ctx_rsp = rsp c + 8\<rparr>;
          c = c\<lparr>r15 := ctx_r15 new_context, r14 := ctx_r14 new_context, r13 := ctx_r13 new_context,
                r12 := ctx_r12 new_context, rbx := ctx_rbx new_context, rbp := ctx_rbp new_context,
                rsp := ctx_rsp new_context\<rparr>;
          rax = ctx_rip new_context;
          c = c\<lparr>rsp := rsp c - 8\<rparr>;
          m = store64 m (rsp c) rax;
          c = c\<lparr>rip := load64 m (rsp c), rsp := rsp c + 8\<rparr> in
      (old_context, c, m))"

text \<open>
  \<open>scheduler_switch_to\<close> on the table and the processor. Interrupts are off during the switch, so
  nothing else happens between its statements; the contexts are read and written through the
  pointers into the table.
\<close>

definition scheduler_switch_to :: "nat option \<Rightarrow> sched \<Rightarrow> cpu \<Rightarrow> memory \<Rightarrow> sched \<times> cpu \<times> memory" where
  "scheduler_switch_to nxt s c m =
     (case (scheduler_current s, nxt) of
        (Some current, Some next) \<Rightarrow>
          if current = next then (s, c, m)
          else if ctx_rsp (task_context (tasks s ! current)) = 0 \<or> ctx_rip (task_context (tasks s ! current)) = 0 \<or>
                  ctx_rsp (task_context (tasks s ! next)) = 0 \<or> ctx_rip (task_context (tasks s ! next)) = 0
          then (s, c, m)
          else
            let s = set_task current (\<lambda>t. t\<lparr>task_state := SB_TASK_READY\<rparr>) s;
                s = set_task next (\<lambda>t. t\<lparr>task_state := SB_TASK_RUNNING\<rparr>) s;
                s = s\<lparr>current_index := of_nat next\<rparr>;
                (old, c, m) = sb_context_switch (task_context (tasks s ! next)) c m;
                s = set_task current (\<lambda>t. t\<lparr>task_context := old\<rparr>) s in
            (s, c, m)
      | _ \<Rightarrow> (s, c, m))"

section \<open>Facts\<close>

lemma set_task_simps [simp]:
  "task_count (set_task i f s) = task_count s" "current_index (set_task i f s) = current_index s"
  "scheduler_tick_count (set_task i f s) = scheduler_tick_count s"
  "length (tasks (set_task i f s)) = length (tasks s)"
  by (simp_all add: set_task_def)

lemma set_task_nth:
  "j < length (tasks s) \<Longrightarrow> tasks (set_task i f s) ! j = (if i = j then f (tasks s ! j) else tasks s ! j)"
  by (auto simp: set_task_def nth_list_update)

lemma clear_all:
  assumes "n \<le> length (tasks s)"
  shows "length (tasks (fold (\<lambda>i. set_task i clear_task) [0..<n] s)) = length (tasks s)"
    and "j < length (tasks s) \<Longrightarrow>
      tasks (fold (\<lambda>i. set_task i clear_task) [0..<n] s) ! j = (if j < n then clear_task (tasks s ! j) else tasks s ! j)"
  using assms by (induction n) (auto simp: set_task_nth)

text \<open>
  The scheduler's invariant: a table of 64 slots of which the first \<open>task_count\<close> are in use, the
  current one running and the others ready, with distinct nonzero identifiers.
\<close>

definition sched_inv :: "sched \<Rightarrow> bool" where
  "sched_inv s \<longleftrightarrow>
     length (tasks s) = 64 \<and> 0 < task_count s \<and> task_count s \<le> SB_SCHED_MAX_TASKS \<and> current_index s < task_count s \<and>
     (\<forall>i < 64. task_state (tasks s ! i) =
        (if unat (task_count s) \<le> i then SB_TASK_UNUSED else if i = unat (current_index s) then SB_TASK_RUNNING else SB_TASK_READY)) \<and>
     (\<forall>i < unat (task_count s). task_id (tasks s ! i) \<noteq> 0) \<and>
     inj_on (\<lambda>i. task_id (tasks s ! i)) {..<unat (task_count s)}"

lemma sched_invD:
  assumes "sched_inv s"
  shows "length (tasks s) = 64" "0 < unat (task_count s)" "unat (task_count s) \<le> 64"
    "unat (current_index s) < unat (task_count s)"
    "i < 64 \<Longrightarrow> task_state (tasks s ! i) =
        (if unat (task_count s) \<le> i then SB_TASK_UNUSED else if i = unat (current_index s) then SB_TASK_RUNNING else SB_TASK_READY)"
    "i < unat (task_count s) \<Longrightarrow> task_id (tasks s ! i) \<noteq> 0"
    "inj_on (\<lambda>i. task_id (tasks s ! i)) {..<unat (task_count s)}"
  using assms by (simp_all add: sched_inv_def word_less_nat_alt word_le_nat_alt SB_SCHED_MAX_TASKS_def)

lemma sched_invI:
  assumes "length (tasks s) = 64" "0 < unat (task_count s)" "unat (task_count s) \<le> 64"
    "unat (current_index s) < unat (task_count s)"
    "\<And>i. i < 64 \<Longrightarrow> task_state (tasks s ! i) =
        (if unat (task_count s) \<le> i then SB_TASK_UNUSED else if i = unat (current_index s) then SB_TASK_RUNNING else SB_TASK_READY)"
    "\<And>i. i < unat (task_count s) \<Longrightarrow> task_id (tasks s ! i) \<noteq> 0"
    "inj_on (\<lambda>i. task_id (tasks s ! i)) {..<unat (task_count s)}"
  shows "sched_inv s"
  using assms by (simp add: sched_inv_def word_less_nat_alt word_le_nat_alt SB_SCHED_MAX_TASKS_def)

lemma scheduler_init_inv:
  assumes "length (tasks s) = 64"
  shows "sched_inv (scheduler_init s)"
proof (rule sched_invI)
  note c = clear_all [of 64 s]
  show "length (tasks (scheduler_init s)) = 64"
    using c assms by (simp add: scheduler_init_def SB_SCHED_MAX_TASKS_def)
qed (use assms clear_all [of 64 s] in \<open>auto simp: scheduler_init_def SB_SCHED_MAX_TASKS_def set_task_nth
    clear_task_def SB_BOOTSTRAP_TASK_ID_def inj_on_def\<close>)

text \<open>In an invariant state the next task is the following one in cyclic order.\<close>

definition next_index :: "sched \<Rightarrow> nat" where
  "next_index s = (unat (current_index s) + 1) mod unat (task_count s)"

definition run_task :: "nat \<Rightarrow> sched \<Rightarrow> sched" where
  "run_task n s =
     set_task n (\<lambda>t. t\<lparr>task_state := SB_TASK_RUNNING\<rparr>)
       ((set_task (unat (current_index s)) (\<lambda>t. t\<lparr>task_state := SB_TASK_READY\<rparr>) s)\<lparr>current_index := of_nat n\<rparr>)"

lemma current_update_simps [simp]:
  "tasks (s\<lparr>current_index := c\<rparr>) = tasks s" "tasks (s\<lparr>task_count := d\<rparr>) = tasks s"
  "tasks (s\<lparr>scheduler_tick_count := e\<rparr>) = tasks s"
  by simp_all

lemma unat_index: "n < 64 \<Longrightarrow> unat (of_nat n :: u32) = n"
  by (simp add: unat_of_nat_small)

lemma run_task_nth:
  "j < length (tasks s) \<Longrightarrow> tasks (run_task n s) ! j =
    (if j = n then (tasks s ! j)\<lparr>task_state := SB_TASK_RUNNING\<rparr>
     else if j = unat (current_index s) then (tasks s ! j)\<lparr>task_state := SB_TASK_READY\<rparr> else tasks s ! j)"
  by (auto simp: run_task_def set_task_nth)

lemma run_task_simps [simp]:
  "task_count (run_task n s) = task_count s" "current_index (run_task n s) = of_nat n"
  "length (tasks (run_task n s)) = length (tasks s)" "scheduler_tick_count (run_task n s) = scheduler_tick_count s"
  by (simp_all add: run_task_def)

lemma run_task_inv:
  assumes "sched_inv s" "n < unat (task_count s)"
  shows "sched_inv (run_task n s)"
proof (rule sched_invI)
  note d = sched_invD [OF assms(1)]
  have ids: "task_id (tasks (run_task n s) ! i) = task_id (tasks s ! i)" if "i < 64" for i
    using that d(1) by (simp add: run_task_nth)
  have n: "unat (of_nat n :: u32) = n" using assms(2) d(3) by (intro unat_index) simp
  show "task_state (tasks (run_task n s) ! i) = (if unat (task_count (run_task n s)) \<le> i then SB_TASK_UNUSED
      else if i = unat (current_index (run_task n s)) then SB_TASK_RUNNING else SB_TASK_READY)" if "i < 64" for i
    using that assms(2) d(1,4,5) by (auto simp: run_task_nth n)
  show "inj_on (\<lambda>i. task_id (tasks (run_task n s) ! i)) {..<unat (task_count (run_task n s))}"
    using d(3,7) by (auto simp: inj_on_def ids)
  show "task_id (tasks (run_task n s) ! i) \<noteq> 0" if "i < unat (task_count (run_task n s))" for i
    using that d(3,6) by (simp add: ids)
qed (use sched_invD [OF assms(1)] assms(2) in \<open>simp_all add: unat_index\<close>)

lemma next_index_less: "sched_inv s \<Longrightarrow> next_index s < unat (task_count s)"
  using sched_invD(2) [of s] by (simp add: next_index_def)

lemma pick_next_eq:
  assumes "sched_inv s"
  shows "scheduler_pick_next s = (Some (next_index s), run_task (next_index s) s)"
proof -
  note d = sched_invD [OF assms]
  have steps: "[1..<unat (task_count s) + 1] = 1 # [2..<unat (task_count s) + 1]"
    using d(2) by (subst upt_rec) (simp add: numeral_2_eq_2)
  have "unat (current_index s + 1) = unat (current_index s) + 1"
    using d(3,4) by (simp add: unat_add_small)
  then have c: "unat ((current_index s + 1) mod task_count s) = next_index s"
    by (simp add: next_index_def unat_mod)
  then have cn: "(current_index s + 1) mod task_count s = of_nat (next_index s)"
    by (metis of_nat_unat ucast_id)
  have n: "next_index s < 64" using next_index_less [OF assms] d(3) by simp
  have "task_state (tasks s ! next_index s) = SB_TASK_READY \<or> task_state (tasks s ! next_index s) = SB_TASK_RUNNING"
    using d(5) [OF n] next_index_less [OF assms] by (auto split: if_splits)
  moreover have "task_count s \<noteq> 0" using d(2) by (auto simp: unat_gt_0)
  ultimately show ?thesis
    using n cn unfolding scheduler_pick_next_def steps
    by (simp add: run_task_def unat_index Let_def del: upt_Suc)
qed

lemma tick_inv:
  assumes "sched_inv s"
  shows "sched_inv (scheduler_tick s)"
    and "scheduler_tick s = set_task (unat (current_index s)) (\<lambda>t. t\<lparr>runtime_ticks := runtime_ticks t + 1\<rparr>)
      (s\<lparr>scheduler_tick_count := scheduler_tick_count s + 1\<rparr>)"
proof -
  note d = sched_invD [OF assms]
  have c: "unat (current_index s) < 64" using d(3,4) by simp
  show eq: "scheduler_tick s = set_task (unat (current_index s)) (\<lambda>t. t\<lparr>runtime_ticks := runtime_ticks t + 1\<rparr>)
      (s\<lparr>scheduler_tick_count := scheduler_tick_count s + 1\<rparr>)"
    using d(2,4) d(5) [OF c] by (auto simp: scheduler_tick_def Let_def)
  show "sched_inv (scheduler_tick s)"
    unfolding eq by (rule sched_invI) (use d in \<open>auto simp: set_task_nth inj_on_def\<close>)
qed

lemma add_task_cases:
  assumes "sched_inv s" "scheduler_add_kernel_task ident prio s = (r, t)"
  shows "r = -1 \<Longrightarrow> t = s \<and> (task_count s = SB_SCHED_MAX_TASKS \<or> ident = 0)"
    and "r = -2 \<Longrightarrow> t = s \<and> (\<exists>i < unat (task_count s). task_id (tasks s ! i) = ident)"
    and "r = 0 \<Longrightarrow> sched_inv t \<and> task_count t = task_count s + 1 \<and> current_index t = current_index s \<and>
      task_id (tasks t ! unat (task_count s)) = ident \<and>
      (\<forall>i < unat (task_count s). tasks t ! i = tasks s ! i)"
    and "r = 0 \<or> r = -1 \<or> r = -2"
proof -
  note d = sched_invD [OF assms(1)]
  have used: "task_state (tasks s ! i) \<noteq> SB_TASK_UNUSED" if "i < unat (task_count s)" for i
    using that d(3) d(5) [of i] by (simp split: if_splits)
  show "r = -1 \<Longrightarrow> t = s \<and> (task_count s = SB_SCHED_MAX_TASKS \<or> ident = 0)"
    using assms d(3) by (auto simp: scheduler_add_kernel_task_def sched_inv_def Let_def split: if_splits)
  show "r = -2 \<Longrightarrow> t = s \<and> (\<exists>i < unat (task_count s). task_id (tasks s ! i) = ident)"
    using assms(2) by (auto simp: scheduler_add_kernel_task_def list_ex_iff Let_def split: if_splits)
  show "r = 0 \<or> r = -1 \<or> r = -2"
    using assms(2) by (auto simp: scheduler_add_kernel_task_def Let_def split: if_splits)
  show "sched_inv t \<and> task_count t = task_count s + 1 \<and> current_index t = current_index s \<and>
      task_id (tasks t ! unat (task_count s)) = ident \<and> (\<forall>i < unat (task_count s). tasks t ! i = tasks s ! i)" if "r = 0"
  proof -
    let ?n = "unat (task_count s)"
    have g: "?n < 64" "ident \<noteq> 0" "\<forall>i < ?n. task_id (tasks s ! i) \<noteq> ident"
      and t: "t = (set_task ?n (\<lambda>t. t\<lparr>task_id := ident, runtime_ticks := 0, task_priority := prio, task_state := SB_TASK_READY,
          task_context := zero_context, kernel_stack_base := 0, kernel_stack_top := 0\<rparr>) s)\<lparr>task_count := task_count s + 1\<rparr>"
      using assms(2) that used
      by (auto simp: scheduler_add_kernel_task_def list_ex_iff Let_def word_le_nat_alt SB_SCHED_MAX_TASKS_def split: if_splits)
    have cnt: "unat (task_count s + 1) = ?n + 1" using g(1) by (simp add: unat_add_small)
    have nth: "tasks t ! i = (if i = ?n then (tasks s ! i)\<lparr>task_id := ident, runtime_ticks := 0, task_priority := prio,
        task_state := SB_TASK_READY, task_context := zero_context, kernel_stack_base := 0, kernel_stack_top := 0\<rparr> else tasks s ! i)"
      if "i < 64" for i
      using that d(1) by (simp add: t set_task_nth)
    have "sched_inv t"
    proof (rule sched_invI)
      show "inj_on (\<lambda>i. task_id (tasks t ! i)) {..<unat (task_count t)}"
        using g d(7) by (auto simp: inj_on_def t cnt set_task_nth d(1) less_Suc_eq) blast
    qed (use g d cnt in \<open>auto simp: t set_task_nth less_Suc_eq\<close>)
    then show ?thesis using nth [OF g(1)] nth g(1) by (simp add: t)
  qed
qed

lemma switch_cases:
  assumes "sched_inv s" "n < unat (task_count s)" "scheduler_switch_to (Some n) s c m = (s', c', m')"
  obtains "s' = s" "c' = c" "m' = m"
  | old where "n \<noteq> unat (current_index s)"
      "sb_context_switch (task_context (tasks s ! n)) c m = (old, c', m')"
      "s' = set_task (unat (current_index s)) (\<lambda>t. t\<lparr>task_context := old\<rparr>) (run_task n s)"
proof -
  note d = sched_invD [OF assms(1)]
  have cur: "scheduler_current s = Some (unat (current_index s))"
    using d(2) by (auto simp: scheduler_current_def)
  have ctx: "task_context (tasks (set_task n (\<lambda>t. t\<lparr>task_state := SB_TASK_RUNNING\<rparr>)
      (set_task (unat (current_index s)) (\<lambda>t. t\<lparr>task_state := SB_TASK_READY\<rparr>) s)) ! n) = task_context (tasks s ! n)"
    using assms(2) d(1,3) by (simp add: set_task_nth)
  have eq: "(set_task n (\<lambda>t. t\<lparr>task_state := SB_TASK_RUNNING\<rparr>)
      (set_task (unat (current_index s)) (\<lambda>t. t\<lparr>task_state := SB_TASK_READY\<rparr>) s))\<lparr>current_index := of_nat n\<rparr> = run_task n s"
    by (simp add: run_task_def set_task_def)
  obtain old c1 m1 where sw: "sb_context_switch (task_context (tasks s ! n)) c m = (old, c1, m1)"
    by (metis prod_cases3)
  show ?thesis
    using assms(3) that sw
    by (auto simp: scheduler_switch_to_def cur eq ctx Let_def split: if_splits)
qed

lemma switch_inv:
  assumes "sched_inv s" "n < unat (task_count s)" "scheduler_switch_to (Some n) s c m = (s', c', m')"
  shows "sched_inv s'"
  using assms
proof (cases rule: switch_cases)
  case (2 old)
  note d = sched_invD [OF run_task_inv [OF assms(1,2)]]
  show ?thesis
    unfolding 2(3) by (rule sched_invI) (use d in \<open>auto simp: set_task_nth inj_on_def\<close>)
qed (use assms in simp)

lemma shift_mod_inj:
  fixes a j k n :: nat
  assumes "(a + j) mod n = (a + k) mod n" "j < n" "k < n"
  shows "j = k"
proof -
  have le: "y = x" if "(a + x) mod n = (a + y) mod n" "x \<le> y" "y < n" for x y
  proof -
    have "a + x \<le> a + y" using that(2) by simp
    then have "n dvd (a + y) - (a + x)" using that(1) mod_eq_dvd_iff_nat by metis
    then have "n dvd y - x" by simp
    then have "y - x = 0" using that(3) by (meson diff_le_self dvd_imp_le le_less_trans not_gr_zero not_le)
    then show ?thesis using that(2) by simp
  qed
  show ?thesis
  proof (cases "j \<le> k")
    case True
    from le [OF assms(1) this assms(3)] show ?thesis by (rule sym)
  next
    case False
    then have "k \<le> j" by simp
    from le [OF assms(1) [symmetric] this assms(2)] show ?thesis .
  qed
qed

section \<open>Properties\<close>

text \<open>Everything the kernel may do with the scheduler, one call per step.\<close>

inductive sched_step :: "sched \<Rightarrow> sched \<Rightarrow> bool" where
  tick: "sched_step s (scheduler_tick s)"
| add: "sched_step s (snd (scheduler_add_kernel_task ident prio s))"
| pick: "sched_step s (snd (scheduler_pick_next s))"
| switch: "n < unat (task_count s) \<Longrightarrow> sched_step s (fst (scheduler_switch_to (Some n) s c m))"

inductive_cases sched_stepE: "sched_step s t"

lemma sched_step_inv: "sched_step s t \<Longrightarrow> sched_inv s \<Longrightarrow> sched_inv t"
proof (induction rule: sched_step.induct)
  case (add s ident prio)
  obtain r t where t: "scheduler_add_kernel_task ident prio s = (r, t)" by fastforce
  from add_task_cases [OF add t] add t show ?case by auto
next
  case (switch n s c m)
  obtain s' c' m' where "scheduler_switch_to (Some n) s c m = (s', c', m')" by (metis prod_cases3)
  with switch_inv [OF switch(2,1) this] show ?case by simp
qed (simp_all add: tick_inv(1) pick_next_eq run_task_inv next_index_less)

text \<open>
  C13. After \<open>scheduler_init\<close>, however ticks, task creations, picks and context
  switches follow each other: there are 1 to 64 tasks with distinct nonzero identifiers, the
  current index names one of them, exactly that one is running, all others are ready, and the
  rest of the table is unused.
\<close>

theorem sched_reachable_inv:
  assumes "length (tasks s) = 64" "sched_step\<^sup>*\<^sup>* (scheduler_init s) t"
  shows "sched_inv t"
  using assms(2) by (induction rule: rtranclp_induct) (auto intro: scheduler_init_inv assms(1) sched_step_inv)

definition sched_static :: sched where
  "sched_static = \<lparr>tasks = replicate 64 \<lparr>task_id = 0, runtime_ticks = 0, task_priority = 0, task_state = SB_TASK_UNUSED,
     task_context = zero_context, kernel_stack_base = 0, kernel_stack_top = 0\<rparr>,
     task_count = 0, current_index = 0, scheduler_tick_count = 0\<rparr>"

theorem sched_reachable_inv_witness:
  "sched_inv (snd (scheduler_pick_next (snd (scheduler_add_kernel_task 7 1 (scheduler_init sched_static)))))"
proof (rule sched_reachable_inv [of sched_static])
  show "length (tasks sched_static) = 64" by (simp add: sched_static_def)
  show "sched_step\<^sup>*\<^sup>* (scheduler_init sched_static)
      (snd (scheduler_pick_next (snd (scheduler_add_kernel_task 7 1 (scheduler_init sched_static)))))"
    by (rule rtranclp.rtrancl_into_rtrancl, rule r_into_rtranclp, rule sched_step.add, rule sched_step.pick)
qed

text \<open>
  C4. From any state satisfying the invariant, the \<open>k\<close>-th call of
  \<open>scheduler_pick_next\<close> selects the task \<open>k\<close> places after the current one in cyclic order. So
  among any \<open>n\<close> consecutive picks on \<open>n\<close> tasks every task is selected exactly once: no task is
  starved and none is favoured.
\<close>

theorem round_robin:
  assumes "sched_inv s"
  defines "picks \<equiv> \<lambda>k. ((\<lambda>s. snd (scheduler_pick_next s)) ^^ k) s"
  shows "fst (scheduler_pick_next (picks k)) = Some ((unat (current_index s) + k + 1) mod unat (task_count s)) \<and>
    bij_betw (\<lambda>k. the (fst (scheduler_pick_next (picks k)))) {..<unat (task_count s)} {..<unat (task_count s)}"
proof -
  let ?n = "unat (task_count s)" and ?c = "unat (current_index s)"
  have inv: "sched_inv (picks k) \<and> task_count (picks k) = task_count s \<and> unat (current_index (picks k)) = (?c + k) mod ?n" for k
  proof (induction k)
    case 0
    then show ?case using assms sched_invD(4) [OF assms(1)] by (simp add: picks_def)
  next
    case (Suc k)
    then have i: "sched_inv (picks k)" by simp
    have e: "picks (Suc k) = run_task (next_index (picks k)) (picks k)"
      using pick_next_eq [OF i] by (simp add: picks_def)
    have "next_index (picks k) = (?c + Suc k) mod ?n" using Suc by (simp add: next_index_def mod_Suc_eq)
    moreover have "next_index (picks k) < 64"
      using next_index_less [OF i] sched_invD(3) [OF i] by simp
    ultimately show ?case
      using run_task_inv [OF i next_index_less [OF i]] Suc by (simp add: e unat_index)
  qed
  have val: "fst (scheduler_pick_next (picks k)) = Some ((?c + k + 1) mod ?n)" for k
    using inv [of k] pick_next_eq [of "picks k"] by (simp add: next_index_def mod_Suc_eq)
  have "inj_on (\<lambda>k. (?c + k + 1) mod ?n) {..<?n}"
  proof (rule inj_onI)
    fix x y
    assume "x \<in> {..<?n}" "y \<in> {..<?n}" "(?c + x + 1) mod ?n = (?c + y + 1) mod ?n"
    moreover have "?c + x + 1 = (?c + 1) + x" "?c + y + 1 = (?c + 1) + y" by simp_all
    ultimately show "x = y" by (metis shift_mod_inj lessThan_iff)
  qed
  moreover have "(\<lambda>k. (?c + k + 1) mod ?n) ` {..<?n} \<subseteq> {..<?n}" using sched_invD(2) [OF assms(1)] by auto
  ultimately have "bij_betw (\<lambda>k. (?c + k + 1) mod ?n) {..<?n} {..<?n}"
    by (simp add: bij_betw_def endo_inj_surj)
  then show ?thesis using val by simp
qed

theorem round_robin_witness:
  "bij_betw (\<lambda>k. the (fst (scheduler_pick_next (((\<lambda>s. snd (scheduler_pick_next s)) ^^ k) (scheduler_init sched_static)))))
     {..<unat (task_count (scheduler_init sched_static))} {..<unat (task_count (scheduler_init sched_static))}"
proof -
  have "sched_inv (scheduler_init sched_static)" by (rule scheduler_init_inv) (simp add: sched_static_def)
  from round_robin [OF this] show ?thesis by blast
qed

text \<open>
  C21. A context saved by one \<open>sb_context_switch\<close> and loaded by a later one,
  from whatever processor and memory state, resumes the first caller: its callee-saved registers
  have their values from the first call, execution continues at the return address that was on
  top of its stack, and the stack pointer is where the return leaves it. Memory changes only in
  the eight bytes below the resumed stack pointer, which hold the return address.
\<close>

theorem context_switch_resumes:
  assumes "sb_context_switch new c m = (saved, c1, m1)" "sb_context_switch saved c2 m2 = (saved2, c3, m3)"
  shows "r15 c3 = r15 c \<and> r14 c3 = r14 c \<and> r13 c3 = r13 c \<and> r12 c3 = r12 c \<and> rbx c3 = rbx c \<and> rbp c3 = rbp c \<and>
    rsp c3 = rsp c + 8 \<and> rip c3 = load64 m (rsp c) \<and>
    m3 = store64 m2 (rsp c) (load64 m (rsp c))"
  using assms by (auto simp: sb_context_switch_def Let_def load_store_same)

theorem context_switch_resumes_witness:
  "\<exists>saved c1 m1 saved2 c3 m3.
     sb_context_switch zero_context \<lparr>r15 = 1, r14 = 2, r13 = 3, r12 = 4, rbx = 5, rbp = 6, rsp = 0x9000, rip = 0\<rparr> (\<lambda>_. 0) = (saved, c1, m1) \<and>
     sb_context_switch saved c1 m1 = (saved2, c3, m3) \<and> rbx c3 = 5 \<and> rsp c3 = 0x9008"
proof -
  obtain saved c1 m1 where a: "sb_context_switch zero_context
      \<lparr>r15 = 1, r14 = 2, r13 = 3, r12 = 4, rbx = 5, rbp = 6, rsp = 0x9000, rip = 0\<rparr> (\<lambda>_. 0) = (saved, c1, m1)"
    by (metis prod_cases3)
  obtain saved2 c3 m3 where b: "sb_context_switch saved c1 m1 = (saved2, c3, m3)" by (metis prod_cases3)
  from context_switch_resumes [OF a b] a b show ?thesis by auto
qed

lemma zero_contexts:
  assumes "sched_inv s" "\<forall>i < 64. task_context (tasks s ! i) = zero_context"
  shows "n < unat (task_count s) \<Longrightarrow> scheduler_switch_to (Some n) s c m = (s, c, m)"
    and "sched_step s t \<Longrightarrow> \<forall>i < 64. task_context (tasks t ! i) = zero_context"
proof -
  note d = sched_invD [OF assms(1)]
  show sw: "scheduler_switch_to (Some n) s c m = (s, c, m)" if "n < unat (task_count s)" for n c m
    using that assms(2) d(3,4)
    by (auto simp: scheduler_switch_to_def scheduler_current_def zero_context_def split: option.split)
  assume "sched_step s t"
  then show "\<forall>i < 64. task_context (tasks t ! i) = zero_context"
  proof cases
    case tick
    then show ?thesis using assms(2) d(1) by (simp add: tick_inv(2) [OF assms(1)] set_task_nth)
  next
    case (add ident prio)
    then show ?thesis using assms(2) d(1) by (auto simp: scheduler_add_kernel_task_def set_task_nth Let_def)
  next
    case pick
    then show ?thesis using assms(2) d(1) by (simp add: pick_next_eq [OF assms(1)] run_task_nth)
  next
    case (switch n c m)
    then show ?thesis using assms(2) sw by simp
  qed
qed

text \<open>
  C22. Nothing ever fills in a task context except a context switch, and
  \<open>scheduler_switch_to\<close> refuses to switch when the saved stack pointer or instruction pointer of
  either task is zero. So in every state reachable from \<open>scheduler_init\<close> the call returns without
  switching, for every task: the table, the processor and memory stay as they are.
\<close>

theorem switch_never_happens:
  assumes "length (tasks s) = 64" "sched_step\<^sup>*\<^sup>* (scheduler_init s) t" "n < unat (task_count t)"
  shows "scheduler_switch_to (Some n) t c m = (t, c, m)"
proof -
  have "sched_inv t \<and> (\<forall>i < 64. task_context (tasks t ! i) = zero_context)"
    using assms(2)
  proof (induction rule: rtranclp_induct)
    case base
    show ?case
      using scheduler_init_inv [OF assms(1)] clear_all [of 64 s] assms(1)
      by (simp add: scheduler_init_def SB_SCHED_MAX_TASKS_def set_task_nth clear_task_def)
  next
    case (step u v)
    then show ?case using sched_step_inv zero_contexts(2) by blast
  qed
  with zero_contexts(1) assms(3) show ?thesis by blast
qed

theorem switch_never_happens_witness:
  "\<forall>c m. scheduler_switch_to (Some 0) (scheduler_init sched_static) c m = (scheduler_init sched_static, c, m)"
  by (intro allI switch_never_happens [of sched_static]) (simp_all add: sched_static_def scheduler_init_def)

end
