(* ===== verification/Block.thy ===== *)
theory Block
  imports Arrays
begin

text \<open>
  The block layer, \<^verbatim>\<open>kernel/block.h\<close> and \<^verbatim>\<open>kernel/block.c\<close>: device descriptors, the table of
  registered devices, and the memory-backed test disk of the self test. A driver function works on
  a driver state of its own type. It gets the data fields of its device, as the C functions get the
  pointer to it, and a buffer that may be a null pointer.

  The locale \<open>block_driver\<close> states what the layers above rely on: a driver reads and writes whole
  sectors of a disk image and keeps its invariant. The test disk is shown to satisfy it.
\<close>

section \<open>Devices\<close>

definition SB_BLOCK_SECTOR_SIZE :: u32 where
  "SB_BLOCK_SECTOR_SIZE = 512"

datatype block_status =
    SB_BLOCK_OK
  | SB_BLOCK_INVALID_ARGUMENT
  | SB_BLOCK_NOT_READY

record geometry =
  dev_name :: string
  sector_count :: u64
  sector_size :: u32
  driver_data :: u64

type_synonym 's driver_read =
  "geometry option \<Rightarrow> u64 \<Rightarrow> u32 \<Rightarrow> u8 list option \<Rightarrow> 's \<Rightarrow> (block_status \<times> u8 list option \<times> 's) option"

type_synonym 's driver_write =
  "geometry option \<Rightarrow> u64 \<Rightarrow> u32 \<Rightarrow> u8 list option \<Rightarrow> 's \<Rightarrow> (block_status \<times> 's) option"

record 's block_device =
  dev_geometry :: geometry
  dev_read :: "'s driver_read option"
  dev_write :: "'s driver_write option"

definition SB_MAX_BLOCK_DEVICES :: u32 where
  "SB_MAX_BLOCK_DEVICES = 16"

definition SB_SELFTEST_SECTORS :: u32 where
  "SB_SELFTEST_SECTORS = 8"

record 's block_table =
  g_devices :: "'s block_device option list"
  g_device_count :: u32

definition block_static :: "'s block_table" where
  "block_static = \<lparr>g_devices = replicate 16 None, g_device_count = 0\<rparr>"

definition sb_block_register :: "'s block_device option \<Rightarrow> 's block_table \<Rightarrow> block_status \<times> 's block_table" where
  "sb_block_register device t =
     (case device of None \<Rightarrow> (SB_BLOCK_INVALID_ARGUMENT, t)
      | Some d \<Rightarrow>
          if sector_size (dev_geometry d) = 0 \<or> sector_count (dev_geometry d) = 0 \<or>
             dev_read d = None \<or> dev_write d = None \<or> g_device_count t \<ge> SB_MAX_BLOCK_DEVICES
          then (SB_BLOCK_INVALID_ARGUMENT, t)
          else (SB_BLOCK_OK, t\<lparr>g_devices := (g_devices t)[unat (g_device_count t) := Some d],
                               g_device_count := g_device_count t + 1\<rparr>))"

definition sb_block_get :: "u32 \<Rightarrow> 's block_table \<Rightarrow> 's block_device option" where
  "sb_block_get index t = (if index \<ge> g_device_count t then None else g_devices t ! unat index)"

definition sb_block_count :: "'s block_table \<Rightarrow> u32" where
  "sb_block_count t = g_device_count t"

section \<open>The test disk\<close>

definition test_disk_read :: "u8 list driver_read" where
  "test_disk_read device lba count buffer g_test_disk =
     (case (device, buffer) of
        (Some d, Some dst) \<Rightarrow>
          if count = 0 \<or> lba \<ge> sector_count d \<or> ucast count > sector_count d - lba
          then Some (SB_BLOCK_INVALID_ARGUMENT, buffer, g_test_disk)
          else
            let offset = lba * ucast (sector_size d);
                len = (ucast count * ucast (sector_size d) :: u64) in
            do { dst \<leftarrow> for_each (\<lambda>i dst. do { v \<leftarrow> array_get g_test_disk (unat (offset + of_nat i));
                                              array_set i v dst }) [0..<unat len] dst;
                 Some (SB_BLOCK_OK, Some dst, g_test_disk) }
      | _ \<Rightarrow> Some (SB_BLOCK_INVALID_ARGUMENT, buffer, g_test_disk))"

definition test_disk_write :: "u8 list driver_write" where
  "test_disk_write device lba count buffer g_test_disk =
     (case (device, buffer) of
        (Some d, Some src) \<Rightarrow>
          if count = 0 \<or> lba \<ge> sector_count d \<or> ucast count > sector_count d - lba
          then Some (SB_BLOCK_INVALID_ARGUMENT, g_test_disk)
          else
            let offset = lba * ucast (sector_size d);
                len = (ucast count * ucast (sector_size d) :: u64) in
            do { disk \<leftarrow> for_each (\<lambda>i disk. do { v \<leftarrow> array_get src i;
                                               array_set (unat (offset + of_nat i)) v disk }) [0..<unat len] g_test_disk;
                 Some (SB_BLOCK_OK, disk) }
      | _ \<Rightarrow> Some (SB_BLOCK_INVALID_ARGUMENT, g_test_disk))"

definition test_device :: "u8 list block_device" where
  "test_device =
     \<lparr>dev_geometry = \<lparr>dev_name = ''memory-test'', sector_count = ucast SB_SELFTEST_SECTORS,
                      sector_size = SB_BLOCK_SECTOR_SIZE, driver_data = 0\<rparr>,
      dev_read = Some test_disk_read, dev_write = Some test_disk_write\<rparr>"

text \<open>The first loop of \<open>sb_block_selftest\<close>, over the two static buffers.\<close>

definition selftest_pattern :: "u32 \<Rightarrow> u8 list" where
  "selftest_pattern k = map (\<lambda>i. ucast (of_nat i XOR k)) [0..<unat SB_BLOCK_SECTOR_SIZE]"

definition sb_block_selftest ::
    "u8 list block_table \<Rightarrow> u8 list \<Rightarrow> (block_status \<times> u8 list block_table \<times> u8 list) option" where
  "sb_block_selftest t g_test_disk =
     (let write_buffer = selftest_pattern 0xA5;
          read_buffer = replicate (unat SB_BLOCK_SECTOR_SIZE) 0;
          (status, t) = sb_block_register (Some test_device) t in
      if status \<noteq> SB_BLOCK_OK then Some (SB_BLOCK_INVALID_ARGUMENT, t, g_test_disk)
      else
        case sb_block_get (sb_block_count t - 1) t of
          None \<Rightarrow> Some (SB_BLOCK_NOT_READY, t, g_test_disk)
        | Some device \<Rightarrow> do {
            wr \<leftarrow> dev_write device;
            (status, disk) \<leftarrow> wr (Some (dev_geometry device)) 2 1 (Some write_buffer) g_test_disk;
            if status \<noteq> SB_BLOCK_OK then Some (SB_BLOCK_NOT_READY, t, disk)
            else do {
              rd \<leftarrow> dev_read device;
              (status, buffer, disk) \<leftarrow> rd (Some (dev_geometry device)) 2 1 (Some read_buffer) disk;
              if status \<noteq> SB_BLOCK_OK then Some (SB_BLOCK_NOT_READY, t, disk)
              else if list_all (\<lambda>i. array_get (the buffer) i = array_get write_buffer i) [0..<unat SB_BLOCK_SECTOR_SIZE]
              then Some (SB_BLOCK_OK, t, disk)
              else Some (SB_BLOCK_INVALID_ARGUMENT, t, disk) } })"

section \<open>The driver contract\<close>

definition sectors :: "geometry \<Rightarrow> u64 \<Rightarrow> nat \<Rightarrow> u8 list \<Rightarrow> u8 list" where
  "sectors g lba n disk = take (n * unat (sector_size g)) (drop (unat lba * unat (sector_size g)) disk)"

definition put_sectors :: "geometry \<Rightarrow> u64 \<Rightarrow> u8 list \<Rightarrow> u8 list \<Rightarrow> u8 list" where
  "put_sectors g lba new disk = patch (unat lba * unat (sector_size g)) new disk"

definition in_range :: "geometry \<Rightarrow> u64 \<Rightarrow> u32 \<Rightarrow> bool" where
  "in_range g lba count \<longleftrightarrow> 0 < count \<and> unat lba + unat count \<le> unat (sector_count g)"

definition span :: "geometry \<Rightarrow> u32 \<Rightarrow> nat" where
  "span g count = unat count * unat (sector_size g)"

locale block_driver =
  fixes g :: geometry
    and rd :: "'s driver_read" and wr :: "'s driver_write"
    and max_count :: nat
    and ok :: "'s \<Rightarrow> bool" and disk :: "'s \<Rightarrow> u8 list"
  assumes disk_size: "ok s \<Longrightarrow> length (disk s) = unat (sector_count g) * unat (sector_size g)"
    and read_law: "ok s \<Longrightarrow> in_range g lba count \<Longrightarrow> unat count \<le> max_count \<Longrightarrow> span g count \<le> length buf \<Longrightarrow>
      \<exists>s'. rd (Some g) lba count (Some buf) s =
             Some (SB_BLOCK_OK, Some (patch 0 (sectors g lba (unat count) (disk s)) buf), s') \<and>
           ok s' \<and> disk s' = disk s"
    and write_law: "ok s \<Longrightarrow> in_range g lba count \<Longrightarrow> unat count \<le> max_count \<Longrightarrow> span g count \<le> length buf \<Longrightarrow>
      \<exists>s'. wr (Some g) lba count (Some buf) s = Some (SB_BLOCK_OK, s') \<and>
           ok s' \<and> disk s' = put_sectors g lba (take (span g count) buf) (disk s)"
begin

lemma span_in_disk:
  assumes "ok s" "in_range g lba count"
  shows "unat lba * unat (sector_size g) + span g count \<le> length (disk s)"
  using assms mult_le_mono1 [of "unat lba + unat count" "unat (sector_count g)" "unat (sector_size g)"]
  by (simp add: disk_size span_def in_range_def add_mult_distrib)

lemma length_sectors: "ok s \<Longrightarrow> in_range g lba count \<Longrightarrow> length (sectors g lba (unat count) (disk s)) = span g count"
  using span_in_disk [of s lba count] by (simp add: sectors_def span_def)

lemma sectors_written:
  assumes "ok s" "in_range g lba count" "span g count \<le> length buf"
  shows "sectors g lba (unat count) (put_sectors g lba (take (span g count) buf) (disk s)) = take (span g count) buf"
  using take_drop_patch [of "unat lba * unat (sector_size g)" "take (span g count) buf" "disk s"]
    span_in_disk [OF assms(1,2)] assms(3)
  by (simp add: sectors_def put_sectors_def span_def min_absorb2)

lemma write_read:
  assumes "ok s" "in_range g lba count" "unat count \<le> max_count" "span g count \<le> length buf" "span g count \<le> length buf'"
  shows "\<exists>s' s''. wr (Some g) lba count (Some buf) s = Some (SB_BLOCK_OK, s') \<and> ok s' \<and>
    rd (Some g) lba count (Some buf') s' = Some (SB_BLOCK_OK, Some (patch 0 (take (span g count) buf) buf'), s'') \<and>
    ok s'' \<and> disk s'' = put_sectors g lba (take (span g count) buf) (disk s)"
proof -
  obtain s' where w: "wr (Some g) lba count (Some buf) s = Some (SB_BLOCK_OK, s')" "ok s'"
      "disk s' = put_sectors g lba (take (span g count) buf) (disk s)"
    using write_law assms(1-4) by blast
  obtain s'' where r: "rd (Some g) lba count (Some buf') s' =
      Some (SB_BLOCK_OK, Some (patch 0 (sectors g lba (unat count) (disk s')) buf'), s'')" "ok s''" "disk s'' = disk s'"
    using read_law w(2) assms(2,3,5) by blast
  have "sectors g lba (unat count) (disk s') = take (span g count) buf"
    using sectors_written [OF assms(1,2,4)] w(3) by simp
  with w r show ?thesis by metis
qed

lemma write_other:
  assumes "ok s" "in_range g lba count" "in_range g lba' count'"
    and "unat lba' + unat count' \<le> unat lba \<or> unat lba + unat count \<le> unat lba'"
    and "span g count \<le> length buf"
  shows "sectors g lba' (unat count') (put_sectors g lba (take (span g count) buf) (disk s)) =
    sectors g lba' (unat count') (disk s)"
  unfolding sectors_def put_sectors_def
proof (rule take_drop_patch_other)
  let ?z = "unat (sector_size g)"
  show "unat lba * ?z + length (take (span g count) buf) \<le> length (disk s)"
    using span_in_disk [OF assms(1,2)] assms(5) by (simp add: min_def)
  show "unat lba' * ?z + unat count' * ?z \<le> length (disk s)"
    using span_in_disk [OF assms(1,3)] by (simp add: span_def)
  show "unat lba' * ?z + unat count' * ?z \<le> unat lba * ?z \<or>
    unat lba * ?z + length (take (span g count) buf) \<le> unat lba' * ?z"
    using assms(4,5) mult_le_mono1 [of "unat lba' + unat count'" "unat lba" ?z]
      mult_le_mono1 [of "unat lba + unat count" "unat lba'" ?z]
    by (auto simp: span_def add_mult_distrib min_def)
qed

end

section \<open>The test disk keeps the contract\<close>

lemma u64_product:
  assumes "unat (a :: u64) * unat (b :: u32) < 2 ^ 64"
  shows "unat (a * ucast b) = unat a * unat b"
  using assms unat_mult_lem [of a "ucast b :: u64"] by simp

lemma test_disk_range:
  assumes "in_range g lba count"
  shows "count \<noteq> 0" "\<not> lba \<ge> sector_count g" "\<not> ucast count > sector_count g - lba"
proof -
  show "count \<noteq> 0" using assms by (auto simp: in_range_def)
  have lt: "unat lba < unat (sector_count g)" using assms by (auto simp: in_range_def word_less_nat_alt)
  then show "\<not> lba \<ge> sector_count g" by (simp add: word_le_nat_alt)
  show "\<not> ucast count > sector_count g - lba"
    using assms lt by (auto simp: in_range_def word_less_nat_alt unat_sub_if')
qed

lemma test_disk_bounds:
  assumes "unat (sector_count g) * unat (sector_size g) < 2 ^ 64" "in_range g lba count"
  shows "unat (lba * ucast (sector_size g) :: u64) = unat lba * unat (sector_size g)"
    and "unat (ucast count * ucast (sector_size g) :: u64) = span g count"
    and "unat lba * unat (sector_size g) + span g count \<le> unat (sector_count g) * unat (sector_size g)"
proof -
  show 3: "unat lba * unat (sector_size g) + span g count \<le> unat (sector_count g) * unat (sector_size g)"
    using assms(2) mult_le_mono1 [of "unat lba + unat count" "unat (sector_count g)" "unat (sector_size g)"]
    by (simp add: span_def in_range_def add_mult_distrib)
  from 3 assms(1) show "unat (lba * ucast (sector_size g) :: u64) = unat lba * unat (sector_size g)"
    by (intro u64_product) simp
  from 3 assms(1) show "unat (ucast count * ucast (sector_size g) :: u64) = span g count"
    using u64_product [of "ucast count" "sector_size g"] by (simp add: span_def)
qed

lemma test_disk_index:
  assumes "unat lba * unat z + n \<le> N" "N < 2 ^ 64" "unat (lba * ucast (z :: u32) :: u64) = unat lba * unat z" "i < n"
  shows "unat (lba * ucast z + of_nat i :: u64) = unat lba * unat z + i"
proof -
  have i: "unat (of_nat i :: u64) = i" using assms by (intro unat_of_nat_small) simp
  have "unat (lba * ucast z :: u64) + unat (of_nat i :: u64) < 2 ^ LENGTH(64)" using assms by (simp add: i)
  then have "unat (lba * ucast z + of_nat i :: u64) = unat (lba * ucast z :: u64) + unat (of_nat i :: u64)"
    by (rule unat_add_small)
  then show ?thesis using assms by (simp add: i)
qed

lemma test_disk_driver:
  assumes "unat (sector_count g) * unat (sector_size g) < 2 ^ 64"
  shows "block_driver g test_disk_read test_disk_write (2 ^ 32)
    (\<lambda>disk. length disk = unat (sector_count g) * unat (sector_size g)) (\<lambda>disk. disk)"
proof
  fix lba count and buf disk :: "u8 list"
  assume d: "length disk = unat (sector_count g) * unat (sector_size g)" and r: "in_range g lba count"
    and b: "span g count \<le> length buf"
  note bounds = test_disk_bounds [OF assms r]
  note idx = test_disk_index [OF bounds(3) assms bounds(1)]
  show "\<exists>s'. test_disk_read (Some g) lba count (Some buf) disk =
      Some (SB_BLOCK_OK, Some (patch 0 (sectors g lba (unat count) disk) buf), s') \<and>
      length s' = unat (sector_count g) * unat (sector_size g) \<and> s' = disk"
    using copy_bytes_index [of "span g count" "\<lambda>i. unat (lba * ucast (sector_size g) + of_nat i :: u64)"
        "unat lba * unat (sector_size g)" "\<lambda>i. i" 0 disk buf] idx
      copy_bytes_Some [of "unat lba * unat (sector_size g)" "span g count" disk 0 buf] bounds(3) b d
    by (simp add: test_disk_read_def test_disk_range [OF r] bounds Let_def sectors_def span_def)
  show "\<exists>s'. test_disk_write (Some g) lba count (Some buf) disk = Some (SB_BLOCK_OK, s') \<and>
      length s' = unat (sector_count g) * unat (sector_size g) \<and>
      s' = put_sectors g lba (take (span g count) buf) disk"
    using copy_bytes_index [of "span g count" "\<lambda>i. i" 0
        "\<lambda>i. unat (lba * ucast (sector_size g) + of_nat i :: u64)" "unat lba * unat (sector_size g)" buf disk] idx
      copy_bytes_Some [of 0 "span g count" buf "unat lba * unat (sector_size g)" disk] bounds(3) b d
    by (simp add: test_disk_write_def test_disk_range [OF r] bounds Let_def put_sectors_def min_absorb2)
qed simp

definition test_geometry :: geometry where
  "test_geometry = dev_geometry test_device"

lemma test_geometry_simps [simp]:
  "sector_count test_geometry = 8" "sector_size test_geometry = 512"
  by (simp_all add: test_geometry_def test_device_def SB_SELFTEST_SECTORS_def SB_BLOCK_SECTOR_SIZE_def)

interpretation test_disk: block_driver test_geometry test_disk_read test_disk_write "2 ^ 32"
  "\<lambda>disk. length disk = unat (sector_count test_geometry) * unat (sector_size test_geometry)" "\<lambda>disk. disk"
  by (rule test_disk_driver) simp

section \<open>The table of devices\<close>

definition device_ok :: "'s block_device \<Rightarrow> bool" where
  "device_ok d \<longleftrightarrow> sector_size (dev_geometry d) \<noteq> 0 \<and> sector_count (dev_geometry d) \<noteq> 0 \<and>
     dev_read d \<noteq> None \<and> dev_write d \<noteq> None"

definition registered :: "'s block_table \<Rightarrow> 's block_device option list" where
  "registered t = take (unat (g_device_count t)) (g_devices t)"

definition table_ok :: "'s block_table \<Rightarrow> bool" where
  "table_ok t \<longleftrightarrow> length (g_devices t) = 16 \<and> g_device_count t \<le> 16"

lemma table_ok_static: "table_ok block_static" "registered block_static = []"
  by (simp_all add: table_ok_def block_static_def registered_def)

lemma register_full: "\<not> (g_device_count t \<ge> SB_MAX_BLOCK_DEVICES) \<longleftrightarrow> unat (g_device_count t) < 16"
  by (simp add: SB_MAX_BLOCK_DEVICES_def word_le_nat_alt not_le)

lemma register_step:
  assumes "table_ok t" "sb_block_register device t = (status, t')"
  shows "table_ok t' \<and>
    (if length (registered t) < 16 \<and> (\<exists>d. device = Some d \<and> device_ok d)
     then status = SB_BLOCK_OK \<and> registered t' = registered t @ [device]
     else status = SB_BLOCK_INVALID_ARGUMENT \<and> t' = t)"
proof -
  have len: "length (registered t) = unat (g_device_count t)"
    using assms(1) by (simp add: table_ok_def registered_def word_le_nat_alt)
  show ?thesis
  proof (cases "length (registered t) < 16 \<and> (\<exists>d. device = Some d \<and> device_ok d)")
    case True
    then obtain d where d: "device = Some d" "device_ok d" by auto
    have c: "unat (g_device_count t) < 16" using True len by simp
    then have "unat (g_device_count t + 1) = Suc (unat (g_device_count t))"
      using unat_add_small [of "g_device_count t" 1] by simp
    moreover have "t' = t\<lparr>g_devices := (g_devices t)[unat (g_device_count t) := Some d],
        g_device_count := g_device_count t + 1\<rparr>" "status = SB_BLOCK_OK"
      using assms(2) d c register_full [of t]
      by (auto simp: sb_block_register_def device_ok_def split: if_splits)
    ultimately show ?thesis using True assms(1) c d
      by (simp add: table_ok_def registered_def take_Suc_conv_app_nth word_le_nat_alt)
  next
    case False
    then have "status = SB_BLOCK_INVALID_ARGUMENT \<and> t' = t"
      using assms(2) len register_full [of t]
      by (auto simp: sb_block_register_def device_ok_def split: if_splits option.splits)
    then show ?thesis using False assms(1) by auto
  qed
qed

definition register_all :: "'s block_device option list \<Rightarrow> 's block_table \<Rightarrow> 's block_table" where
  "register_all ds t = fold (\<lambda>d t. snd (sb_block_register d t)) ds t"

definition valid_device :: "'s block_device option \<Rightarrow> bool" where
  "valid_device device \<longleftrightarrow> (\<exists>d. device = Some d \<and> device_ok d)"

lemma register_all_registered:
  assumes "table_ok t"
  shows "table_ok (register_all ds t) \<and>
    registered (register_all ds t) = take 16 (registered t @ filter valid_device ds)"
  using assms
proof (induction ds arbitrary: t)
  case Nil
  then show ?case by (simp add: register_all_def table_ok_def registered_def word_le_nat_alt)
next
  case (Cons d ds)
  obtain status t' where r: "sb_block_register d t = (status, t')" by (cases "sb_block_register d t")
  have le: "length (registered t) \<le> 16"
    using Cons.prems by (simp add: table_ok_def registered_def)
  note step = register_step [OF Cons.prems r]
  then have "table_ok t'" by simp
  note IH = Cons.IH [OF this]
  show ?case
  proof (cases "length (registered t) < 16 \<and> valid_device d")
    case True
    then have "registered t' = registered t @ [d]" using step by (auto simp: valid_device_def)
    then show ?thesis using IH True r by (simp add: register_all_def)
  next
    case False
    then have "t' = t" using step by (auto simp: valid_device_def split: if_splits)
    then show ?thesis using IH False r le by (cases "valid_device d") (auto simp: register_all_def)
  qed
qed

lemma length_registered: "table_ok t \<Longrightarrow> length (registered t) = unat (sb_block_count t)"
  by (auto simp: sb_block_count_def table_ok_def registered_def word_le_nat_alt)

lemma block_get_registered:
  assumes "table_ok t"
  shows "sb_block_get i t = (if unat i < length (registered t) then registered t ! unat i else None)"
  using assms by (auto simp: sb_block_get_def registered_def table_ok_def word_le_nat_alt)

text \<open>
  C23. Whatever descriptors are registered, valid or not, the table holds the first
  sixteen valid ones in the order of registration: \<open>sb_block_count\<close> is their number, an index
  below it gives that descriptor, and every other index gives the null pointer.
\<close>

theorem devices_registered:
  "unat (sb_block_count (register_all ds block_static)) = length (take 16 (filter valid_device ds)) \<and>
   sb_block_get i (register_all ds block_static) =
     (if unat i < length (take 16 (filter valid_device ds)) then take 16 (filter valid_device ds) ! unat i else None)"
proof -
  have "table_ok (register_all ds block_static)"
      "registered (register_all ds block_static) = take 16 (filter valid_device ds)"
    using register_all_registered [OF table_ok_static(1), of ds] by (simp_all add: table_ok_static)
  then show ?thesis
    using block_get_registered [of "register_all ds block_static" i] length_registered
    by (metis (no_types, lifting))
qed

section \<open>The self test\<close>

lemma length_pattern [simp]: "length (selftest_pattern k) = 512"
  by (simp add: selftest_pattern_def SB_BLOCK_SECTOR_SIZE_def)

lemma device_ok_test: "device_ok test_device"
  by (simp add: device_ok_def test_device_def SB_SELFTEST_SECTORS_def SB_BLOCK_SECTOR_SIZE_def)

text \<open>
  The self test returns, without leaving its buffers, and reports success
  exactly when the device table has a free entry; it then has added the test device to the table
  and changed sector 2 of the test disk only.
\<close>

lemma block_selftest_result:
  assumes "table_ok t" "length disk = 4096"
  shows "sb_block_selftest t disk =
    (if length (registered t) < 16
     then Some (SB_BLOCK_OK, snd (sb_block_register (Some test_device) t), patch 1024 (selftest_pattern 0xA5) disk)
     else Some (SB_BLOCK_INVALID_ARGUMENT, t, disk))"
proof -
  obtain status t' where r: "sb_block_register (Some test_device) t = (status, t')"
    by (cases "sb_block_register (Some test_device) t")
  note step = register_step [OF assms(1) r]
  show ?thesis
  proof (cases "length (registered t) < 16")
    case True
    then have s: "status = SB_BLOCK_OK" "registered t' = registered t @ [Some test_device]" "table_ok t'"
      using step device_ok_test by auto
    have "unat (sb_block_count t' - 1) = length (registered t)"
      using length_registered [OF s(3)] s(2) unat_minus_one [of "sb_block_count t'"] by fastforce
    then have get: "sb_block_get (sb_block_count t' - 1) t' = Some test_device"
      using block_get_registered [OF s(3), of "sb_block_count t' - 1"] s(2) by simp
    have rng: "in_range test_geometry 2 1" "span test_geometry 1 = 512"
      by (simp_all add: in_range_def span_def)
    obtain d' where w: "test_disk_write (Some test_geometry) 2 1 (Some (selftest_pattern 0xA5)) disk = Some (SB_BLOCK_OK, d')"
      and rd: "test_disk_read (Some test_geometry) 2 1 (Some (replicate 512 0)) d' =
        Some (SB_BLOCK_OK, Some (selftest_pattern 0xA5), patch 1024 (selftest_pattern 0xA5) disk)"
      using test_disk.write_read [of disk 2 1 "selftest_pattern 0xA5" "replicate 512 0"] assms(2) rng
      by (auto simp: put_sectors_def patch_def)
    show ?thesis using True s get w rd r
      by (simp add: sb_block_selftest_def test_device_def test_geometry_def SB_BLOCK_SECTOR_SIZE_def list_all_iff)
  next
    case False
    then have "status = SB_BLOCK_INVALID_ARGUMENT" "t' = t" using step by auto
    then show ?thesis using False r by (simp add: sb_block_selftest_def)
  qed
qed

end
