(* ===== verification/Vfs.thy ===== *)
theory Vfs
  imports Block
begin

text \<open>
  The sector layer of the file systems, \<^verbatim>\<open>kernel/vfs.h\<close> and \<^verbatim>\<open>kernel/vfs.c\<close>, and the storage
  self test, \<^verbatim>\<open>kernel/storage_selftest.c\<close>, which runs it on a second memory-backed disk. The
  locale \<open>vfs_volume\<close> is a mount on a device whose driver keeps the contract \<open>block_driver\<close>; the
  file system above works on it.
\<close>

section \<open>Operations\<close>

datatype vfs_status =
    SB_VFS_OK
  | SB_VFS_INVALID_ARGUMENT
  | SB_VFS_NOT_FOUND
  | SB_VFS_IO_ERROR
  | SB_VFS_NOT_READY

record 's vfs_mount =
  block_device :: "'s block_device option"
  mount_sector_size :: u32
  total_sectors :: u64

definition sb_vfs_mount :: "'s block_device option \<Rightarrow> 's vfs_mount option \<Rightarrow> vfs_status \<times> 's vfs_mount option" where
  "sb_vfs_mount device mount =
     (case (device, mount) of
        (Some d, Some m) \<Rightarrow>
          if dev_read d = None \<or> dev_write d = None \<or> sector_size (dev_geometry d) = 0 \<or> sector_count (dev_geometry d) = 0
          then (SB_VFS_INVALID_ARGUMENT, mount)
          else (SB_VFS_OK, Some (m\<lparr>block_device := device, mount_sector_size := sector_size (dev_geometry d),
                                   total_sectors := sector_count (dev_geometry d)\<rparr>))
      | _ \<Rightarrow> (SB_VFS_INVALID_ARGUMENT, mount))"

definition sb_vfs_read_sectors ::
    "'s vfs_mount option \<Rightarrow> u64 \<Rightarrow> u32 \<Rightarrow> u8 list option \<Rightarrow> 's \<Rightarrow> (vfs_status \<times> u8 list option \<times> 's) option" where
  "sb_vfs_read_sectors mount lba count buffer s =
     (case mount of None \<Rightarrow> Some (SB_VFS_INVALID_ARGUMENT, buffer, s)
      | Some m \<Rightarrow>
          (case block_device m of None \<Rightarrow> Some (SB_VFS_INVALID_ARGUMENT, buffer, s)
           | Some d \<Rightarrow>
               if buffer = None \<or> count = 0 then Some (SB_VFS_INVALID_ARGUMENT, buffer, s)
               else if lba \<ge> total_sectors m \<or> ucast count > total_sectors m - lba
               then Some (SB_VFS_INVALID_ARGUMENT, buffer, s)
               else do {
                 rd \<leftarrow> dev_read d;
                 (status, buffer, s) \<leftarrow> rd (Some (dev_geometry d)) lba count buffer s;
                 Some (if status = SB_BLOCK_OK then SB_VFS_OK else SB_VFS_IO_ERROR, buffer, s) }))"

definition sb_vfs_write_sectors ::
    "'s vfs_mount option \<Rightarrow> u64 \<Rightarrow> u32 \<Rightarrow> u8 list option \<Rightarrow> 's \<Rightarrow> (vfs_status \<times> 's) option" where
  "sb_vfs_write_sectors mount lba count buffer s =
     (case mount of None \<Rightarrow> Some (SB_VFS_INVALID_ARGUMENT, s)
      | Some m \<Rightarrow>
          (case block_device m of None \<Rightarrow> Some (SB_VFS_INVALID_ARGUMENT, s)
           | Some d \<Rightarrow>
               if buffer = None \<or> count = 0 then Some (SB_VFS_INVALID_ARGUMENT, s)
               else if lba \<ge> total_sectors m \<or> ucast count > total_sectors m - lba
               then Some (SB_VFS_INVALID_ARGUMENT, s)
               else do {
                 wr \<leftarrow> dev_write d;
                 (status, s) \<leftarrow> wr (Some (dev_geometry d)) lba count buffer s;
                 Some (if status = SB_BLOCK_OK then SB_VFS_OK else SB_VFS_IO_ERROR, s) }))"

section \<open>The storage self test\<close>

definition SB_STORAGE_TEST_SECTORS :: u64 where
  "SB_STORAGE_TEST_SECTORS = 8"

text \<open>
  The driver of \<^verbatim>\<open>storage_selftest.c\<close> ignores its device argument. Its loop bound
  \<^verbatim>\<open>count * SB_BLOCK_SECTOR_SIZE\<close> is a 32-bit product.
\<close>

definition storage_disk_read :: "u8 list driver_read" where
  "storage_disk_read device lba count buffer g_test_disk =
     (case buffer of None \<Rightarrow> Some (SB_BLOCK_INVALID_ARGUMENT, buffer, g_test_disk)
      | Some dst \<Rightarrow>
          if count = 0 \<or> lba \<ge> SB_STORAGE_TEST_SECTORS \<or> ucast count > SB_STORAGE_TEST_SECTORS - lba
          then Some (SB_BLOCK_INVALID_ARGUMENT, buffer, g_test_disk)
          else
            let offset = lba * ucast SB_BLOCK_SECTOR_SIZE in
            do { dst \<leftarrow> for_each (\<lambda>i dst. do { v \<leftarrow> array_get g_test_disk (unat (offset + of_nat i));
                                              array_set i v dst }) [0..<unat (count * SB_BLOCK_SECTOR_SIZE)] dst;
                 Some (SB_BLOCK_OK, Some dst, g_test_disk) })"

definition storage_disk_write :: "u8 list driver_write" where
  "storage_disk_write device lba count buffer g_test_disk =
     (case buffer of None \<Rightarrow> Some (SB_BLOCK_INVALID_ARGUMENT, g_test_disk)
      | Some src \<Rightarrow>
          if count = 0 \<or> lba \<ge> SB_STORAGE_TEST_SECTORS \<or> ucast count > SB_STORAGE_TEST_SECTORS - lba
          then Some (SB_BLOCK_INVALID_ARGUMENT, g_test_disk)
          else
            let offset = lba * ucast SB_BLOCK_SECTOR_SIZE in
            do { disk \<leftarrow> for_each (\<lambda>i disk. do { v \<leftarrow> array_get src i;
                                               array_set (unat (offset + of_nat i)) v disk })
                                  [0..<unat (count * SB_BLOCK_SECTOR_SIZE)] g_test_disk;
                 Some (SB_BLOCK_OK, disk) })"

definition g_test_disk_device :: "u8 list block_device" where
  "g_test_disk_device =
     \<lparr>dev_geometry = \<lparr>dev_name = ''memtest0'', sector_count = SB_STORAGE_TEST_SECTORS,
                      sector_size = SB_BLOCK_SECTOR_SIZE, driver_data = 0\<rparr>,
      dev_read = Some storage_disk_read, dev_write = Some storage_disk_write\<rparr>"

text \<open>The local mount structure of the self test is uninitialised; \<open>m\<close> is what it happens to hold.\<close>

definition sb_storage_selftest ::
    "u8 list vfs_mount \<Rightarrow> u8 list block_table \<Rightarrow> u8 list \<Rightarrow> (int \<times> u8 list block_table \<times> u8 list) option" where
  "sb_storage_selftest m t g_test_disk =
     (let write_buffer = selftest_pattern 0x5A;
          read_buffer = replicate (unat SB_BLOCK_SECTOR_SIZE) 0;
          (status, t) = sb_block_register (Some g_test_disk_device) t in
      if status \<noteq> SB_BLOCK_OK then Some (0, t, g_test_disk)
      else
        let (status, mount) = sb_vfs_mount (Some g_test_disk_device) (Some m) in
        if status \<noteq> SB_VFS_OK then Some (0, t, g_test_disk)
        else do {
          (status, disk) \<leftarrow> sb_vfs_write_sectors mount 2 1 (Some write_buffer) g_test_disk;
          if status \<noteq> SB_VFS_OK then Some (0, t, disk)
          else do {
            (status, buffer, disk) \<leftarrow> sb_vfs_read_sectors mount 2 1 (Some read_buffer) disk;
            if status \<noteq> SB_VFS_OK then Some (0, t, disk)
            else if list_all (\<lambda>i. array_get (the buffer) i = array_get write_buffer i) [0..<unat SB_BLOCK_SECTOR_SIZE]
            then Some (1, t, disk) else Some (0, t, disk) } })"

section \<open>Mounted volumes\<close>

text \<open>What \<open>sb_vfs_mount\<close> makes of a device.\<close>

definition mounted :: "'s block_device \<Rightarrow> 's vfs_mount" where
  "mounted d = \<lparr>block_device = Some d, mount_sector_size = sector_size (dev_geometry d),
                total_sectors = sector_count (dev_geometry d)\<rparr>"

lemma vfs_mount_eq:
  "sb_vfs_mount (Some d) (Some m) = (if device_ok d then (SB_VFS_OK, Some (mounted d)) else (SB_VFS_INVALID_ARGUMENT, Some m))"
  by (auto simp: sb_vfs_mount_def device_ok_def mounted_def)

lemma out_of_range:
  "in_range g lba count \<longleftrightarrow> \<not> (count = 0 \<or> lba \<ge> sector_count g \<or> ucast count > sector_count g - lba)"
  using unat_sub_if' [of "sector_count g" lba]
  by (auto simp: in_range_def word_le_nat_alt word_less_nat_alt unat_eq_zero unat_gt_0)

locale vfs_volume = block_driver g rd wr max_count ok disk
  for g :: geometry and rd :: "'s driver_read" and wr :: "'s driver_write"
    and max_count :: nat and ok :: "'s \<Rightarrow> bool" and disk :: "'s \<Rightarrow> u8 list" +
  fixes dev :: "'s block_device"
  assumes dev_g: "dev_geometry dev = g"
    and dev_rd: "dev_read dev = Some rd" and dev_wr: "dev_write dev = Some wr"
    and max_pos: "0 < max_count"
begin

lemma vfs_read:
  assumes "ok s" "unat count \<le> max_count" "span g count \<le> length buf"
  shows "\<exists>s'. ok s' \<and> disk s' = disk s \<and> sb_vfs_read_sectors (Some (mounted dev)) lba count (Some buf) s =
    (if in_range g lba count then Some (SB_VFS_OK, Some (patch 0 (sectors g lba (unat count) (disk s)) buf), s')
     else Some (SB_VFS_INVALID_ARGUMENT, Some buf, s'))"
proof (cases "in_range g lba count")
  case True
  then show ?thesis
    using read_law [OF assms(1) True assms(2,3)] out_of_range [of g lba count]
    by (auto simp: sb_vfs_read_sectors_def mounted_def dev_g dev_rd)
next
  case False
  then show ?thesis
    using out_of_range [of g lba count] assms(1) by (auto simp: sb_vfs_read_sectors_def mounted_def dev_g)
qed

lemma vfs_write:
  assumes "ok s" "unat count \<le> max_count" "span g count \<le> length buf"
  shows "\<exists>s'. ok s' \<and>
    sb_vfs_write_sectors (Some (mounted dev)) lba count (Some buf) s =
      Some (if in_range g lba count then SB_VFS_OK else SB_VFS_INVALID_ARGUMENT, s') \<and>
    disk s' = (if in_range g lba count then put_sectors g lba (take (span g count) buf) (disk s) else disk s)"
proof (cases "in_range g lba count")
  case True
  then show ?thesis
    using write_law [OF assms(1) True assms(2,3)] out_of_range [of g lba count]
    by (auto simp: sb_vfs_write_sectors_def mounted_def dev_g dev_wr)
next
  case False
  then show ?thesis
    using out_of_range [of g lba count] assms(1) by (auto simp: sb_vfs_write_sectors_def mounted_def dev_g)
qed

lemma vfs_read_sector:
  assumes "ok s" "length buf = unat (sector_size g)"
  shows "\<exists>s'. ok s' \<and> disk s' = disk s \<and> sb_vfs_read_sectors (Some (mounted dev)) lba 1 (Some buf) s =
    (if unat lba < unat (sector_count g) then Some (SB_VFS_OK, Some (sectors g lba 1 (disk s)), s')
     else Some (SB_VFS_INVALID_ARGUMENT, Some buf, s'))"
  using vfs_read [OF assms(1), of 1 buf lba] assms(2) max_pos length_sectors [OF assms(1), of lba 1]
  by (fastforce simp: in_range_def span_def patch_def Suc_le_eq)

end

section \<open>The two memory disks\<close>

definition storage_geometry :: geometry where
  "storage_geometry = dev_geometry g_test_disk_device"

lemma storage_geometry_simps [simp]:
  "sector_count storage_geometry = 8" "sector_size storage_geometry = 512"
  by (simp_all add: storage_geometry_def g_test_disk_device_def SB_STORAGE_TEST_SECTORS_def SB_BLOCK_SECTOR_SIZE_def)

lemma storage_disk_eq:
  "storage_disk_read (Some storage_geometry) lba count buffer d = test_disk_read (Some storage_geometry) lba count buffer d"
  "storage_disk_write (Some storage_geometry) lba count buffer d = test_disk_write (Some storage_geometry) lba count buffer d"
proof -
  have len: "unat (count * SB_BLOCK_SECTOR_SIZE) = unat (ucast count * 512 :: u64)"
    if "\<not> (count = 0 \<or> 8 \<le> lba \<or> ucast count > 8 - lba)"
  proof -
    have "in_range storage_geometry lba count" using that by (simp add: out_of_range)
    then have c: "unat count \<le> 8" by (simp add: in_range_def)
    then have "unat (count * 512) = unat count * 512" by (simp add: unat_mult_small)
    moreover have "unat (ucast count * 512 :: u64) = unat count * 512"
      using c unat_mult_small [of "ucast count :: u64" 512] by simp
    ultimately show ?thesis by (simp add: SB_BLOCK_SECTOR_SIZE_def)
  qed
  show "storage_disk_read (Some storage_geometry) lba count buffer d = test_disk_read (Some storage_geometry) lba count buffer d"
    using len by (auto simp: storage_disk_read_def test_disk_read_def SB_STORAGE_TEST_SECTORS_def
        SB_BLOCK_SECTOR_SIZE_def Let_def split: option.split)
  show "storage_disk_write (Some storage_geometry) lba count buffer d = test_disk_write (Some storage_geometry) lba count buffer d"
    using len by (auto simp: storage_disk_write_def test_disk_write_def SB_STORAGE_TEST_SECTORS_def
        SB_BLOCK_SECTOR_SIZE_def Let_def split: option.split)
qed

interpretation storage_vfs: vfs_volume storage_geometry storage_disk_read storage_disk_write "2 ^ 32"
  "\<lambda>disk. length disk = 4096" "\<lambda>disk. disk" g_test_disk_device
proof -
  have "block_driver storage_geometry test_disk_read test_disk_write (2 ^ 32)
      (\<lambda>disk. length disk = unat (sector_count storage_geometry) * unat (sector_size storage_geometry)) (\<lambda>disk. disk)"
    by (rule test_disk_driver) simp
  then have "block_driver storage_geometry storage_disk_read storage_disk_write (2 ^ 32)
      (\<lambda>disk. length disk = 4096) (\<lambda>disk. disk)"
    by (simp add: block_driver_def storage_disk_eq)
  moreover have "dev_geometry g_test_disk_device = storage_geometry" by (simp add: storage_geometry_def)
  moreover have "dev_read g_test_disk_device = Some storage_disk_read" "dev_write g_test_disk_device = Some storage_disk_write"
    by (simp_all add: g_test_disk_device_def)
  ultimately show "vfs_volume storage_geometry storage_disk_read storage_disk_write (2 ^ 32)
      (\<lambda>disk. length disk = 4096) (\<lambda>disk. disk) g_test_disk_device"
    by (simp add: vfs_volume_def vfs_volume_axioms_def)
qed

interpretation test_vfs: vfs_volume test_geometry test_disk_read test_disk_write "2 ^ 32"
  "\<lambda>disk. length disk = unat (sector_count test_geometry) * unat (sector_size test_geometry)" "\<lambda>disk. disk" test_device
  by unfold_locales (simp_all add: test_geometry_def test_device_def)

text \<open>
  C24. On a device whose driver keeps the driver contract, sectors written through a
  mount are what the next read of them returns, the rest of the buffer is left alone, and a read of
  sectors that do not overlap them returns what it returned before the write.
\<close>

theorem vfs_write_read:
  assumes "vfs_volume g rd wr max_count ok disk dev" "sb_vfs_mount (Some dev) (Some m) = (SB_VFS_OK, mount)"
    and "ok s" "in_range g lba count" "unat count \<le> max_count" "span g count \<le> length buf"
    and "in_range g lba' count'" "unat count' \<le> max_count" "span g count' \<le> length buf'"
  shows "\<exists>s' s''. sb_vfs_write_sectors mount lba count (Some buf) s = Some (SB_VFS_OK, s') \<and>
    ((lba', count') = (lba, count) \<longrightarrow>
       sb_vfs_read_sectors mount lba' count' (Some buf') s' =
         Some (SB_VFS_OK, Some (take (span g count) buf @ drop (span g count) buf'), s'')) \<and>
    (unat lba' + unat count' \<le> unat lba \<or> unat lba + unat count \<le> unat lba' \<longrightarrow>
       sb_vfs_read_sectors mount lba' count' (Some buf') s' =
         Some (SB_VFS_OK, Some (patch 0 (sectors g lba' (unat count') (disk s)) buf'), s''))"
proof -
  from assms(1) have v: "vfs_volume g rd wr max_count ok disk dev" .
  then have b: "block_driver g rd wr max_count ok disk" by (simp add: vfs_volume_def)
  have mount: "mount = Some (mounted dev)" using assms(2) by (auto simp: vfs_mount_eq split: if_splits)
  obtain s' where w: "ok s'" "sb_vfs_write_sectors mount lba count (Some buf) s = Some (SB_VFS_OK, s')"
      "disk s' = put_sectors g lba (take (span g count) buf) (disk s)"
    using vfs_volume.vfs_write [OF v assms(3,5,6), of lba] assms(4) mount by auto
  obtain s'' where r: "sb_vfs_read_sectors mount lba' count' (Some buf') s' =
      Some (SB_VFS_OK, Some (patch 0 (sectors g lba' (unat count') (disk s')) buf'), s'')"
    using vfs_volume.vfs_read [OF v w(1) assms(8,9), of lba'] assms(7) mount by auto
  have "sectors g lba (unat count) (disk s') = take (span g count) buf"
    using block_driver.sectors_written [OF b assms(3,4,6)] w(3) by simp
  then show ?thesis
    using w r block_driver.write_other [OF b assms(3,4,7) _ assms(6)] assms(6) by (auto simp: patch_def min_absorb2)
qed

theorem vfs_write_read_witness:
  "\<exists>s' s''. sb_vfs_write_sectors (Some (mounted test_device)) 2 1 (Some (replicate 512 7)) (replicate 4096 0) = Some (SB_VFS_OK, s') \<and>
     sb_vfs_read_sectors (Some (mounted test_device)) 2 1 (Some (replicate 512 0)) s' =
       Some (SB_VFS_OK, Some (replicate 512 7), s'')"
  using vfs_write_read [OF test_vfs.vfs_volume_axioms, of "mounted test_device" "Some (mounted test_device)" "replicate 4096 0" 2 1
      "replicate 512 7" 2 1 "replicate 512 0"] device_ok_test
  by (simp add: vfs_mount_eq in_range_def span_def)

section \<open>The storage self test succeeds\<close>

lemma device_ok_storage: "device_ok g_test_disk_device"
  by (simp add: device_ok_def g_test_disk_device_def SB_STORAGE_TEST_SECTORS_def SB_BLOCK_SECTOR_SIZE_def)

text \<open>
  C25. The storage self test, through the device table, the mount and the
  driver, returns without leaving its buffers and reports success exactly when the device table has
  a free entry; the disk then holds the test pattern in sector 2 and is otherwise unchanged.
\<close>

theorem storage_selftest_result:
  assumes "table_ok t" "length disk = 4096"
  shows "sb_storage_selftest m t disk =
    (if length (registered t) < 16
     then Some (1, snd (sb_block_register (Some g_test_disk_device) t), patch 1024 (selftest_pattern 0x5A) disk)
     else Some (0, t, disk))"
proof -
  obtain status t' where r: "sb_block_register (Some g_test_disk_device) t = (status, t')"
    by (cases "sb_block_register (Some g_test_disk_device) t")
  note step = register_step [OF assms(1) r]
  have rng: "in_range storage_geometry 2 1" "span storage_geometry 1 = 512"
    by (simp_all add: in_range_def span_def)
  let ?p = "selftest_pattern 0x5A" and ?m = "Some (mounted g_test_disk_device)"
  have w: "sb_vfs_write_sectors ?m 2 1 (Some ?p) disk = Some (SB_VFS_OK, patch 1024 ?p disk)"
    using storage_vfs.vfs_write [OF assms(2), of 1 ?p 2] rng by (auto simp: put_sectors_def)
  have rd: "sb_vfs_read_sectors ?m 2 1 (Some (replicate 512 0)) (patch 1024 ?p disk) =
      Some (SB_VFS_OK, Some ?p, patch 1024 ?p disk)"
    using storage_vfs.vfs_read_sector [of "patch 1024 ?p disk" "replicate 512 0" 2] assms(2)
      storage_vfs.sectors_written [OF assms(2) rng(1), of ?p] rng
    by (simp add: put_sectors_def)
  show ?thesis
    using step r w rd device_ok_storage
    by (cases "length (registered t) < 16")
      (simp_all add: sb_storage_selftest_def vfs_mount_eq SB_BLOCK_SECTOR_SIZE_def list_all_iff)
qed

theorem storage_selftest_result_witness:
  "fst (the (sb_storage_selftest (mounted test_device) block_static (replicate 4096 0))) = 1"
  using storage_selftest_result [OF table_ok_static(1), of "replicate 4096 0" "mounted test_device"]
  by (simp add: table_ok_static)

end
