(* ===== verification/Fat32.thy ===== *)
theory Fat32
  imports Vfs
begin

text \<open>
  The read-only FAT32 driver, \<^verbatim>\<open>kernel/fs/fat32.h\<close> and \<^verbatim>\<open>kernel/fs/fat32.c\<close>, on top of a mounted
  volume. The functions thread the state of the block driver; \<open>None\<close> is an access outside one of
  the local arrays, a division by zero or a loop that does not end. A local sector buffer starts as
  zeros: the code reads it only after a successful read has filled it.

  The correctness statements compare the code with a reference reading of the disk image: the
  clusters of a file in the order of its chain.
\<close>

section \<open>Operations\<close>

definition SB_FAT32_ATTR_DIRECTORY :: u8 where
  "SB_FAT32_ATTR_DIRECTORY = 0x10"

record 's fat32 =
  fs_mount :: "'s vfs_mount option"
  bytes_per_sector :: u32
  sectors_per_cluster :: u32
  reserved_sectors :: u32
  fat_size_sectors :: u32
  root_cluster :: u32
  first_data_sector :: u32

record dirent =
  de_name :: "u8 list"
  attributes :: u8
  first_cluster :: u32
  file_size :: u32

definition SB_FAT32_EOC_MIN :: u32 where
  "SB_FAT32_EOC_MIN = 0x0FFFFFF8"

definition SB_FAT32_ENTRY_SIZE :: u32 where
  "SB_FAT32_ENTRY_SIZE = 32"

definition SB_FAT32_SECTOR_BYTES :: u32 where
  "SB_FAT32_SECTOR_BYTES = 512"

text \<open>The little-endian readers get the array and the index that the pointer argument points at.\<close>

definition le16 :: "u8 list \<Rightarrow> nat \<Rightarrow> u16 option" where
  "le16 p i = do {
     b0 \<leftarrow> array_get p i; b1 \<leftarrow> array_get p (i + 1);
     Some (ucast b0 OR push_bit 8 (ucast b1)) }"

definition le32 :: "u8 list \<Rightarrow> nat \<Rightarrow> u32 option" where
  "le32 p i = do {
     b0 \<leftarrow> array_get p i; b1 \<leftarrow> array_get p (i + 1); b2 \<leftarrow> array_get p (i + 2); b3 \<leftarrow> array_get p (i + 3);
     Some (ucast b0 OR push_bit 8 (ucast b1) OR push_bit 16 (ucast b2) OR push_bit 24 (ucast b3)) }"

definition sector_array :: "u8 list" where
  "sector_array = replicate (unat SB_FAT32_SECTOR_BYTES) 0"

definition read_sector :: "'s fat32 \<Rightarrow> u64 \<Rightarrow> u8 list \<Rightarrow> 's \<Rightarrow> (bool \<times> u8 list \<times> 's) option" where
  "read_sector fs lba buffer s = do {
     (status, b, s) \<leftarrow> sb_vfs_read_sectors (fs_mount fs) lba 1 (Some buffer) s;
     b \<leftarrow> b;
     Some (status = SB_VFS_OK, b, s) }"

definition cluster_to_lba :: "'s fat32 \<Rightarrow> u32 \<Rightarrow> u32" where
  "cluster_to_lba fs cluster = first_data_sector fs + (cluster - 2) * sectors_per_cluster fs"

text \<open>The result \<open>None\<close> inside the pair is the return value 0, which leaves \<^verbatim>\<open>*next\<close> alone.\<close>

definition fat_next_cluster :: "'s fat32 \<Rightarrow> u32 \<Rightarrow> 's \<Rightarrow> (u32 option \<times> 's) option" where
  "fat_next_cluster fs cluster s =
     (if bytes_per_sector fs = 0 then None
      else
        let fat_offset = cluster * 4;
            fat_sector = reserved_sectors fs + (fat_offset div bytes_per_sector fs);
            fat_index = fat_offset mod bytes_per_sector fs in
        if fat_index + 4 > bytes_per_sector fs then Some (None, s)
        else do {
          (done, sector, s) \<leftarrow> read_sector fs (ucast fat_sector) sector_array s;
          if \<not> done then Some (None, s)
          else do {
            entry \<leftarrow> le32 sector (unat fat_index);
            Some (Some (entry AND 0x0FFFFFFF), s) } })"

text \<open>
  The two loops of \<open>format_83_name\<close>; the list holds the values of \<open>i\<close> that are left, \<open>raw\<close> starts
  at index \<open>base\<close> of its array, and \<open>pos\<close> and \<open>out\<close> are the loop state.
\<close>

fun name_loop :: "u8 list \<Rightarrow> nat \<Rightarrow> nat list \<Rightarrow> nat \<Rightarrow> u8 list \<Rightarrow> (nat \<times> u8 list) option" where
  "name_loop raw base [] pos out = Some (pos, out)"
| "name_loop raw base (i # is) pos out = do {
     c \<leftarrow> array_get raw (base + i);
     if c = 0x20 then Some (pos, out)
     else if pos < 12 then do { out \<leftarrow> array_set pos c out; name_loop raw base is (pos + 1) out }
     else name_loop raw base is pos out }"

definition format_83_name :: "u8 list \<Rightarrow> nat \<Rightarrow> u8 list \<Rightarrow> u8 list option" where
  "format_83_name raw base out = do {
     (pos, out) \<leftarrow> name_loop raw base [0..<8] 0 out;
     ext \<leftarrow> array_get raw (base + 8);
     (pos, out) \<leftarrow> (if ext \<noteq> 0x20 \<and> ext \<noteq> 0
        then do { out \<leftarrow> array_set pos 0x2E out; name_loop raw base [8..<11] (pos + 1) out }
        else Some (pos, out));
     array_set pos 0 out }"

definition sb_fat32_mount :: "'s vfs_mount option \<Rightarrow> 's fat32 option \<Rightarrow> 's \<Rightarrow> (int \<times> 's fat32 option \<times> 's) option" where
  "sb_fat32_mount mount fs s =
     (case (mount, fs) of
        (Some m, Some f) \<Rightarrow>
          if mount_sector_size m < SB_FAT32_SECTOR_BYTES then Some (0, fs, s)
          else do {
            (done, boot, s) \<leftarrow> read_sector \<lparr>fs_mount = mount, bytes_per_sector = 0, sectors_per_cluster = 0,
                reserved_sectors = 0, fat_size_sectors = 0, root_cluster = 0, first_data_sector = 0\<rparr> 0 sector_array s;
            if \<not> done then Some (0, fs, s)
            else do {
              signature \<leftarrow> le16 boot 510; bytes \<leftarrow> le16 boot 11;
              if signature \<noteq> 0xAA55 \<or> ucast bytes \<noteq> SB_FAT32_SECTOR_BYTES then Some (0, fs, s)
              else do {
                per_cluster \<leftarrow> array_get boot 13; reserved \<leftarrow> le16 boot 14;
                fat_size \<leftarrow> le32 boot 36; root \<leftarrow> le32 boot 44; total \<leftarrow> le32 boot 32;
                let f = f\<lparr>fs_mount := mount, bytes_per_sector := ucast bytes, sectors_per_cluster := ucast per_cluster,
                          reserved_sectors := ucast reserved, fat_size_sectors := fat_size, root_cluster := root\<rparr>;
                    total = (if total = 0 then ucast (total_sectors m) else total) in
                if bytes_per_sector f = 0 \<or> sectors_per_cluster f = 0 \<or> reserved_sectors f = 0 \<or> fat_size = 0 \<or>
                   root_cluster f < 2 \<or> total = 0
                then Some (0, Some f, s)
                else if fat_size > (0xFFFFFFFF - reserved_sectors f - 0) div 2 then Some (0, Some f, s)
                else
                  let first_data = reserved_sectors f + 2 * fat_size + 0 in
                  if (ucast first_data :: u64) \<ge> total_sectors m then Some (0, Some f, s)
                  else Some (1, Some (f\<lparr>first_data_sector := first_data\<rparr>), s) } } }
      | _ \<Rightarrow> Some (0, fs, s))"

text \<open>
  The loop that skips whole clusters, which both readers start with: \<open>remaining\<close> counts directory
  entries or bytes and \<open>per_cluster\<close> how many of them a cluster holds. \<open>None\<close> in the pair is the
  return value 0 of the enclosing function.
\<close>

partial_function (option) skip_clusters ::
    "'s fat32 \<Rightarrow> u32 \<Rightarrow> u32 \<Rightarrow> u32 \<Rightarrow> 's \<Rightarrow> ((u32 \<times> u32) option \<times> 's) option" where
  "skip_clusters fs per_cluster cluster remaining s =
     (if remaining < per_cluster then Some (Some (cluster, remaining), s)
      else do {
        (n, s) \<leftarrow> fat_next_cluster fs cluster s;
        (case n of None \<Rightarrow> Some (None, s)
         | Some next \<Rightarrow>
             if next \<ge> SB_FAT32_EOC_MIN \<or> next < 2 then Some (None, s)
             else skip_clusters fs per_cluster next (remaining - per_cluster) s) })"

definition sb_fat32_read_root_entry ::
    "'s fat32 option \<Rightarrow> u32 \<Rightarrow> dirent option \<Rightarrow> 's \<Rightarrow> (int \<times> dirent option \<times> 's) option" where
  "sb_fat32_read_root_entry fs index entry s =
     (case (fs, entry) of
        (Some f, Some e) \<Rightarrow>
          if bytes_per_sector f \<noteq> SB_FAT32_SECTOR_BYTES then Some (0, entry, s)
          else
            let entries_per_sector = bytes_per_sector f div SB_FAT32_ENTRY_SIZE;
                entries_per_cluster = entries_per_sector * sectors_per_cluster f in
            do {
              (at, s) \<leftarrow> skip_clusters f entries_per_cluster (root_cluster f) index s;
              (case at of None \<Rightarrow> Some (0, entry, s)
               | Some (cluster, remaining) \<Rightarrow>
                   let sector_index = remaining div entries_per_sector;
                       entry_index = remaining mod entries_per_sector;
                       lba = cluster_to_lba f cluster + sector_index in
                   do {
                     (done, sector, s) \<leftarrow> read_sector f (ucast lba) sector_array s;
                     if \<not> done then Some (0, entry, s)
                     else
                       let raw = unat (entry_index * SB_FAT32_ENTRY_SIZE) in
                       do {
                         first \<leftarrow> array_get sector raw; attr \<leftarrow> array_get sector (raw + 11);
                         if first = 0 \<or> first = 0xE5 \<or> attr AND 0x0F = 0x0F then Some (0, entry, s)
                         else do {
                           name \<leftarrow> format_83_name sector raw (de_name e);
                           high \<leftarrow> le16 sector (raw + 20); low \<leftarrow> le16 sector (raw + 26);
                           sz \<leftarrow> le32 sector (raw + 28);
                           Some (1, Some (e\<lparr>de_name := name, attributes := attr,
                                           first_cluster := push_bit 16 (ucast high) OR ucast low, file_size := sz\<rparr>), s) } } }) }
      | _ \<Rightarrow> Some (0, entry, s))"

text \<open>The copying loop of \<open>sb_fat32_read_file\<close>; \<open>pos\<close> is the index at which \<^verbatim>\<open>dst\<close> points.\<close>

partial_function (option) read_loop ::
    "'s fat32 \<Rightarrow> u32 \<Rightarrow> u32 \<Rightarrow> u32 \<Rightarrow> u32 \<Rightarrow> nat \<Rightarrow> u8 list \<Rightarrow> u8 list \<Rightarrow> 's \<Rightarrow> (int \<times> u8 list \<times> 's) option" where
  "read_loop fs cluster_size cluster offset remaining pos dst sector s =
     (if remaining = 0 then Some (1, dst, s)
      else
        let cluster_lba = cluster_to_lba fs cluster;
            sector_index = offset div bytes_per_sector fs;
            in_sector = offset mod bytes_per_sector fs in
        do {
          (done, sector, s) \<leftarrow> read_sector fs (ucast (cluster_lba + sector_index)) sector s;
          if \<not> done then Some (0, dst, s)
          else
            let copy_len = bytes_per_sector fs - in_sector;
                copy_len = (if copy_len > remaining then remaining else copy_len) in
            do {
              dst \<leftarrow> for_each (\<lambda>i dst. do { v \<leftarrow> array_get sector (unat (in_sector + of_nat i));
                                           array_set (pos + i) v dst }) [0..<unat copy_len] dst;
              let pos = pos + unat copy_len; remaining = remaining - copy_len; offset = offset + copy_len in
              if remaining > 0 \<and> offset \<ge> cluster_size then do {
                (n, s) \<leftarrow> fat_next_cluster fs cluster s;
                (case n of None \<Rightarrow> Some (0, dst, s)
                 | Some next \<Rightarrow>
                     if next \<ge> SB_FAT32_EOC_MIN \<or> next < 2 then Some (0, dst, s)
                     else read_loop fs cluster_size next 0 remaining pos dst sector s) }
              else read_loop fs cluster_size cluster offset remaining pos dst sector s } })"

definition sb_fat32_read_file ::
    "'s fat32 option \<Rightarrow> dirent option \<Rightarrow> u32 \<Rightarrow> u32 \<Rightarrow> u8 list option \<Rightarrow> 's \<Rightarrow> (int \<times> u8 list option \<times> 's) option" where
  "sb_fat32_read_file fs entry offset len buffer s =
     (case (fs, entry, buffer) of
        (Some f, Some e, Some dst) \<Rightarrow>
          if attributes e AND SB_FAT32_ATTR_DIRECTORY \<noteq> 0 \<or> offset > file_size e \<or> len > file_size e - offset \<or>
             first_cluster e < 2 \<or> bytes_per_sector f \<noteq> SB_FAT32_SECTOR_BYTES
          then Some (0, buffer, s)
          else if len = 0 then Some (1, buffer, s)
          else
            let cluster_size = bytes_per_sector f * sectors_per_cluster f in
            do {
              (at, s) \<leftarrow> skip_clusters f cluster_size (first_cluster e) offset s;
              (case at of None \<Rightarrow> Some (0, buffer, s)
               | Some (cluster, offset) \<Rightarrow> do {
                   (r, dst, s) \<leftarrow> read_loop f cluster_size cluster offset len 0 dst sector_array s;
                   Some (r, Some dst, s) }) }
      | _ \<Rightarrow> Some (0, buffer, s))"

section \<open>Reading sectors and table entries\<close>

definition sec :: "u8 list \<Rightarrow> nat \<Rightarrow> u8 list" where
  "sec d n = take 512 (drop (512 * n) d)"

definition word16 :: "u8 list \<Rightarrow> nat \<Rightarrow> u16" where
  "word16 p i = ucast (p ! i) OR push_bit 8 (ucast (p ! (i + 1)))"

definition word32 :: "u8 list \<Rightarrow> nat \<Rightarrow> u32" where
  "word32 p i = ucast (p ! i) OR push_bit 8 (ucast (p ! (i + 1))) OR push_bit 16 (ucast (p ! (i + 2))) OR
     push_bit 24 (ucast (p ! (i + 3)))"

lemma le16_in [simp]: "i + 1 < length p \<Longrightarrow> le16 p i = Some (word16 p i)"
  by (simp add: le16_def word16_def)

lemma le32_in [simp]: "i + 3 < length p \<Longrightarrow> le32 p i = Some (word32 p i)"
  by (simp add: le32_def word32_def)

lemma length_sector_array [simp]: "length sector_array = 512"
  by (simp add: sector_array_def SB_FAT32_SECTOR_BYTES_def)

text \<open>A file system structure that belongs to the mounted device and has the values a mount accepts.\<close>

definition fs_ok :: "'s block_device \<Rightarrow> 's fat32 \<Rightarrow> bool" where
  "fs_ok dev fs \<longleftrightarrow> fs_mount fs = Some (mounted dev) \<and> bytes_per_sector fs = 512 \<and>
     0 < unat (sectors_per_cluster fs) \<and> unat (sectors_per_cluster fs) < 256 \<and>
     0 < unat (reserved_sectors fs) \<and> unat (reserved_sectors fs) < 65536 \<and>
     unat (first_data_sector fs) = unat (reserved_sectors fs) + 2 * unat (fat_size_sectors fs) \<and>
     unat (first_data_sector fs) < unat (sector_count (dev_geometry dev))"

text \<open>The table entry of cluster \<open>c\<close> on the disk image, as the code computes its place.\<close>

definition fat_sector_of :: "'s fat32 \<Rightarrow> u32 \<Rightarrow> nat" where
  "fat_sector_of fs c = unat (reserved_sectors fs) + unat (c * 4) div 512"

definition fat_entry :: "'s fat32 \<Rightarrow> u8 list \<Rightarrow> u32 \<Rightarrow> u32" where
  "fat_entry fs d c = word32 (sec d (fat_sector_of fs c)) (unat (c * 4) mod 512) AND 0x0FFFFFFF"

lemma four_dvd: "4 dvd unat (c * 4 :: u32)"
  by (auto simp: unat_word_ariths intro!: dvd_mod)

lemma fat_index_bound: "unat (c * 4 :: u32) mod 512 + 4 \<le> 512"
proof -
  have "4 dvd unat (c * 4) mod 512" using four_dvd by (intro dvd_mod) auto
  then obtain k where k: "unat (c * 4) mod 512 = 4 * k" by (auto simp: dvd_def)
  then have "4 * k < 512" by (metis mod_less_divisor zero_less_numeral)
  then show ?thesis using k by simp
qed

lemma fat_sector_word:
  assumes "unat (reserved_sectors fs) < 65536" "bytes_per_sector fs = 512"
  shows "unat (ucast (reserved_sectors fs + c * 4 div bytes_per_sector fs) :: u64) = fat_sector_of fs c"
proof -
  have "unat (c * 4 div 512) < 8388608"
    using unat_u32_less [of "c * 4"] by (simp add: unat_div less_mult_imp_div_less)
  then show ?thesis
    using assms by (simp add: fat_sector_of_def unat_add_small unat_div)
qed

section \<open>The reference reading of a file\<close>

text \<open>
  The chain of a file, the byte at offset \<open>j\<close> of a cluster, and the byte at offset \<open>j\<close> of the file
  that starts in cluster \<open>c\<close>, on the image \<open>d\<close> of a disk with \<open>N\<close> sectors. A byte is \<open>None\<close> when
  the chain ends before it or its sector is not on the disk.
\<close>

definition chain_next :: "'s fat32 \<Rightarrow> nat \<Rightarrow> u8 list \<Rightarrow> u32 \<Rightarrow> u32 option" where
  "chain_next fs N d c =
     (if fat_sector_of fs c < N \<and> 2 \<le> fat_entry fs d c \<and> fat_entry fs d c < SB_FAT32_EOC_MIN
      then Some (fat_entry fs d c) else None)"

primrec cluster_at :: "'s fat32 \<Rightarrow> nat \<Rightarrow> u8 list \<Rightarrow> u32 \<Rightarrow> nat \<Rightarrow> u32 option" where
  "cluster_at fs N d c 0 = Some c"
| "cluster_at fs N d c (Suc n) = do { c \<leftarrow> chain_next fs N d c; cluster_at fs N d c n }"

definition cluster_bytes :: "'s fat32 \<Rightarrow> nat" where
  "cluster_bytes fs = 512 * unat (sectors_per_cluster fs)"

definition data_lba :: "'s fat32 \<Rightarrow> u32 \<Rightarrow> nat \<Rightarrow> nat" where
  "data_lba fs c j = unat (cluster_to_lba fs c + of_nat (j div 512))"

definition data_byte :: "'s fat32 \<Rightarrow> nat \<Rightarrow> u8 list \<Rightarrow> u32 \<Rightarrow> nat \<Rightarrow> u8 option" where
  "data_byte fs N d c j =
     (if data_lba fs c j < N then Some (sec d (data_lba fs c j) ! (j mod 512)) else None)"

definition file_byte :: "'s fat32 \<Rightarrow> nat \<Rightarrow> u8 list \<Rightarrow> u32 \<Rightarrow> nat \<Rightarrow> u8 option" where
  "file_byte fs N d c j = do {
     c \<leftarrow> cluster_at fs N d c (j div cluster_bytes fs); data_byte fs N d c (j mod cluster_bytes fs) }"

definition file_bytes :: "'s fat32 \<Rightarrow> nat \<Rightarrow> u8 list \<Rightarrow> u32 \<Rightarrow> nat \<Rightarrow> nat \<Rightarrow> u8 list option" where
  "file_bytes fs N d c off n =
     (if \<forall>j\<in>{off..<off + n}. file_byte fs N d c j \<noteq> None
      then Some (map (the \<circ> file_byte fs N d c) [off..<off + n]) else None)"

lemma file_bytes_0 [simp]: "file_bytes fs N d c off 0 = Some []"
  by (simp add: file_bytes_def)

lemma length_file_bytes: "file_bytes fs N d c off n = Some xs \<Longrightarrow> length xs = n"
  by (auto simp: file_bytes_def split: if_splits)

lemma file_bytes_add:
  "file_bytes fs N d c off (a + b) = do {
     xs \<leftarrow> file_bytes fs N d c off a; ys \<leftarrow> file_bytes fs N d c (off + a) b; Some (xs @ ys) }"
proof -
  have "{off..<off + (a + b)} = {off..<off + a} \<union> {off + a..<off + a + b}" by auto
  moreover have "[off..<off + (a + b)] = [off..<off + a] @ [off + a..<off + a + b]"
    by (metis add.assoc le_add1 upt_add_eq_append)
  ultimately show ?thesis by (auto simp: file_bytes_def)
qed

lemma file_byte_next:
  assumes "0 < cluster_bytes fs"
  shows "file_byte fs N d c (cluster_bytes fs + j) = do { c' \<leftarrow> chain_next fs N d c; file_byte fs N d c' j }"
  using assms by (cases "chain_next fs N d c") (simp_all add: file_byte_def div_add_self1)

lemma file_bytes_next:
  assumes "0 < cluster_bytes fs" "0 < n"
  shows "file_bytes fs N d c (cluster_bytes fs + j) n = do { c' \<leftarrow> chain_next fs N d c; file_bytes fs N d c' j n }"
proof -
  let ?z = "cluster_bytes fs"
  have "(\<forall>i\<in>{?z + j..<?z + j + n}. P i) \<longleftrightarrow> (\<forall>i\<in>{j..<j + n}. P (?z + i))" for P :: "nat \<Rightarrow> bool"
  proof -
    have "{?z + j..<?z + j + n} = (+) ?z ` {j..<j + n}" by (simp add: ac_simps)
    then show ?thesis by (metis (no_types, lifting) imageE image_eqI)
  qed
  moreover have "[?z + j..<?z + j + n] = map ((+) ?z) [j..<j + n]" by (rule nth_equalityI) auto
  ultimately show ?thesis
    using assms by (cases "chain_next fs N d c") (simp_all add: file_bytes_def file_byte_next o_def, force)
qed

lemma file_bytes_cluster:
  assumes "0 < cluster_bytes fs" "0 < n"
  shows "file_bytes fs N d c (cluster_bytes fs * k + j) n =
    (case cluster_at fs N d c k of None \<Rightarrow> None | Some c' \<Rightarrow> file_bytes fs N d c' j n)"
proof (induction k arbitrary: c)
  case (Suc k)
  have "cluster_bytes fs * Suc k + j = cluster_bytes fs + (cluster_bytes fs * k + j)" by simp
  then show ?case
    using file_bytes_next [OF assms, of N d c "cluster_bytes fs * k + j"] Suc.IH
    by (cases "chain_next fs N d c") (simp_all add: add.assoc)
qed simp

text \<open>A stretch that stays inside one sector.\<close>

lemma file_bytes_sector:
  assumes "off < cluster_bytes fs" "off mod 512 + n \<le> 512" "0 < n"
    and "data_lba fs c off < N \<longrightarrow> length (sec d (data_lba fs c off)) = 512"
  shows "file_bytes fs N d c off n =
    (if data_lba fs c off < N then Some (take n (drop (off mod 512) (sec d (data_lba fs c off)))) else None)"
proof -
  have z: "512 dvd cluster_bytes fs" by (simp add: cluster_bytes_def)
  have j: "j div 512 = off div 512 \<and> j mod 512 = off mod 512 + (j - off) \<and> j < cluster_bytes fs"
    if "off \<le> j" "j < off + n" for j
  proof -
    define k where "k = j - off"
    obtain q r where o: "off = 512 * q + r" "r < 512" by (metis mod_less_divisor mult_div_mod_eq zero_less_numeral)
    have k: "j = 512 * q + (r + k)" "r + k < 512"
      using that assms(2) o by (auto simp: k_def)
    have "j div 512 = off div 512" "j mod 512 = off mod 512 + k" unfolding k(1) o(1) using k(2) o(2) by simp_all
    moreover obtain p where p: "cluster_bytes fs = 512 * p" using z by (auto simp: dvd_def)
    then have "q < p" using assms(1) o by simp
    then have "512 * q + 512 \<le> 512 * p" by simp
    then have "j < cluster_bytes fs" unfolding p using k by linarith
    ultimately show ?thesis by (simp only: k_def simp_thms)
  qed
  have b: "file_byte fs N d c j = (if data_lba fs c off < N
      then Some (sec d (data_lba fs c off) ! (off mod 512 + (j - off))) else None)" if "off \<le> j" "j < off + n" for j
    using j [OF that] by (simp add: file_byte_def data_byte_def data_lba_def)
  show ?thesis
  proof (cases "data_lba fs c off < N")
    case True
    then show ?thesis using assms b
      by (auto simp: file_bytes_def intro!: nth_equalityI)
  next
    case False
    then have "file_byte fs N d c off = None" using b [of off] assms(3) by simp
    then show ?thesis using False assms(3) by (auto simp: file_bytes_def)
  qed
qed

text \<open>
  The outcome of reading \<open>n\<close> bytes into \<open>dst\<close> at \<open>pos\<close> when the reference bytes are \<open>xs\<close>: success
  with exactly those bytes stored, or failure with nothing stored outside the window.
\<close>

definition read_outcome :: "nat \<Rightarrow> nat \<Rightarrow> u8 list option \<Rightarrow> u8 list \<Rightarrow> int \<Rightarrow> u8 list \<Rightarrow> bool" where
  "read_outcome pos n xs dst r dst' \<longleftrightarrow> length dst' = length dst \<and>
     (case xs of Some ys \<Rightarrow> r = 1 \<and> dst' = patch pos ys dst
      | None \<Rightarrow> r = 0 \<and> take pos dst' = take pos dst \<and> drop (pos + n) dst' = drop (pos + n) dst)"

lemma read_outcome_fail: "read_outcome pos n None dst 0 dst"
  by (simp add: read_outcome_def)

lemma take_patch: "pos + length xs \<le> length dst \<Longrightarrow> take pos (patch pos xs dst) = take pos dst"
  by (simp add: patch_def)

lemma drop_patch: "pos + length xs \<le> n \<Longrightarrow> n \<le> length dst \<Longrightarrow> drop n (patch pos xs dst) = drop n dst"
  by (intro nth_equalityI) (auto simp: nth_patch)

lemma read_outcome_step:
  assumes "read_outcome (pos + length xs) b ys (patch pos xs dst) r dst'" "pos + length xs + b \<le> length dst"
    and "\<forall>zs. ys = Some zs \<longrightarrow> length zs = b"
  shows "read_outcome pos (length xs + b) (map_option ((@) xs) ys) dst r dst'"
proof (cases ys)
  case None
  have "take pos dst' = take pos (take (pos + length xs) dst')" by simp
  also have "\<dots> = take pos dst"
    using assms None by (simp add: read_outcome_def min_absorb1 take_patch)
  finally show ?thesis using assms None drop_patch [of pos xs "pos + length xs + b" dst]
    by (simp add: read_outcome_def add.assoc)
next
  case (Some zs)
  then show ?thesis using assms by (simp add: read_outcome_def patch_patch_append)
qed

lemma file_bytes_lba:
  "file_bytes fs N d c off n = Some xs \<Longrightarrow> 0 < n \<Longrightarrow> off < cluster_bytes fs \<Longrightarrow> data_lba fs c off < N"
  by (auto simp: file_bytes_def file_byte_def data_byte_def split: if_splits dest: bspec [of _ _ off])

text \<open>The length of one round of the copying loop.\<close>

definition chunk :: "u32 \<Rightarrow> u32 \<Rightarrow> u32" where
  "chunk off rem = (if 512 - off mod 512 > rem then rem else 512 - off mod 512)"

lemma unat_chunk: "unat (chunk off rem) = min (unat rem) (512 - unat off mod 512)"
proof -
  have "unat (512 - off mod 512) = 512 - unat off mod 512"
    by (simp add: unat_sub_if' unat_mod)
  then show ?thesis by (auto simp: chunk_def word_less_nat_alt min_def)
qed

lemma chunk_bounds:
  "0 < unat rem \<Longrightarrow> 0 < unat (chunk off rem)" "unat off mod 512 + unat (chunk off rem) \<le> 512"
  "unat (chunk off rem) \<le> unat rem"
  by (auto simp: unat_chunk)

lemma sector_end:
  assumes "off < cluster_bytes fs" "off mod 512 + k \<le> 512"
  shows "off + k \<le> cluster_bytes fs"
proof -
  obtain q r where o: "off = 512 * q + r" "r < 512" by (metis mod_less_divisor mult_div_mod_eq zero_less_numeral)
  then have "q < unat (sectors_per_cluster fs)" using assms(1) by (simp add: cluster_bytes_def)
  then have "512 * q + 512 \<le> cluster_bytes fs" by (simp add: cluster_bytes_def)
  then show ?thesis using assms(2) o by simp
qed

definition readable :: "dirent \<Rightarrow> u32 \<Rightarrow> u32 \<Rightarrow> bool" where
  "readable e off len \<longleftrightarrow> attributes e AND SB_FAT32_ATTR_DIRECTORY = 0 \<and>
     unat off + unat len \<le> unat (file_size e) \<and> 2 \<le> first_cluster e"

lemma readable_guard:
  "readable e off len \<longleftrightarrow> \<not> (attributes e AND SB_FAT32_ATTR_DIRECTORY \<noteq> 0 \<or> off > file_size e \<or> len > file_size e - off \<or>
     first_cluster e < 2)"
  using unat_sub_if' [of "file_size e" off]
  by (auto simp: readable_def word_le_nat_alt word_less_nat_alt)

section \<open>The code on a volume that keeps the driver contract\<close>

locale fat_volume = vfs_volume +
  assumes size512: "sector_size g = 512"
begin

lemma sector_eq: "unat lba < unat (sector_count g) \<Longrightarrow> sectors g lba 1 d = sec d (unat lba)"
  by (simp add: sectors_def sec_def size512 mult.commute)

lemma length_sec: "ok s \<Longrightarrow> n < unat (sector_count g) \<Longrightarrow> length (sec (disk s) n) = 512"
  using disk_size [of s] by (simp add: sec_def size512)

lemma read_sector_eq:
  assumes "ok s" "fs_mount fs = Some (mounted dev)" "length buf = 512"
  shows "\<exists>s'. ok s' \<and> disk s' = disk s \<and> read_sector fs lba buf s =
    Some (if unat lba < unat (sector_count g) then (True, sec (disk s) (unat lba), s') else (False, buf, s'))"
  using vfs_read_sector [OF assms(1), of buf lba] assms(2,3) sector_eq [of lba "disk s"]
  by (auto simp: read_sector_def size512)

lemma next_cluster_eq:
  assumes "ok s" "fs_ok dev fs"
  shows "\<exists>s'. ok s' \<and> disk s' = disk s \<and> fat_next_cluster fs c s =
    Some (if fat_sector_of fs c < unat (sector_count g) then Some (fat_entry fs (disk s) c) else None, s')"
proof -
  have f: "fs_mount fs = Some (mounted dev)" "bytes_per_sector fs = 512" "unat (reserved_sectors fs) < 65536"
    using assms(2) by (auto simp: fs_ok_def)
  have lba: "unat (ucast (reserved_sectors fs + c * 4 div 512) :: u64) = fat_sector_of fs c"
    using fat_sector_word [OF f(3,2)] f(2) by simp
  have idx: "unat (c * 4 mod 512) = unat (c * 4) mod 512" by (simp add: unat_mod)
  then have "\<not> c * 4 mod 512 + 4 > 512"
    using fat_index_bound [of c] unat_add_small [of "c * 4 mod 512" 4] by (simp add: word_less_nat_alt)
  then show ?thesis
    using read_sector_eq [OF assms(1) f(1), of sector_array "ucast (reserved_sectors fs + c * 4 div 512)"]
      lba idx fat_index_bound [of c] length_sec [OF assms(1), of "fat_sector_of fs c"]
    by (auto simp: fat_next_cluster_def f(2) Let_def fat_entry_def)
qed

lemma next_cluster_chain:
  assumes "ok s" "fs_ok dev fs"
  obtains s' n where "ok s'" "disk s' = disk s" "fat_next_cluster fs c s = Some (n, s')"
    "chain_next fs (unat (sector_count g)) (disk s) c =
       (case n of None \<Rightarrow> None | Some c' \<Rightarrow> if c' \<ge> SB_FAT32_EOC_MIN \<or> c' < 2 then None else Some c')"
proof -
  obtain s' where "ok s'" "disk s' = disk s" "fat_next_cluster fs c s =
      Some (if fat_sector_of fs c < unat (sector_count g) then Some (fat_entry fs (disk s) c) else None, s')"
    using next_cluster_eq [OF assms] by metis
  then show ?thesis by (rule that) (auto simp: chain_next_def)
qed

lemma skip_clusters_eq:
  assumes "ok s" "fs_ok dev fs" "0 < pc"
  shows "\<exists>s'. ok s' \<and> disk s' = disk s \<and> skip_clusters fs pc c rem s =
    Some (map_option (\<lambda>c'. (c', rem mod pc))
            (cluster_at fs (unat (sector_count g)) (disk s) c (unat rem div unat pc)), s')"
  using assms(1)
proof (induction "unat rem" arbitrary: rem c s rule: less_induct)
  case less
  show ?case
  proof (cases "rem < pc")
    case True
    then have "unat rem div unat pc = 0" "rem mod pc = rem"
      by (simp_all add: word_less_nat_alt word_unat_eq_iff unat_mod)
    then show ?thesis using True less.prems by (simp add: skip_clusters.simps)
  next
    case False
    then have le: "unat pc \<le> unat rem" by (simp add: word_less_nat_alt)
    have pos: "0 < unat pc" using assms(3) by (simp add: word_less_nat_alt)
    have sub: "unat (rem - pc) = unat rem - unat pc" using le by (simp add: unat_sub_if')
    have dm: "unat rem div unat pc = Suc (unat (rem - pc) div unat pc)" "rem mod pc = (rem - pc) mod pc"
      by (simp_all add: sub word_unat_eq_iff unat_mod le_div_geq [OF pos le] le_mod_geq [OF le])
    obtain s' n where n: "ok s'" "disk s' = disk s" "fat_next_cluster fs c s = Some (n, s')"
        "chain_next fs (unat (sector_count g)) (disk s) c =
           (case n of None \<Rightarrow> None | Some c' \<Rightarrow> if c' \<ge> SB_FAT32_EOC_MIN \<or> c' < 2 then None else Some c')"
      by (rule next_cluster_chain [OF less.prems assms(2), of c])
    have IH: "\<exists>s''. ok s'' \<and> disk s'' = disk s \<and> skip_clusters fs pc c' (rem - pc) s' =
        Some (map_option (\<lambda>c'. (c', rem mod pc))
          (cluster_at fs (unat (sector_count g)) (disk s) c' (unat (rem - pc) div unat pc)), s'')" for c'
      using less.hyps [of "rem - pc" s' c'] le pos sub n(1,2) dm(2) by auto
    have "skip_clusters fs pc c rem s = (case n of None \<Rightarrow> Some (None, s')
        | Some c' \<Rightarrow> if c' \<ge> SB_FAT32_EOC_MIN \<or> c' < 2 then Some (None, s') else skip_clusters fs pc c' (rem - pc) s')"
      using False n(3) by (simp add: skip_clusters.simps [of fs pc c rem])
    then show ?thesis using IH n dm(1) by (cases n) auto
  qed
qed

lemma cluster_size_eq:
  assumes "fs_ok dev fs"
  shows "unat (bytes_per_sector fs * sectors_per_cluster fs) = cluster_bytes fs" "0 < cluster_bytes fs"
    "cluster_bytes fs < 2 ^ 17"
  using assms unat_mult_small [of "512 :: u32" "sectors_per_cluster fs"]
  by (auto simp: fs_ok_def cluster_bytes_def)

text \<open>One round of the copying loop, with the bytes it copies.\<close>

lemma read_loop_round:
  assumes "ok s" "fs_ok dev fs" "unat off < cluster_bytes fs" "0 < unat rem" "pos + unat rem \<le> length dst"
    and "length sector = 512"
    and k: "k = chunk off rem"
  shows "\<exists>s'. ok s' \<and> disk s' = disk s \<and>
    read_loop fs csz c off rem pos dst sector s =
     (case file_bytes fs (unat (sector_count g)) (disk s) c (unat off) (unat k) of
        None \<Rightarrow> Some (0, dst, s')
      | Some xs \<Rightarrow>
          if rem - k > 0 \<and> off + k \<ge> csz then do {
            (n, s) \<leftarrow> fat_next_cluster fs c s';
            (case n of None \<Rightarrow> Some (0, patch pos xs dst, s)
             | Some next \<Rightarrow>
                 if next \<ge> SB_FAT32_EOC_MIN \<or> next < 2 then Some (0, patch pos xs dst, s)
                 else read_loop fs csz next 0 (rem - k) (pos + unat k) (patch pos xs dst)
                        (sec (disk s') (data_lba fs c (unat off))) s) }
          else read_loop fs csz c (off + k) (rem - k) (pos + unat k) (patch pos xs dst)
                 (sec (disk s') (data_lba fs c (unat off))) s')"
proof -
  let ?N = "unat (sector_count g)" and ?l = "data_lba fs c (unat off)"
  have f: "fs_mount fs = Some (mounted dev)" "bytes_per_sector fs = 512" using assms(2) by (auto simp: fs_ok_def)
  have m: "unat (off mod 512) = unat off mod 512" "unat off mod 512 < 512" by (simp_all add: unat_mod)
  have kb: "0 < unat k" "unat off mod 512 + unat k \<le> 512" "unat k \<le> unat rem"
    using chunk_bounds(1) [of rem off] chunk_bounds(2,3) [of off rem] assms(4) by (simp_all add: k)
  have lba: "unat (ucast (cluster_to_lba fs c + off div 512) :: u64) = ?l"
    by (simp add: data_lba_def word_arith_nat_div)
  obtain s' where r: "ok s'" "disk s' = disk s" "read_sector fs (ucast (cluster_to_lba fs c + off div 512)) sector s =
      Some (if ?l < ?N then (True, sec (disk s) ?l, s') else (False, sector, s'))"
    using read_sector_eq [OF assms(1) f(1) assms(6), of "ucast (cluster_to_lba fs c + off div 512)"]
    unfolding lba by metis
  have fb: "file_bytes fs ?N (disk s) c (unat off) (unat k) =
      (if ?l < ?N then Some (take (unat k) (drop (unat off mod 512) (sec (disk s) ?l))) else None)"
    by (rule file_bytes_sector) (use assms(3) kb length_sec [OF assms(1)] in auto)
  have idx: "unat (off mod 512 + of_nat i) = unat off mod 512 + i" if "i < unat k" for i
    using that kb m unat_of_nat_small [of i, where 'a = 32] unat_add_small [of "off mod 512" "of_nat i"] by simp
  have cp: "for_each (\<lambda>i dst. do { v \<leftarrow> array_get (sec (disk s) ?l) (unat (off mod 512 + of_nat i));
        array_set (pos + i) v dst }) [0..<unat k] dst =
      Some (patch pos (take (unat k) (drop (unat off mod 512) (sec (disk s) ?l))) dst)" if "?l < ?N"
    using copy_bytes_index [of "unat k" "\<lambda>i. unat (off mod 512 + of_nat i)" "unat off mod 512" "\<lambda>i. pos + i" pos
        "sec (disk s) ?l" dst] idx length_sec [OF assms(1) that] kb assms(5)
      copy_bytes_Some [of "unat off mod 512" "unat k" "sec (disk s) ?l" pos dst] by simp
  have "rem \<noteq> 0" using assms(4) by auto
  then have "read_loop fs csz c off rem pos dst sector s =
     (case file_bytes fs ?N (disk s) c (unat off) (unat k) of
        None \<Rightarrow> Some (0, dst, s')
      | Some xs \<Rightarrow>
          if rem - k > 0 \<and> off + k \<ge> csz then do {
            (n, s) \<leftarrow> fat_next_cluster fs c s';
            (case n of None \<Rightarrow> Some (0, patch pos xs dst, s)
             | Some next \<Rightarrow>
                 if next \<ge> SB_FAT32_EOC_MIN \<or> next < 2 then Some (0, patch pos xs dst, s)
                 else read_loop fs csz next 0 (rem - k) (pos + unat k) (patch pos xs dst) (sec (disk s') ?l) s) }
          else read_loop fs csz c (off + k) (rem - k) (pos + unat k) (patch pos xs dst) (sec (disk s') ?l) s')"
    using r cp
    by (subst read_loop.simps, unfold Let_def f(2) r(3) chunk_def [symmetric] k [symmetric] fb r(2)) (cases "?l < ?N"; simp)
  with r(1,2) show ?thesis by blast
qed

lemma read_loop_outcome:
  assumes "ok s" "fs_ok dev fs" "unat off < cluster_bytes fs" "pos + unat rem \<le> length dst"
    and "length sector = 512" and csz: "csz = bytes_per_sector fs * sectors_per_cluster fs"
  shows "\<exists>r dst' s'. ok s' \<and> disk s' = disk s \<and>
    read_loop fs csz c off rem pos dst sector s = Some (r, dst', s') \<and>
    read_outcome pos (unat rem) (file_bytes fs (unat (sector_count g)) (disk s) c (unat off) (unat rem)) dst r dst'"
  using assms(1,3-5)
proof (induction "unat rem" arbitrary: rem c off pos dst sector s rule: less_induct)
  case less
  let ?F = "file_bytes fs (unat (sector_count g)) (disk s)"
  show ?case
  proof (cases "rem = 0")
    case True
    then show ?thesis using less.prems
      by (intro exI [of _ 1] exI [of _ dst] exI [of _ s]) (simp add: read_loop.simps read_outcome_def)
  next
    case False
    let ?k = "chunk off rem" and ?z = "cluster_bytes fs"
    have pos: "0 < unat rem" using False by (simp add: unat_gt_0)
    note kb = chunk_bounds(1) [OF pos, of off] chunk_bounds(2,3) [of off rem]
    note z = cluster_size_eq [OF assms(2)]
    have rem': "unat (rem - ?k) = unat rem - unat ?k" using kb(3) by (simp add: unat_sub_if')
    have off': "unat (off + ?k) = unat off + unat ?k"
      using less.prems(2) kb(2) z(3) by (intro unat_add_small) simp
    have le: "unat off + unat ?k \<le> ?z" using sector_end [OF less.prems(2) kb(2)] .
    have split: "?F c (unat off) (unat rem) = do {
        xs \<leftarrow> ?F c (unat off) (unat ?k); ys \<leftarrow> ?F c (unat off + unat ?k) (unat rem - unat ?k); Some (xs @ ys) }" for c
      using file_bytes_add [of fs _ "disk s" c "unat off" "unat ?k" "unat rem - unat ?k"] kb(3) by simp
    obtain s1 where s1: "ok s1" "disk s1 = disk s" and
      loop: "read_loop fs csz c off rem pos dst sector s =
        (case ?F c (unat off) (unat ?k) of None \<Rightarrow> Some (0, dst, s1)
         | Some xs \<Rightarrow>
          if rem - ?k > 0 \<and> off + ?k \<ge> csz then do {
            (n, s) \<leftarrow> fat_next_cluster fs c s1;
            (case n of None \<Rightarrow> Some (0, patch pos xs dst, s)
             | Some next \<Rightarrow>
                 if next \<ge> SB_FAT32_EOC_MIN \<or> next < 2 then Some (0, patch pos xs dst, s)
                 else read_loop fs csz next 0 (rem - ?k) (pos + unat ?k) (patch pos xs dst)
                        (sec (disk s1) (data_lba fs c (unat off))) s) }
          else read_loop fs csz c (off + ?k) (rem - ?k) (pos + unat ?k) (patch pos xs dst)
                 (sec (disk s1) (data_lba fs c (unat off))) s1)"
      using read_loop_round [OF less.prems(1) assms(2) less.prems(2) pos less.prems(3,4) refl, of csz c] by blast
    show ?thesis
    proof (cases "?F c (unat off) (unat ?k)")
      case None
      then show ?thesis using loop s1 split [of c] read_outcome_fail by auto
    next
      case (Some xs)
      let ?G = "?F c (unat off + unat ?k) (unat rem - unat ?k)" and ?d = "patch pos xs dst"
      have lx: "length xs = unat ?k" using length_file_bytes [OF Some] .
      have ld: "length ?d = length dst" using lx kb(3) less.prems(3) by simp
      have sl: "length (sec (disk s1) (data_lba fs c (unat off))) = 512"
        using length_sec [OF s1(1)] file_bytes_lba [OF Some kb(1) less.prems(2)] by simp
      have fin: "read_outcome pos (unat rem) (?F c (unat off) (unat rem)) dst r dst'"
        if "read_outcome (pos + unat ?k) (unat rem - unat ?k) ?G ?d r dst'" for r dst'
      proof -
        have "?F c (unat off) (unat rem) = map_option ((@) xs) ?G"
          using split [of c] Some by (cases ?G) auto
        then show ?thesis
          using read_outcome_step [of pos xs "unat rem - unat ?k" ?G dst r dst'] that lx kb(3) less.prems(3)
            length_file_bytes [of fs _ "disk s" c] by fastforce
      qed
      show ?thesis
      proof (cases "rem - ?k > 0 \<and> off + ?k \<ge> csz")
        case True
        then have "0 < unat rem - unat ?k" "unat off + unat ?k = ?z"
          using rem' off' le z(1) by (auto simp: word_less_nat_alt word_le_nat_alt csz)
        then have G: "?G = do { c' \<leftarrow> chain_next fs (unat (sector_count g)) (disk s) c; ?F c' 0 (unat rem - unat ?k) }"
          using file_bytes_next [OF z(2), of "unat rem - unat ?k" _ "disk s" c 0] by simp
        obtain s2 n where n: "ok s2" "disk s2 = disk s1" "fat_next_cluster fs c s1 = Some (n, s2)"
          "chain_next fs (unat (sector_count g)) (disk s1) c =
             (case n of None \<Rightarrow> None | Some c' \<Rightarrow> if c' \<ge> SB_FAT32_EOC_MIN \<or> c' < 2 then None else Some c')"
          by (rule next_cluster_chain [OF s1(1) assms(2), of c])
        show ?thesis
        proof (cases "chain_next fs (unat (sector_count g)) (disk s1) c")
          case None
          then have "read_loop fs csz c off rem pos dst sector s = Some (0, ?d, s2)"
            using loop Some True n by (auto split: option.splits if_splits)
          moreover have "?G = None" using G None s1(2) by simp
          ultimately show ?thesis using fin read_outcome_fail n(1,2) s1(2) by metis
        next
          case (Some c')
          then have "read_loop fs csz c off rem pos dst sector s =
              read_loop fs csz c' 0 (rem - ?k) (pos + unat ?k) ?d (sec (disk s1) (data_lba fs c (unat off))) s2"
            using loop \<open>?F c (unat off) (unat ?k) = Some xs\<close> True n by (auto split: option.splits if_splits)
          moreover have "?G = ?F c' 0 (unat rem - unat ?k)" using G Some s1(2) by simp
          ultimately show ?thesis
            using less.hyps [of "rem - ?k" s2 0 "pos + unat ?k" ?d "sec (disk s1) (data_lba fs c (unat off))" c']
              fin n(1,2) s1(2) rem' kb z(2) ld sl less.prems(3) by fastforce
        qed
      next
        case False
        then have lp: "read_loop fs csz c off rem pos dst sector s =
            read_loop fs csz c (off + ?k) (rem - ?k) (pos + unat ?k) ?d (sec (disk s1) (data_lba fs c (unat off))) s1"
          unfolding loop Some by (simp only: if_False option.case)
        show ?thesis
        proof (cases "rem - ?k = 0")
          case True
          then have "unat rem - unat ?k = 0" using rem' by simp
          then show ?thesis using fin [of 1 ?d] lp True s1
            by (auto simp: read_loop.simps read_outcome_def)
        next
          case nz: False
          then have "unat (off + ?k) < ?z" using False z(1) by (auto simp: word_less_nat_alt word_le_nat_alt csz unat_gt_0)
          then show ?thesis
            using less.hyps [of "rem - ?k" s1 "off + ?k" "pos + unat ?k" ?d "sec (disk s1) (data_lba fs c (unat off))" c]
              fin lp s1 rem' off' kb ld sl less.prems(3) by fastforce
        qed
      qed
    qed
  qed
qed

lemma read_file_outcome:
  assumes "ok s" "fs_ok dev fs" "unat len \<le> length buf"
  shows "\<exists>r buf' s'. ok s' \<and> disk s' = disk s \<and>
    sb_fat32_read_file (Some fs) (Some e) off len (Some buf) s = Some (r, Some buf', s') \<and>
    read_outcome 0 (unat len)
      (if readable e off len
       then file_bytes fs (unat (sector_count g)) (disk s) (first_cluster e) (unat off) (unat len) else None) buf r buf'"
proof -
  let ?z = "bytes_per_sector fs * sectors_per_cluster fs"
  let ?at = "cluster_at fs (unat (sector_count g)) (disk s) (first_cluster e) (unat off div cluster_bytes fs)"
  note z = cluster_size_eq [OF assms(2)]
  have b: "bytes_per_sector fs = SB_FAT32_SECTOR_BYTES"
    using assms(2) by (simp add: fs_ok_def SB_FAT32_SECTOR_BYTES_def)
  consider (no) "\<not> readable e off len" | (zero) "readable e off len" "len = 0" | (read) "readable e off len" "len \<noteq> 0"
    by auto
  then show ?thesis
  proof cases
    case no
    then show ?thesis using assms(1) read_outcome_fail by (auto simp: sb_fat32_read_file_def readable_guard)
  next
    case zero
    then show ?thesis using assms(1) b by (auto simp: sb_fat32_read_file_def readable_guard read_outcome_def)
  next
    case read
    have len: "0 < unat len" using read(2) by (simp add: unat_gt_0)
    have "0 < ?z" using z by (simp add: word_less_nat_alt)
    then obtain s1 where s1: "ok s1" "disk s1 = disk s" "skip_clusters fs ?z (first_cluster e) off s =
        Some (map_option (\<lambda>c. (c, off mod ?z)) ?at, s1)"
      using skip_clusters_eq [OF assms(1,2), of ?z] z(1) by metis
    have off: "file_bytes fs N d c (unat off) (unat len) =
        (case cluster_at fs N d c (unat off div cluster_bytes fs) of None \<Rightarrow> None
         | Some c' \<Rightarrow> file_bytes fs N d c' (unat off mod cluster_bytes fs) (unat len))" for N d c
      using file_bytes_cluster [OF z(2) len] by (metis mult_div_mod_eq)
    show ?thesis
    proof (cases ?at)
      case None
      then have "sb_fat32_read_file (Some fs) (Some e) off len (Some buf) s = Some (0, Some buf, s1)"
        using read s1 b by (simp add: sb_fat32_read_file_def readable_guard)
      then show ?thesis using None s1 read(1) off read_outcome_fail by fastforce
    next
      case (Some c)
      have "unat (off mod ?z) = unat off mod cluster_bytes fs" using z(1) by (simp add: unat_mod)
      then obtain r dst s2 where l: "ok s2" "disk s2 = disk s1"
          "read_loop fs ?z c (off mod ?z) len 0 buf sector_array s1 = Some (r, dst, s2)"
          "read_outcome 0 (unat len) (file_bytes fs (unat (sector_count g)) (disk s1) c (unat off mod cluster_bytes fs) (unat len)) buf r dst"
        using read_loop_outcome [OF s1(1) assms(2), of "off mod ?z" 0 len buf sector_array ?z c] assms(3) z(2)
        by auto
      have "sb_fat32_read_file (Some fs) (Some e) off len (Some buf) s = Some (r, Some dst, s2)"
        using read s1 b Some l(3) by (simp add: sb_fat32_read_file_def readable_guard)
      then show ?thesis using l s1(2) Some read(1) off by auto
    qed
  qed
qed

end

end
