(* ===== verification/Fat32_Volume.thy ===== *)
theory Fat32_Volume
  imports Fat32
begin

text \<open>
  The properties of the FAT32 driver: mounting, directory entries and file contents, for every
  device whose driver keeps the contract \<open>block_driver\<close>, and a small volume on the test disk that
  they are applied to.
\<close>

section \<open>File contents along a chain\<close>

text \<open>
  A cluster that lies on the volume: its number is a data cluster number with an entry in the first
  table, and its sectors are on the disk and have 32-bit numbers.
\<close>

definition valid_cluster :: "'s fat32 \<Rightarrow> nat \<Rightarrow> u32 \<Rightarrow> bool" where
  "valid_cluster fs N c \<longleftrightarrow> 2 \<le> unat c \<and> c < SB_FAT32_EOC_MIN \<and> unat c < 128 * unat (fat_size_sectors fs) \<and>
     unat (first_data_sector fs) + (unat c - 1) * unat (sectors_per_cluster fs) \<le> min N (2 ^ 32)"

text \<open>A chain: valid clusters, each one the table entry of the one before.\<close>

fun cluster_chain :: "'s fat32 \<Rightarrow> nat \<Rightarrow> u8 list \<Rightarrow> u32 list \<Rightarrow> bool" where
  "cluster_chain fs N d [] = True"
| "cluster_chain fs N d [c] = valid_cluster fs N c"
| "cluster_chain fs N d (c # c' # cs) = (valid_cluster fs N c \<and> fat_entry fs d c = c' \<and> cluster_chain fs N d (c' # cs))"

definition cluster_data :: "'s fat32 \<Rightarrow> u8 list \<Rightarrow> u32 \<Rightarrow> u8 list" where
  "cluster_data fs d c =
     take (cluster_bytes fs) (drop (512 * (unat (first_data_sector fs) + (unat c - 2) * unat (sectors_per_cluster fs))) d)"

definition contents :: "'s fat32 \<Rightarrow> u8 list \<Rightarrow> u32 list \<Rightarrow> u8 list" where
  "contents fs d cs = concat (map (cluster_data fs d) cs)"

lemma cluster_lba:
  assumes "valid_cluster fs N c" "j < cluster_bytes fs"
  shows "data_lba fs c j = unat (first_data_sector fs) + (unat c - 2) * unat (sectors_per_cluster fs) + j div 512"
    and "data_lba fs c j < N"
proof -
  let ?f = "unat (first_data_sector fs)" and ?k = "unat (sectors_per_cluster fs)"
  have c: "2 \<le> unat c" and le: "?f + (unat c - 1) * ?k \<le> min N (2 ^ 32)"
    using assms(1) by (auto simp: valid_cluster_def)
  have j: "j div 512 < ?k" using assms(2) by (simp add: cluster_bytes_def less_mult_imp_div_less mult.commute)
  have "unat c - 1 = Suc (unat c - 2)" using c by simp
  then have "(unat c - 1) * ?k = ?k + (unat c - 2) * ?k" by simp
  then have lt: "?f + (unat c - 2) * ?k + j div 512 < min N (2 ^ 32)" using le j by simp
  have c2: "unat (c - 2) = unat c - 2" using c by (simp add: unat_sub_if')
  have "unat ((c - 2) * sectors_per_cluster fs) = (unat c - 2) * ?k"
    using lt by (subst unat_mult_small) (simp_all add: c2)
  then have "unat (cluster_to_lba fs c) = ?f + (unat c - 2) * ?k"
    using lt by (simp add: cluster_to_lba_def unat_add_small)
  moreover have "unat (of_nat (j div 512) :: u32) = j div 512" using lt by (intro unat_of_nat_small) simp
  ultimately have "data_lba fs c j = ?f + (unat c - 2) * ?k + j div 512"
    using lt by (simp add: data_lba_def unat_add_small)
  with lt show "data_lba fs c j = ?f + (unat c - 2) * ?k + j div 512" "data_lba fs c j < N" by simp_all
qed

lemma length_cluster_data:
  assumes "valid_cluster fs N c" "length d = 512 * N"
  shows "length (cluster_data fs d c) = cluster_bytes fs"
proof -
  let ?f = "unat (first_data_sector fs)" and ?k = "unat (sectors_per_cluster fs)"
  have "?f + (unat c - 1) * ?k \<le> N" "unat c - 1 = Suc (unat c - 2)"
    using assms(1) by (auto simp: valid_cluster_def)
  then have "?f + (unat c - 2) * ?k + ?k \<le> N" by simp
  then have "512 * (?f + (unat c - 2) * ?k) + cluster_bytes fs \<le> length d"
    unfolding assms(2) cluster_bytes_def by (metis add_mult_distrib2 mult_le_mono2)
  then show ?thesis by (simp add: cluster_data_def)
qed

lemma data_byte_cluster:
  assumes "valid_cluster fs N c" "length d = 512 * N" "j < cluster_bytes fs"
  shows "data_byte fs N d c j = Some (cluster_data fs d c ! j)"
proof -
  let ?b = "unat (first_data_sector fs) + (unat c - 2) * unat (sectors_per_cluster fs)"
  note lba = cluster_lba [OF assms(1,3)]
  have "512 * data_lba fs c j + 512 \<le> length d" using lba(2) assms(2) by simp
  then have "sec d (data_lba fs c j) ! (j mod 512) = d ! (512 * data_lba fs c j + j mod 512)" by (simp add: sec_def)
  also have "512 * data_lba fs c j + j mod 512 = 512 * ?b + j" by (simp add: lba(1) add.assoc distrib_left)
  also have "d ! (512 * ?b + j) = cluster_data fs d c ! j"
    using length_cluster_data [OF assms(1,2)] assms(3) by (simp add: cluster_data_def)
  finally show ?thesis using lba(2) by (simp add: data_byte_def)
qed

lemma chain_next_valid:
  assumes "valid_cluster fs N c" "valid_cluster fs N (fat_entry fs d c)" "unat (first_data_sector fs) =
      unat (reserved_sectors fs) + 2 * unat (fat_size_sectors fs)" "unat (first_data_sector fs) < N"
  shows "chain_next fs N d c = Some (fat_entry fs d c)"
proof -
  have "unat c < 2 ^ 28" "unat c < 128 * unat (fat_size_sectors fs)"
    using assms(1) by (auto simp: valid_cluster_def word_less_nat_alt SB_FAT32_EOC_MIN_def)
  then have "unat (c * 4) = unat c * 4" "unat c * 4 div 512 < unat (fat_size_sectors fs)"
    by (simp_all add: unat_mult_small less_mult_imp_div_less)
  then have "fat_sector_of fs c < N" using assms(3,4) by (simp add: fat_sector_of_def)
  then show ?thesis using assms(2) by (auto simp: chain_next_def valid_cluster_def word_le_nat_alt)
qed

lemma file_byte_contents:
  assumes "cluster_chain fs N d (c # cs)" "length d = 512 * N" "0 < cluster_bytes fs"
    and "unat (first_data_sector fs) = unat (reserved_sectors fs) + 2 * unat (fat_size_sectors fs)"
    and "unat (first_data_sector fs) < N"
    and "j < length (contents fs d (c # cs))"
  shows "file_byte fs N d c j = Some (contents fs d (c # cs) ! j)"
  using assms(1,6)
proof (induction cs arbitrary: c j)
  case Nil
  then have v: "valid_cluster fs N c" by simp
  then have "j < cluster_bytes fs" using Nil length_cluster_data [OF v assms(2)] by (simp add: contents_def)
  then show ?case using data_byte_cluster [OF v assms(2)] by (simp add: file_byte_def contents_def)
next
  case (Cons c' cs)
  have v: "valid_cluster fs N c" "fat_entry fs d c = c'" "cluster_chain fs N d (c' # cs)" using Cons.prems by auto
  have v': "valid_cluster fs N c'" using v(3) by (cases cs) auto
  note len = length_cluster_data [OF v(1) assms(2)]
  show ?case
  proof (cases "j < cluster_bytes fs")
    case True
    then show ?thesis using data_byte_cluster [OF v(1) assms(2) True] len
      by (simp add: file_byte_def contents_def nth_append)
  next
    case False
    then obtain i where i: "j = cluster_bytes fs + i" using le_Suc_ex not_less by blast
    have "i < length (contents fs d (c' # cs))" using Cons.prems(2) len i by (simp add: contents_def)
    then show ?thesis
      using Cons.IH [OF v(3)] file_byte_next [OF assms(3), of N d c i]
        chain_next_valid [OF v(1) _ assms(4,5), of d] v(2) v' i len by (simp add: contents_def nth_append)
  qed
qed

lemma file_bytes_contents:
  assumes "cluster_chain fs N d (c # cs)" "length d = 512 * N" "fs_ok dev fs"
    and "N = unat (sector_count (dev_geometry dev))" "off + n \<le> length (contents fs d (c # cs))"
  shows "file_bytes fs N d c off n = Some (take n (drop off (contents fs d (c # cs))))"
proof -
  have "file_byte fs N d c j = Some (contents fs d (c # cs) ! j)" if "j < off + n" for j
    using file_byte_contents [OF assms(1,2)] assms(3-5) that by (simp add: fs_ok_def cluster_bytes_def)
  then show ?thesis using assms(5) by (auto simp: file_bytes_def intro!: nth_equalityI)
qed

section \<open>Directory entries\<close>

text \<open>The name in a 32-byte directory entry: eight characters and three, without the padding.\<close>

definition short_name :: "u8 list \<Rightarrow> u8 list" where
  "short_name raw = takeWhile (\<lambda>c. c \<noteq> 0x20) (take 8 raw) @
     (if raw ! 8 \<noteq> 0x20 \<and> raw ! 8 \<noteq> 0 then 0x2E # takeWhile (\<lambda>c. c \<noteq> 0x20) (take 3 (drop 8 raw)) else [])"

definition hidden_entry :: "u8 list \<Rightarrow> bool" where
  "hidden_entry raw \<longleftrightarrow> raw ! 0 = 0 \<or> raw ! 0 = 0xE5 \<or> raw ! 11 AND 0x0F = 0x0F"

definition parse_entry :: "u8 list \<Rightarrow> dirent \<Rightarrow> dirent" where
  "parse_entry raw e = e\<lparr>de_name := patch 0 (short_name raw @ [0]) (de_name e), attributes := raw ! 11,
     first_cluster := push_bit 16 (ucast (word16 raw 20)) OR ucast (word16 raw 26), file_size := word32 raw 28\<rparr>"

lemma length_short_name: "length (short_name raw) \<le> 12"
proof -
  have "length (takeWhile P (take n xs)) \<le> n" for P n and xs :: "u8 list"
    using length_takeWhile_le [of P "take n xs"] by simp
  from this [of "\<lambda>c. c \<noteq> 0x20" 8 raw] this [of "\<lambda>c. c \<noteq> 0x20" 3 "drop 8 raw"]
  show ?thesis by (auto simp: short_name_def)
qed

lemma name_loop_eq:
  assumes "base + b \<le> length raw" "a \<le> b" "pos + (b - a) \<le> 12" "length out = 13"
  shows "name_loop raw base [a..<b] pos out =
    (let t = takeWhile (\<lambda>c. c \<noteq> 0x20) (take (b - a) (drop (base + a) raw)) in Some (pos + length t, patch pos t out))"
  using assms
proof (induction "b - a" arbitrary: a pos out)
  case (Suc n)
  then have ab: "[a..<b] = a # [Suc a..<b]" "b - a = Suc (b - Suc a)" by (simp_all add: upt_conv_Cons)
  have dr: "take (b - a) (drop (base + a) raw) = raw ! (base + a) # take (b - Suc a) (drop (base + Suc a) raw)"
    unfolding ab(2) using Suc.prems Suc.hyps(2) Cons_nth_drop_Suc [of "base + a" raw, symmetric] by simp
  let ?t = "takeWhile (\<lambda>c. c \<noteq> 0x20) (take (b - Suc a) (drop (base + Suc a) raw))"
  have lt: "length ?t \<le> b - Suc a" using length_takeWhile_le [of _ "take (b - Suc a) _"] by (metis length_take min.boundedE)
  show ?case
  proof (cases "raw ! (base + a) = 0x20")
    case True
    then show ?thesis using Suc.prems Suc.hyps(2) by (simp add: ab(1) dr)
  next
    case False
    have "name_loop raw base [Suc a..<b] (pos + 1) (out[pos := raw ! (base + a)]) =
        Some (pos + 1 + length ?t, patch (pos + 1) ?t (out[pos := raw ! (base + a)]))"
      using Suc.hyps(1) [of "Suc a" "pos + 1" "out[pos := raw ! (base + a)]"] Suc.hyps(2) Suc.prems by (simp add: Let_def)
    moreover have "patch (pos + 1) ?t (out[pos := raw ! (base + a)]) = patch pos (raw ! (base + a) # ?t) out"
      using Suc.prems Suc.hyps(2) lt by (intro nth_equalityI) (auto simp: nth_patch nth_list_update nth_Cons')
    ultimately show ?thesis using False Suc.prems Suc.hyps(2) by (simp add: ab(1) dr)
  qed
qed simp

lemma format_name_eq:
  assumes "base + 11 \<le> length raw" "length out = 13"
  shows "format_83_name raw base out = Some (patch 0 (short_name (drop base raw) @ [0]) out)"
proof -
  let ?w = "takeWhile (\<lambda>c. c \<noteq> (0x20 :: u8))"
  let ?n = "?w (take 8 (drop base raw))" and ?e = "?w (take 3 (drop (base + 8) raw))"
  have len: "length (?w (take n xs)) \<le> n" for n xs
    using length_takeWhile_le [of "\<lambda>c. c \<noteq> 0x20" "take n xs"] by simp
  note n8 = len [of 8 "drop base raw"] and e3 = len [of 3 "drop (base + 8) raw"]
  have first: "name_loop raw base [0..<8] 0 out = Some (length ?n, patch 0 ?n out)"
    using name_loop_eq [of base 8 raw 0 0 out] assms by (simp add: Let_def)
  have snoc: "(patch 0 xs out)[length xs := v] = patch 0 (xs @ [v]) out" if "length xs \<le> 12" for xs v
    using patch_snoc [of 0 xs out v] that assms(2) by simp
  show ?thesis
  proof (cases "raw ! (base + 8) \<noteq> 0x20 \<and> raw ! (base + 8) \<noteq> 0")
    case True
    have "name_loop raw base [8..<11] (length ?n + 1) (patch 0 (?n @ [0x2E]) out) =
        Some (length ?n + 1 + length ?e, patch (length ?n + 1) ?e (patch 0 (?n @ [0x2E]) out))"
      using name_loop_eq [of base 11 raw 8 "length ?n + 1" "patch 0 (?n @ [0x2E]) out"] assms n8 by (simp add: Let_def)
    moreover have "patch (length ?n + 1) ?e (patch 0 (?n @ [0x2E]) out) = patch 0 (?n @ [0x2E] @ ?e) out"
      using patch_patch_append [of 0 "?n @ [0x2E]" ?e out] assms(2) n8 e3 by simp
    ultimately show ?thesis
      using True first assms n8 e3 snoc [of ?n "0x2E"] snoc [of "?n @ [0x2E] @ ?e" 0]
      by (simp add: format_83_name_def short_name_def add.commute)
  next
    case False
    then show ?thesis using first assms n8 snoc [of ?n 0]
      by (auto simp: format_83_name_def short_name_def)
  qed
qed

lemma short_name_take: "11 \<le> n \<Longrightarrow> 8 < length xs \<Longrightarrow> short_name (take n xs) = short_name xs"
  by (simp add: short_name_def drop_take min_absorb1)

lemma word_take_drop:
  "k + i + 1 < length xs \<Longrightarrow> i + 1 < n \<Longrightarrow> word16 (take n (drop k xs)) i = word16 xs (k + i)"
  "k + i + 3 < length xs \<Longrightarrow> i + 3 < n \<Longrightarrow> word32 (take n (drop k xs)) i = word32 xs (k + i)"
  by (simp_all add: word16_def word32_def add.assoc)

text \<open>What the code does with the 32 bytes at index \<open>k\<close> of a sector.\<close>

lemma entry_parsed:
  assumes "length sector = 512" "k + 32 \<le> 512" "length (de_name e) = 13"
  shows "do { first \<leftarrow> array_get sector k; attr \<leftarrow> array_get sector (k + 11);
      if first = 0 \<or> first = 0xE5 \<or> attr AND 0x0F = 0x0F then Some (0, Some e, s)
      else do {
        name \<leftarrow> format_83_name sector k (de_name e);
        high \<leftarrow> le16 sector (k + 20); low \<leftarrow> le16 sector (k + 26); sz \<leftarrow> le32 sector (k + 28);
        Some (1 :: int, Some (e\<lparr>de_name := name, attributes := attr,
          first_cluster := push_bit 16 (ucast high) OR ucast low, file_size := sz\<rparr>), s) } } =
    (let raw = take 32 (drop k sector) in
     if hidden_entry raw then Some (0, Some e, s) else Some (1, Some (parse_entry raw e), s))"
  using assms short_name_take [of 32 "drop k sector"]
  by (simp add: format_name_eq hidden_entry_def parse_entry_def word_take_drop Let_def)

text \<open>What a mount requires of the boot sector \<open>b\<close> of a disk with \<open>N\<close> sectors, and the structure it fills in.\<close>

definition boot_ok :: "u64 \<Rightarrow> u8 list \<Rightarrow> bool" where
  "boot_ok N b \<longleftrightarrow> word16 b 510 = 0xAA55 \<and> word16 b 11 = 512 \<and> b ! 13 \<noteq> 0 \<and> word16 b 14 \<noteq> 0 \<and> word32 b 36 \<noteq> 0 \<and>
     2 \<le> word32 b 44 \<and> (word32 b 32 \<noteq> 0 \<or> (ucast N :: u32) \<noteq> 0) \<and>
     unat (word16 b 14) + 2 * unat (word32 b 36) < min (unat N) (2 ^ 32)"

definition boot_fs :: "'s block_device \<Rightarrow> u8 list \<Rightarrow> 's fat32" where
  "boot_fs dev b = \<lparr>fs_mount = Some (mounted dev), bytes_per_sector = 512, sectors_per_cluster = ucast (b ! 13),
     reserved_sectors = ucast (word16 b 14), fat_size_sectors = word32 b 36, root_cluster = word32 b 44,
     first_data_sector = ucast (word16 b 14) + 2 * word32 b 36\<rparr>"

lemma first_data_no_wrap:
  fixes r :: u16 and f :: u32
  shows "\<not> f > (0xFFFFFFFF - ucast r) div 2 \<longleftrightarrow> unat r + 2 * unat f < 2 ^ 32"
    and "unat r + 2 * unat f < 2 ^ 32 \<Longrightarrow> unat (ucast r + 2 * f) = unat r + 2 * unat f"
proof -
  have "unat (0xFFFFFFFF - ucast r :: u32) = 4294967295 - unat r"
    using unat_u16_less [of r] by (simp add: unat_sub_if')
  then have "unat ((0xFFFFFFFF - ucast r :: u32) div 2) = (4294967295 - unat r) div 2" by (simp add: unat_div)
  then show "\<not> f > (0xFFFFFFFF - ucast r) div 2 \<longleftrightarrow> unat r + 2 * unat f < 2 ^ 32"
    using unat_u16_less [of r] less_eq_div_iff_mult_less_eq [of 2 "unat f" "4294967295 - unat r"]
    by (auto simp: word_less_nat_alt not_less)
  show "unat (ucast r + 2 * f) = unat r + 2 * unat f" if "unat r + 2 * unat f < 2 ^ 32"
    using that by (simp add: unat_add_small unat_mult_small)
qed

lemma widen_eq [simp]:
  "(ucast (x :: u16) :: u32) = 512 \<longleftrightarrow> x = 512" "(ucast x :: u32) = 0 \<longleftrightarrow> x = 0" "(ucast (y :: u8) :: u32) = 0 \<longleftrightarrow> y = 0"
  by (simp_all add: word_unat_eq_iff)

lemma boot_fs_ok:
  assumes "boot_ok (sector_count (dev_geometry dev)) b"
  shows "fs_ok dev (boot_fs dev b)"
proof -
  have "unat (ucast (word16 b 14) + 2 * word32 b 36) = unat (word16 b 14) + 2 * unat (word32 b 36)"
    using assms by (intro first_data_no_wrap(2)) (simp add: boot_ok_def)
  then show ?thesis
    using assms unat_u8_less [of "b ! 13"] unat_u16_less [of "word16 b 14"]
    by (simp add: fs_ok_def boot_fs_def boot_ok_def unat_gt_0)
qed

context fat_volume
begin

lemma root_sector_lba:
  assumes "unat rem < 16 * unat (sectors_per_cluster fs)"
  shows "unat (ucast (cluster_to_lba fs c + rem div 16) :: u64) = data_lba fs c (32 * unat rem)"
    and "32 * unat rem < cluster_bytes fs" "32 * unat rem mod 512 + 32 \<le> 512"
    and "unat (rem mod 16 * 32) = 32 * unat rem mod 512"
proof -
  have "32 * unat rem div 512 = unat rem div 16" using div_mult_mult1 [of 32 "unat rem" 16] by simp
  then show "unat (ucast (cluster_to_lba fs c + rem div 16) :: u64) = data_lba fs c (32 * unat rem)"
    by (simp add: data_lba_def word_arith_nat_div)
  show "32 * unat rem < cluster_bytes fs" using assms by (simp add: cluster_bytes_def)
  have m: "32 * unat rem mod 512 = 32 * (unat rem mod 16)" using mult_mod_right [of 32 "unat rem" 16] by simp
  show "32 * unat rem mod 512 + 32 \<le> 512"
    unfolding m using mod_less_divisor [of 16 "unat rem"] by linarith
  show "unat (rem mod 16 * 32) = 32 * unat rem mod 512"
    unfolding m using mod_less_divisor [of 16 "unat rem"] by (subst unat_mult_small) (simp_all add: unat_mod)
qed

lemma root_entry_outcome:
  assumes "ok s" "fs_ok dev fs" "length (de_name e) = 13"
  shows "\<exists>r e' s'. ok s' \<and> disk s' = disk s \<and>
    sb_fat32_read_root_entry (Some fs) idx (Some e) s = Some (r, Some e', s') \<and>
    (r, e') = (case file_bytes fs (unat (sector_count g)) (disk s) (root_cluster fs) (32 * unat idx) 32 of
       None \<Rightarrow> (0, e) | Some raw \<Rightarrow> if hidden_entry raw then (0, e) else (1, parse_entry raw e))"
proof -
  let ?N = "unat (sector_count g)" and ?d = "disk s" and ?pc = "16 * sectors_per_cluster fs"
  note z = cluster_size_eq [OF assms(2)]
  have f: "bytes_per_sector fs = 512" "fs_mount fs = Some (mounted dev)" "unat (sectors_per_cluster fs) < 256"
    using assms(2) by (auto simp: fs_ok_def)
  have pc: "unat ?pc = 16 * unat (sectors_per_cluster fs)" "cluster_bytes fs = 32 * unat ?pc" "0 < ?pc"
    using f(3) z(2) by (simp_all add: unat_mult_small cluster_bytes_def word_less_nat_alt)
  obtain s1 where s1: "ok s1" "disk s1 = ?d" "skip_clusters fs ?pc (root_cluster fs) idx s =
      Some (map_option (\<lambda>c. (c, idx mod ?pc)) (cluster_at fs ?N ?d (root_cluster fs) (unat idx div unat ?pc)), s1)"
    using skip_clusters_eq [OF assms(1,2) pc(3)] by metis
  have fb: "file_bytes fs ?N ?d (root_cluster fs) (32 * unat idx) 32 =
      (case cluster_at fs ?N ?d (root_cluster fs) (unat idx div unat ?pc) of None \<Rightarrow> None
       | Some c \<Rightarrow> file_bytes fs ?N ?d c (32 * (unat idx mod unat ?pc)) 32)"
  proof -
    have "32 * unat idx = 32 * (unat ?pc * (unat idx div unat ?pc) + unat idx mod unat ?pc)" by (simp only: mult_div_mod_eq)
    then have eq: "cluster_bytes fs * (unat idx div unat ?pc) + 32 * (unat idx mod unat ?pc) = 32 * unat idx"
      by (simp only: pc(2) distrib_left mult.assoc)
    show ?thesis
      using file_bytes_cluster [OF z(2), of 32 ?N ?d "root_cluster fs" "unat idx div unat ?pc" "32 * (unat idx mod unat ?pc)"]
      by (simp only: eq zero_less_numeral simp_thms)
  qed
  show ?thesis
  proof (cases "cluster_at fs ?N ?d (root_cluster fs) (unat idx div unat ?pc)")
    case None
    then show ?thesis using s1 fb f(1)
      by (auto simp: sb_fat32_read_root_entry_def SB_FAT32_SECTOR_BYTES_def SB_FAT32_ENTRY_SIZE_def)
  next
    case (Some c)
    define rem where "rem = idx mod ?pc"
    have rem: "unat rem = unat idx mod unat ?pc" by (simp add: rem_def unat_mod)
    then have lt: "unat rem < 16 * unat (sectors_per_cluster fs)" using pc by (simp add: word_less_nat_alt)
    note lba = root_sector_lba(1) [OF lt, of c] root_sector_lba(2-4) [OF lt]
    obtain s2 where s2: "ok s2" "disk s2 = ?d" "read_sector fs (ucast (cluster_to_lba fs c + rem div 16)) sector_array s1 =
        Some (if data_lba fs c (32 * unat rem) < ?N then (True, sec ?d (data_lba fs c (32 * unat rem)), s2)
              else (False, sector_array, s2))"
      using read_sector_eq [OF s1(1) f(2), of sector_array "ucast (cluster_to_lba fs c + rem div 16)"] lba(1) s1(2) by auto
    have raw: "file_bytes fs ?N ?d c (32 * unat rem) 32 = (if data_lba fs c (32 * unat rem) < ?N
        then Some (take 32 (drop (32 * unat rem mod 512) (sec ?d (data_lba fs c (32 * unat rem))))) else None)"
      by (rule file_bytes_sector) (use lba length_sec [OF assms(1)] in auto)
    have code: "sb_fat32_read_root_entry (Some fs) idx (Some e) s =
        (if data_lba fs c (32 * unat rem) < ?N then
           let raw = take 32 (drop (32 * unat rem mod 512) (sec ?d (data_lba fs c (32 * unat rem)))) in
           if hidden_entry raw then Some (0, Some e, s2) else Some (1, Some (parse_entry raw e), s2)
         else Some (0, Some e, s2))"
      using entry_parsed [OF length_sec [OF assms(1)] lba(3) assms(3), of "data_lba fs c (32 * unat rem)" s2]
        s1(3) s2(3) Some f(1) lba(4)
      by (simp add: sb_fat32_read_root_entry_def SB_FAT32_SECTOR_BYTES_def SB_FAT32_ENTRY_SIZE_def rem_def [symmetric] Let_def
          cong: if_cong)
    show ?thesis using code raw fb Some rem s2(1,2) by (auto simp: Let_def)
  qed
qed

lemma mount_outcome:
  assumes "ok s"
  shows "\<exists>r fs s'. ok s' \<and> disk s' = disk s \<and>
    sb_fat32_mount (Some (mounted dev)) (Some f) s = Some (r, Some fs, s') \<and> (r = 0 \<or> r = 1) \<and>
    (r = 1 \<longleftrightarrow> boot_ok (sector_count g) (sec (disk s) 0)) \<and> (r = 1 \<longrightarrow> fs = boot_fs dev (sec (disk s) 0))"
proof -
  let ?b = "sec (disk s) 0"
  let ?z = "\<lparr>fs_mount = Some (mounted dev), bytes_per_sector = 0, sectors_per_cluster = 0,
    reserved_sectors = 0, fat_size_sectors = 0, root_cluster = 0, first_data_sector = 0\<rparr> :: 'a fat32"
  obtain s' where s': "ok s'" "disk s' = disk s" "read_sector ?z 0 sector_array s =
      Some (if 0 < unat (sector_count g) then (True, ?b, s') else (False, sector_array, s'))"
    using read_sector_eq [OF assms, of ?z sector_array 0] by auto
  have mt: "mount_sector_size (mounted dev) = 512" "total_sectors (mounted dev) = sector_count g"
    by (simp_all add: mounted_def dev_g size512)
  show ?thesis
  proof (cases "0 < unat (sector_count g)")
    case False
    then show ?thesis using s' by (auto simp: sb_fat32_mount_def mt SB_FAT32_SECTOR_BYTES_def boot_ok_def)
  next
    case True
    have lb: "length ?b = 512" using length_sec [OF assms] True by simp
    note nw = first_data_no_wrap [where f = "word32 ?b 36" and r = "word16 ?b 14"]
    have total: "(if word32 ?b 32 = 0 then ucast (sector_count g) else word32 ?b 32) = 0 \<longleftrightarrow>
        word32 ?b 32 = 0 \<and> (ucast (sector_count g) :: u32) = 0" by simp
    have first: "(ucast (ucast (word16 ?b 14) + 2 * word32 ?b 36 :: u32) :: u64) \<ge> sector_count g \<longleftrightarrow>
        unat (sector_count g) \<le> unat (word16 ?b 14) + 2 * unat (word32 ?b 36)"
      if "unat (word16 ?b 14) + 2 * unat (word32 ?b 36) < 2 ^ 32"
      using nw(2) [OF that] by (simp add: word_le_nat_alt)
    let ?sig = "word16 ?b 510 = 0xAA55 \<and> word16 ?b 11 = 512"
      and ?fields = "?b ! 13 \<noteq> 0 \<and> word16 ?b 14 \<noteq> 0 \<and> word32 ?b 36 \<noteq> 0 \<and> \<not> word32 ?b 44 < 2 \<and>
        \<not> (word32 ?b 32 = 0 \<and> (ucast (sector_count g) :: u32) = 0)"
      and ?n = "unat (word16 ?b 14) + 2 * unat (word32 ?b 36)"
    note defs = sb_fat32_mount_def mt SB_FAT32_SECTOR_BYTES_def boot_ok_def Let_def total
    consider (no_sig) "\<not> ?sig" | (no_fields) "?sig" "\<not> ?fields" | (wrap) "?sig" "?fields" "\<not> ?n < 2 ^ 32"
      | (large) "?sig" "?fields" "?n < 2 ^ 32" "unat (sector_count g) \<le> ?n"
      | (good) "?sig" "?fields" "?n < 2 ^ 32" "?n < unat (sector_count g)" by linarith
    then show ?thesis
    proof cases
      case no_sig
      then show ?thesis using s' True lb by (auto simp: defs)
    next
      case no_fields
      then show ?thesis using s' True lb by (auto simp: defs not_less)
    next
      case wrap
      then show ?thesis using s' True lb nw(1) by (simp add: defs not_less)
    next
      case large
      then show ?thesis using s' True lb nw(1) first [OF large(3)] by (simp add: defs not_less)
    next
      case good
      then show ?thesis using s' True lb nw(1) first [OF good(3)] by (simp add: defs not_less boot_fs_def)
    qed
  qed
qed

end

section \<open>A volume on the test disk\<close>

text \<open>
  Eight sectors: the boot sector, two copies of the table, the root directory with one file of 600
  bytes, and its two clusters 3 and 4.
\<close>

definition sample_boot :: "u8 list" where
  "sample_boot = (replicate 512 0)[12 := 2, 13 := 1, 14 := 1, 36 := 1, 44 := 2, 510 := 0x55, 511 := 0xAA]"

definition sample_fat :: "u8 list" where
  "sample_fat = (replicate 512 0)[12 := 4, 16 := 0xFF, 17 := 0xFF, 18 := 0xFF, 19 := 0x0F]"

definition sample_root :: "u8 list" where
  "sample_root = [0x48, 0x49, 0x20, 0x20, 0x20, 0x20, 0x20, 0x20, 0x54, 0x58, 0x54, 0x20, 0, 0, 0, 0, 0, 0, 0, 0,
     0, 0, 0, 0, 0, 0, 3, 0, 0x58, 2, 0, 0] @ replicate 480 0"

definition sample_volume :: "u8 list" where
  "sample_volume = sample_boot @ sample_fat @ sample_fat @ sample_root @ replicate 512 0x41 @ replicate 512 0x42 @ replicate 1024 0"

definition sample_fs :: "u8 list fat32" where
  "sample_fs = boot_fs test_device sample_boot"

definition sample_entry :: dirent where
  "sample_entry = \<lparr>de_name = replicate 13 0, attributes = 0x20, first_cluster = 3, file_size = 600\<rparr>"

lemma sample_lengths [simp]:
  "length sample_boot = 512" "length sample_fat = 512" "length sample_root = 512" "length sample_volume = 4096"
  by (simp_all add: sample_boot_def sample_fat_def sample_root_def sample_volume_def)

lemma sample_sec: "sec sample_volume 0 = sample_boot" "sec sample_volume (Suc 0) = sample_fat" "sec sample_volume 3 = sample_root"
  by (simp_all add: sec_def sample_volume_def)

lemma sample_boot_ok: "boot_ok 8 sample_boot"
  by (simp add: boot_ok_def sample_boot_def word16_def word32_def)

lemma sample_fs_ok: "fs_ok test_device sample_fs"
  unfolding sample_fs_def
  by (rule boot_fs_ok) (simp add: sample_boot_ok test_geometry_def [symmetric])

interpretation test_fat: fat_volume test_geometry test_disk_read test_disk_write "2 ^ 32"
  "\<lambda>disk. length disk = unat (sector_count test_geometry) * unat (sector_size test_geometry)" "\<lambda>disk. disk" test_device
  by unfold_locales simp

interpretation storage_fat: fat_volume storage_geometry storage_disk_read storage_disk_write "2 ^ 32"
  "\<lambda>disk. length disk = 4096" "\<lambda>disk. disk" g_test_disk_device
  by unfold_locales simp

lemma sample_chain: "cluster_chain sample_fs 8 sample_volume [3, 4]"
proof -
  have "fat_entry sample_fs sample_volume 3 = 4"
    by (simp add: fat_entry_def fat_sector_of_def sample_sec sample_fs_def boot_fs_def sample_boot_def sample_fat_def word32_def word16_def)
  then show ?thesis
    by (simp add: valid_cluster_def sample_fs_def boot_fs_def sample_boot_def word16_def word32_def SB_FAT32_EOC_MIN_def)
qed

lemma sample_contents: "contents sample_fs sample_volume [3, 4] = replicate 512 0x41 @ replicate 512 0x42"
  by (simp add: contents_def cluster_data_def cluster_bytes_def sample_volume_def sample_fs_def boot_fs_def
      sample_boot_def word16_def word32_def)

section \<open>Properties\<close>





text \<open>
  C19. If the file starts a chain of clusters of the volume that is long
  enough for its size, a read of any stretch inside the file succeeds and fills the buffer with
  exactly that stretch of the clusters' data in chain order.
\<close>

theorem fat32_read_file_contents:
  assumes "fat_volume g rd wr max_count ok disk dev" "ok s" "fs_ok dev fs"
    and "cluster_chain fs (unat (sector_count g)) (disk s) (first_cluster e # cs)"
    and "unat (file_size e) \<le> length (contents fs (disk s) (first_cluster e # cs))"
    and "attributes e AND SB_FAT32_ATTR_DIRECTORY = 0"
    and "unat off + unat len \<le> unat (file_size e)" "unat len \<le> length buf"
  shows "\<exists>s'. sb_fat32_read_file (Some fs) (Some e) off len (Some buf) s =
    Some (1, Some (take (unat len) (drop (unat off) (contents fs (disk s) (first_cluster e # cs))) @ drop (unat len) buf), s')"
proof -
  have v: "vfs_volume g rd wr max_count ok disk dev" and sz: "sector_size g = 512"
    using assms(1) by (simp_all add: fat_volume_def fat_volume_axioms_def)
  have N: "unat (sector_count g) = unat (sector_count (dev_geometry dev))"
    using v by (simp add: vfs_volume_def vfs_volume_axioms_def)
  have "length (disk s) = 512 * unat (sector_count g)"
    using block_driver.disk_size [of g rd wr max_count ok disk s] v assms(2) sz by (simp add: vfs_volume_def)
  then have fb: "file_bytes fs (unat (sector_count g)) (disk s) (first_cluster e) (unat off) (unat len) =
      Some (take (unat len) (drop (unat off) (contents fs (disk s) (first_cluster e # cs))))"
    by (rule file_bytes_contents [OF assms(4) _ assms(3) N]) (use assms(5,7) in simp)
  have "valid_cluster fs (unat (sector_count g)) (first_cluster e)" using assms(4) by (cases cs) simp_all
  then have "readable e off len" using assms(6,7) by (simp add: readable_def valid_cluster_def word_le_nat_alt)
  then show ?thesis
    using fat_volume.read_file_outcome [OF assms(1-3,8), of e off] fb length_file_bytes [OF fb]
    by (auto simp: read_outcome_def patch_def)
qed

theorem fat32_read_file_contents_witness:
  "\<exists>s'. sb_fat32_read_file (Some sample_fs) (Some sample_entry) 500 50 (Some (replicate 60 0)) sample_volume =
     Some (1, Some (replicate 12 0x41 @ replicate 38 0x42 @ replicate 10 0), s')"
  using fat32_read_file_contents [OF test_fat.fat_volume_axioms _ sample_fs_ok, of sample_volume sample_entry "[4]" 500 50 "replicate 60 0"] sample_chain
  by (simp add: sample_contents sample_entry_def SB_FAT32_ATTR_DIRECTORY_def)



text \<open>
  C28. The mount accepts a device whose sectors are larger than its 512-byte boot
  buffer: on a memory disk of such sectors it has no defined result, because the driver fills a whole
  sector and writes past the end of the buffer.
\<close>

theorem fat32_large_sectors:
  assumes "512 < sector_size g" "0 < sector_count g" "unat (sector_size g) \<le> length disk"
    and "dev = \<lparr>dev_geometry = g, dev_read = Some test_disk_read, dev_write = Some test_disk_write\<rparr>"
  shows "sb_fat32_mount (Some (mounted dev)) (Some f) disk = None"
proof -
  have z: "512 < unat (sector_size g)" using assms(1) by (simp add: word_less_nat_alt)
  have "unat (of_nat i :: u64) = i" if "i < unat (sector_size g)" for i
    using that unat_u32_less [of "sector_size g"] by (intro unat_of_nat_small) simp
  then have "for_each (\<lambda>i dst. do { v \<leftarrow> array_get disk (unat (of_nat i :: u64)); array_set i v dst })
      [0..<unat (sector_size g)] sector_array = None"
    using copy_bytes_index [of "unat (sector_size g)" "\<lambda>i. unat (of_nat i :: u64)" 0 "\<lambda>i. i" 0 disk sector_array]
      copy_bytes_None [of disk 0 "unat (sector_size g)" sector_array 0] z by simp
  moreover have "\<not> 1 > sector_count g" "sector_count g \<noteq> 0" using assms(2) by (auto simp: word_less_1)
  ultimately have "test_disk_read (Some g) 0 1 (Some sector_array) disk = None"
    by (simp add: test_disk_read_def Let_def)
  moreover have "\<not> sector_size g < 512" using assms(1) by (auto dest: less_trans)
  ultimately show ?thesis using assms(2,4)
    by (auto simp: sb_fat32_mount_def read_sector_def sb_vfs_read_sectors_def mounted_def SB_FAT32_SECTOR_BYTES_def)
qed

theorem fat32_large_sectors_witness:
  "sb_fat32_mount (Some (mounted \<lparr>dev_geometry = test_geometry\<lparr>sector_size := 1024\<rparr>,
     dev_read = Some test_disk_read, dev_write = Some test_disk_write\<rparr>)) (Some sample_fs) sample_volume = None"
  by (rule fat32_large_sectors [of "test_geometry\<lparr>sector_size := 1024\<rparr>"]) simp_all

end
