(* ===== verification/Config.thy ===== *)
theory Config
  imports Arrays
begin

text \<open>
  The persistent configuration record, \<^verbatim>\<open>kernel/config.h\<close> and \<^verbatim>\<open>kernel/config.c\<close>. Its bytes are
  those of the C structure on x86-64, which has no padding; the checksum is a 32-bit FNV-1a hash of
  them with the checksum field set to zero.
\<close>

section \<open>Operations\<close>

definition SB_CONFIG_MAGIC :: u32 where
  "SB_CONFIG_MAGIC = 0x53424346"

definition SB_CONFIG_VERSION :: u16 where
  "SB_CONFIG_VERSION = 1"

definition SB_LANGUAGE_JAPANESE :: u32 where "SB_LANGUAGE_JAPANESE = 0"
definition SB_LANGUAGE_ENGLISH :: u32 where "SB_LANGUAGE_ENGLISH = 1"
definition SB_LANGUAGE_CHINESE :: u32 where "SB_LANGUAGE_CHINESE = 2"
definition SB_LANGUAGE_SPANISH :: u32 where "SB_LANGUAGE_SPANISH = 3"

record config_record =
  magic :: u32
  version :: u16
  rec_size :: u16
  sequence :: u32
  language :: u8
  keyboard_layout :: u8
  first_boot_completed :: u8
  reserved :: u8
  checksum :: u32

definition bytes16 :: "u16 \<Rightarrow> u8 list" where
  "bytes16 v = map (\<lambda>i. ucast (drop_bit (8 * i) v)) [0, 1]"

definition bytes32 :: "u32 \<Rightarrow> u8 list" where
  "bytes32 v = map (\<lambda>i. ucast (drop_bit (8 * i) v)) [0, 1, 2, 3]"

definition record_bytes :: "config_record \<Rightarrow> u8 list" where
  "record_bytes r = bytes32 (magic r) @ bytes16 (version r) @ bytes16 (rec_size r) @ bytes32 (sequence r) @
     [language r, keyboard_layout r, first_boot_completed r, reserved r] @ bytes32 (checksum r)"

definition sizeof_record :: u16 where
  "sizeof_record = 20"

fun checksum_loop :: "u8 list \<Rightarrow> u32 \<Rightarrow> u32" where
  "checksum_loop [] hash = hash"
| "checksum_loop (b # bs) hash = checksum_loop bs ((hash XOR ucast b) * 16777619)"

definition checksum_bytes :: "u8 list \<Rightarrow> u32 \<Rightarrow> u32" where
  "checksum_bytes bytes n = checksum_loop (take (unat n) bytes) 2166136261"

definition sb_config_checksum :: "config_record option \<Rightarrow> u32" where
  "sb_config_checksum r =
     (case r of None \<Rightarrow> 0
      | Some r \<Rightarrow> checksum_bytes (record_bytes (r\<lparr>checksum := 0\<rparr>)) (ucast sizeof_record))"

definition sb_config_defaults :: "config_record option \<Rightarrow> config_record option" where
  "sb_config_defaults r =
     map_option (\<lambda>r.
       let r = r\<lparr>magic := SB_CONFIG_MAGIC, version := SB_CONFIG_VERSION, rec_size := sizeof_record, sequence := 0,
                 language := ucast SB_LANGUAGE_ENGLISH, keyboard_layout := 0, first_boot_completed := 0, reserved := 0\<rparr> in
       r\<lparr>checksum := sb_config_checksum (Some r)\<rparr>) r"

definition sb_config_validate :: "config_record option \<Rightarrow> bool" where
  "sb_config_validate r =
     (case r of None \<Rightarrow> False
      | Some c \<Rightarrow>
          magic c = SB_CONFIG_MAGIC \<and> version c = SB_CONFIG_VERSION \<and> rec_size c = sizeof_record \<and>
          \<not> language c > ucast SB_LANGUAGE_SPANISH \<and> \<not> first_boot_completed c > 1 \<and> reserved c = 0 \<and>
          checksum c = sb_config_checksum r)"

definition sb_config_set_language :: "config_record option \<Rightarrow> u32 \<Rightarrow> int \<times> config_record option" where
  "sb_config_set_language r lang =
     (case r of None \<Rightarrow> (-1, r)
      | Some c \<Rightarrow>
          if lang > SB_LANGUAGE_SPANISH then (-1, r)
          else let c = c\<lparr>language := ucast lang\<rparr> in (0, Some (c\<lparr>checksum := sb_config_checksum (Some c)\<rparr>)))"

definition sb_config_mark_first_boot_complete :: "config_record option \<Rightarrow> int \<times> config_record option" where
  "sb_config_mark_first_boot_complete r =
     (case r of None \<Rightarrow> (-1, r)
      | Some c \<Rightarrow>
          let c = c\<lparr>first_boot_completed := 1, sequence := sequence c + 1\<rparr> in
          (0, Some (c\<lparr>checksum := sb_config_checksum (Some c)\<rparr>)))"

section \<open>The hash\<close>

lemma hash_mult_inj: "(x :: u32) * 16777619 = y * 16777619 \<longleftrightarrow> x = y"
proof
  assume "x * 16777619 = y * 16777619"
  then have "x * 16777619 * 899433627 = y * 16777619 * 899433627" by simp
  moreover have "(16777619 :: u32) * 899433627 = 1" by (simp add: word_unat_eq_iff)
  ultimately show "x = y" by (simp only: mult.assoc mult_1_right)
qed simp

lemma xor_inj: "(x :: 'a::len word) XOR z = y XOR z \<longleftrightarrow> x = y"
  by (metis (no_types, lifting) xor.assoc xor.right_neutral xor_self_eq)

lemma xor_inj_left: "(z :: 'a::len word) XOR x = z XOR y \<longleftrightarrow> x = y"
  by (metis xor.commute xor_inj)

lemma ucast_inj: "(ucast (x :: u8) :: u32) = ucast y \<longleftrightarrow> x = y"
  by (simp add: word_unat_eq_iff)

lemma checksum_loop_append: "checksum_loop (xs @ ys) h = checksum_loop ys (checksum_loop xs h)"
  by (induction xs arbitrary: h) auto

lemma checksum_loop_inj: "checksum_loop bs h = checksum_loop bs h' \<longleftrightarrow> h = h'"
  by (induction bs arbitrary: h h') (auto simp: hash_mult_inj xor_inj)

lemma checksum_loop_byte:
  assumes "i < length bs" "b \<noteq> bs ! i"
  shows "checksum_loop (bs[i := b]) h \<noteq> checksum_loop bs h"
proof -
  let ?h = "checksum_loop (take i bs) h" and ?r = "drop (Suc i) bs"
  have "checksum_loop (bs[i := b]) h = checksum_loop ?r ((?h XOR ucast b) * 16777619)"
    using assms(1) by (simp add: upd_conv_take_nth_drop checksum_loop_append)
  moreover have "checksum_loop bs h = checksum_loop ?r ((?h XOR ucast (bs ! i)) * 16777619)"
    using arg_cong [OF id_take_nth_drop [OF assms(1)], of "\<lambda>bs. checksum_loop bs h"]
    by (simp add: checksum_loop_append)
  ultimately show ?thesis
    using assms(2) by (simp only: checksum_loop_inj hash_mult_inj xor_inj_left ucast_inj) simp
qed

lemma length_bytes [simp]: "length (bytes16 v) = 2" "length (bytes32 w) = 4"
  by (simp_all add: bytes16_def bytes32_def)

lemma length_record_bytes [simp]: "length (record_bytes r) = 20"
  by (simp add: record_bytes_def)

lemma config_checksum_eq: "sb_config_checksum (Some r) = checksum_loop (take 16 (record_bytes r) @ [0, 0, 0, 0]) 2166136261"
  by (simp add: sb_config_checksum_def checksum_bytes_def sizeof_record_def record_bytes_def bytes32_def)

lemma checksum_field: "bytes32 (checksum r) = drop 16 (record_bytes r)"
  by (simp add: record_bytes_def)

lemma bytes32_inj: "bytes32 v = bytes32 w \<longleftrightarrow> v = w"
proof
  assume eq: "bytes32 v = bytes32 w"
  have b: "bit (bytes32 v ! i) j \<longleftrightarrow> bit v (8 * i + j)" if "i < 4" "j < 8" for i j and v :: u32
    using that by (auto simp: bytes32_def bit_simps less_Suc_eq numeral_eq_Suc)
  show "v = w"
  proof (rule bit_word_eqI)
    fix n assume "n < LENGTH(32)"
    then have n: "n div 8 < 4" "n mod 8 < 8" "8 * (n div 8) + n mod 8 = n" by auto
    show "bit v n \<longleftrightarrow> bit w n" using b [OF n(1,2), of v] b [OF n(1,2), of w] eq n(3) by simp
  qed
qed simp

section \<open>Properties\<close>

text \<open>
  C29. Changing any single byte of a valid record, the checksum's own bytes
  included, gives a record that is not valid.
\<close>

theorem config_corruption_detected:
  assumes "sb_config_validate (Some r)" "record_bytes r' = (record_bytes r)[i := b]"
    and "i < 20" "b \<noteq> record_bytes r ! i"
  shows "\<not> sb_config_validate (Some r')"
proof
  assume "sb_config_validate (Some r')"
  then have c: "checksum r = sb_config_checksum (Some r)" "checksum r' = sb_config_checksum (Some r')"
    using assms(1) by (simp_all add: sb_config_validate_def)
  show False
  proof (cases "i < 16")
    case True
    then have "checksum r' = checksum r"
      using checksum_field [of r] checksum_field [of r'] assms(2) bytes32_inj [of "checksum r'" "checksum r"] by simp
    moreover have "(take 16 (record_bytes r) @ [0, 0, 0, 0])[i := b] = take 16 (record_bytes r') @ [0, 0, 0, 0]"
      using True by (simp add: assms(2) list_update_append take_update_swap)
    ultimately show False
      using checksum_loop_byte [of i "take 16 (record_bytes r) @ [0, 0, 0, 0]" b 2166136261] True assms(4) c
      by (simp add: config_checksum_eq nth_append)
  next
    case False
    then have "take 16 (record_bytes r') = take 16 (record_bytes r)" by (simp add: assms(2))
    then have "checksum r' = checksum r" using c by (simp add: config_checksum_eq)
    then have "drop 16 ((record_bytes r)[i := b]) ! (i - 16) = drop 16 (record_bytes r) ! (i - 16)"
      using checksum_field [of r] checksum_field [of r'] assms(2) by simp
    then show False using False assms(3,4) by simp
  qed
qed

definition sample_record :: config_record where
  "sample_record = the (sb_config_defaults (Some \<lparr>magic = 0, version = 0, rec_size = 0, sequence = 0, language = 0,
     keyboard_layout = 0, first_boot_completed = 0, reserved = 0, checksum = 0\<rparr>))"

lemma checksum_update: "sb_config_checksum (Some (r\<lparr>checksum := v\<rparr>)) = sb_config_checksum (Some r)"
  by (simp add: sb_config_checksum_def)

lemma defaults_valid: "sb_config_validate (sb_config_defaults (Some r))"
  by (simp add: sb_config_defaults_def sb_config_validate_def Let_def checksum_update
      SB_LANGUAGE_ENGLISH_def SB_LANGUAGE_SPANISH_def)

lemma defaults_Some: "Some (the (sb_config_defaults (Some r))) = sb_config_defaults (Some r)"
  by (simp add: sb_config_defaults_def)

lemma sample_record_valid: "sb_config_validate (Some sample_record)"
  unfolding sample_record_def defaults_Some by (rule defaults_valid)

theorem config_corruption_detected_witness:
  "\<not> sb_config_validate (Some (sample_record\<lparr>keyboard_layout := 7\<rparr>))"
  by (rule config_corruption_detected [OF sample_record_valid, of _ 13 7])
    (simp_all add: record_bytes_def sample_record_def sb_config_defaults_def Let_def bytes32_def bytes16_def)

text \<open>The calls on a record and their effect on what a user sees of it.\<close>

datatype config_op = Set_Language u32 | Mark_First_Boot

fun config_exec :: "config_op \<Rightarrow> config_record option \<Rightarrow> config_record option" where
  "config_exec (Set_Language l) r = snd (sb_config_set_language r l)"
| "config_exec Mark_First_Boot r = snd (sb_config_mark_first_boot_complete r)"

definition accepted_languages :: "config_op list \<Rightarrow> u32 list" where
  "accepted_languages ops = [l. Set_Language l \<leftarrow> ops, l \<le> SB_LANGUAGE_SPANISH]"

definition marks :: "config_op list \<Rightarrow> nat" where
  "marks ops = length (filter (\<lambda>op. op = Mark_First_Boot) ops)"

lemma language_cast: "l \<le> SB_LANGUAGE_SPANISH \<Longrightarrow> \<not> (ucast l :: u8) > ucast SB_LANGUAGE_SPANISH"
proof -
  assume "l \<le> SB_LANGUAGE_SPANISH"
  then have "unat l \<le> 3" by (simp add: word_le_nat_alt SB_LANGUAGE_SPANISH_def)
  then show ?thesis by (simp add: word_less_nat_alt unat_ucast_small SB_LANGUAGE_SPANISH_def)
qed

lemma config_exec_valid:
  assumes "sb_config_validate (Some r)"
  shows "\<exists>r'. config_exec op (Some r) = Some r' \<and> sb_config_validate (Some r') \<and>
    language r' = (case op of Set_Language l \<Rightarrow> if l \<le> SB_LANGUAGE_SPANISH then ucast l else language r | _ \<Rightarrow> language r) \<and>
    first_boot_completed r' = (if op = Mark_First_Boot then 1 else first_boot_completed r) \<and>
    sequence r' = (if op = Mark_First_Boot then sequence r + 1 else sequence r)"
  using assms language_cast
  by (cases op) (auto simp: sb_config_set_language_def sb_config_mark_first_boot_complete_def sb_config_validate_def
      Let_def checksum_update)

text \<open>
  C30. Every sequence of language changes and first-boot marks on a fresh default record
  leaves a valid record: its language is the last one that was in range, or English, the first-boot
  flag is set exactly when it was marked, and the sequence number counts the marks.
\<close>

theorem config_run:
  "\<exists>r'. fold config_exec ops (sb_config_defaults (Some r)) = Some r' \<and> sb_config_validate (Some r') \<and>
     language r' = ucast (last (SB_LANGUAGE_ENGLISH # accepted_languages ops)) \<and>
     first_boot_completed r' = (if Mark_First_Boot \<in> set ops then 1 else 0) \<and>
     sequence r' = of_nat (marks ops)"
proof (induction ops rule: rev_induct)
  case Nil
  show ?case
    by (simp add: sb_config_defaults_def sb_config_validate_def Let_def checksum_update accepted_languages_def marks_def
      SB_LANGUAGE_ENGLISH_def SB_LANGUAGE_SPANISH_def)
next
  case (snoc op ops)
  then obtain r' where r': "fold config_exec ops (sb_config_defaults (Some r)) = Some r'" "sb_config_validate (Some r')"
      "language r' = ucast (last (SB_LANGUAGE_ENGLISH # accepted_languages ops))"
      "first_boot_completed r' = (if Mark_First_Boot \<in> set ops then 1 else 0)" "sequence r' = of_nat (marks ops)"
    by auto
  show ?case
    using config_exec_valid [OF r'(2), of op] r'
    by (cases op) (auto simp: accepted_languages_def marks_def)
qed

end
