(* ===== verification/Pci.thy ===== *)
theory Pci
  imports Port_Io
begin

text \<open>
  The PCI scanner, \<^verbatim>\<open>kernel/pci.h\<close> and \<^verbatim>\<open>kernel/pci.c\<close>: configuration reads through the address
  and data ports, and the inventory that is printed on the console.
\<close>

section \<open>Operations\<close>

definition PCI_CONFIG_ADDRESS :: u16 where
  "PCI_CONFIG_ADDRESS = 0xCF8"

definition PCI_CONFIG_DATA :: u16 where
  "PCI_CONFIG_DATA = 0xCFC"

definition PCI_MAX_BUSES :: nat where
  "PCI_MAX_BUSES = 256"

definition PCI_MAX_DEVICES :: u8 where
  "PCI_MAX_DEVICES = 32"

definition PCI_MAX_FUNCTIONS :: u8 where
  "PCI_MAX_FUNCTIONS = 8"

definition pci_config_address :: "u8 \<Rightarrow> u8 \<Rightarrow> u8 \<Rightarrow> u8 \<Rightarrow> u32" where
  "pci_config_address bus device function offset =
     0x80000000 OR push_bit 16 (ucast bus) OR push_bit 11 (ucast device) OR push_bit 8 (ucast function) OR
     ucast (offset AND 0xFC)"

definition pci_config_read32 :: "'h port_io \<Rightarrow> u8 \<Rightarrow> u8 \<Rightarrow> u8 \<Rightarrow> u8 \<Rightarrow> 'h \<Rightarrow> u32 \<times> 'h" where
  "pci_config_read32 io bus device function offset h =
     (if device \<ge> PCI_MAX_DEVICES \<or> function \<ge> PCI_MAX_FUNCTIONS then (0xFFFFFFFF, h)
      else inl io PCI_CONFIG_DATA (outl io PCI_CONFIG_ADDRESS (pci_config_address bus device function offset) h))"

definition pci_config_read16 :: "'h port_io \<Rightarrow> u8 \<Rightarrow> u8 \<Rightarrow> u8 \<Rightarrow> u8 \<Rightarrow> 'h \<Rightarrow> u16 \<times> 'h" where
  "pci_config_read16 io bus device function offset h =
     (let (v, h) = pci_config_read32 io bus device function (offset AND 0xFC) h;
          shift = (offset AND 2) * 8 in
      (ucast (drop_bit (unat shift) v AND 0xFFFF), h))"

definition pci_class :: "'h port_io \<Rightarrow> u8 \<Rightarrow> u8 \<Rightarrow> u8 \<Rightarrow> 'h \<Rightarrow> u8 \<times> 'h" where
  "pci_class io bus device function h =
     (let (v, h) = pci_config_read32 io bus device function 0x08 h in (ucast (drop_bit 24 v), h))"

definition pci_subclass :: "'h port_io \<Rightarrow> u8 \<Rightarrow> u8 \<Rightarrow> u8 \<Rightarrow> 'h \<Rightarrow> u8 \<times> 'h" where
  "pci_subclass io bus device function h =
     (let (v, h) = pci_config_read32 io bus device function 0x08 h in (ucast (drop_bit 16 v), h))"

definition pci_prog_if :: "'h port_io \<Rightarrow> u8 \<Rightarrow> u8 \<Rightarrow> u8 \<Rightarrow> 'h \<Rightarrow> u8 \<times> 'h" where
  "pci_prog_if io bus device function h =
     (let (v, h) = pci_config_read32 io bus device function 0x08 h in (ucast (drop_bit 8 v), h))"

definition pci_class_name :: "u8 \<Rightarrow> string" where
  "pci_class_name class_code =
     (if class_code = 0x01 then ''mass-storage'' else if class_code = 0x02 then ''network''
      else if class_code = 0x03 then ''display'' else if class_code = 0x04 then ''multimedia''
      else if class_code = 0x06 then ''bridge'' else ''other'')"

definition serial_hex16 :: "'h port_io \<Rightarrow> u16 \<Rightarrow> 'h \<Rightarrow> 'h option" where
  "serial_hex16 io v h =
     for_each (\<lambda>shift. serial_write_char io (hex_digits ! unat (drop_bit shift v AND 0xF))) [12, 8, 4, 0] h"

definition serial_hex8 :: "'h port_io \<Rightarrow> u8 \<Rightarrow> 'h \<Rightarrow> 'h option" where
  "serial_hex8 io v h = do {
     h \<leftarrow> serial_write_char io (hex_digits ! unat (drop_bit 4 v AND 0xF)) h;
     serial_write_char io (hex_digits ! unat (v AND 0xF)) h }"

definition limit_text :: string where
  "limit_text = ''PCI: inventory limit reached (128 devices).'' @ crlf"

definition complete_text :: string where
  "complete_text = ''PCI: scan complete.'' @ crlf"

text \<open>The line for one function, from \<^verbatim>\<open>serial_char('0')\<close> to the closing parenthesis.\<close>

definition pci_report :: "'h port_io \<Rightarrow> u8 \<Rightarrow> u8 \<Rightarrow> u8 \<Rightarrow> u16 \<Rightarrow> u16 \<Rightarrow> u8 \<Rightarrow> u8 \<Rightarrow> u8 \<Rightarrow> 'h \<Rightarrow> 'h option" where
  "pci_report io bus device function vendor ident class_code subclass prog_if h = do {
     h \<leftarrow> serial_write io ''00:'' h;
     h \<leftarrow> serial_hex8 io bus h;
     h \<leftarrow> serial_write_char io (CHR ''.'') h;
     h \<leftarrow> serial_hex8 io device h;
     h \<leftarrow> serial_write_char io (CHR ''.'') h;
     h \<leftarrow> serial_write_char io (char_of (unat (0x30 + function))) h;
     h \<leftarrow> serial_write io '' vendor=0x'' h;
     h \<leftarrow> serial_hex16 io vendor h;
     h \<leftarrow> serial_write io '' device=0x'' h;
     h \<leftarrow> serial_hex16 io ident h;
     h \<leftarrow> serial_write io '' class=0x'' h;
     h \<leftarrow> serial_hex8 io class_code h;
     h \<leftarrow> serial_write io ''/0x'' h;
     h \<leftarrow> serial_hex8 io subclass h;
     h \<leftarrow> serial_write io '' prog=0x'' h;
     h \<leftarrow> serial_hex8 io prog_if h;
     h \<leftarrow> serial_write io '' ('' h;
     h \<leftarrow> serial_write io (pci_class_name class_code) h;
     serial_write io ('')'' @ crlf) h }"

text \<open>
  The three nested loops of \<open>pci_enumerate\<close>; the lists hold the loop values that are left. The flag
  in the result says that the function has returned from inside the loops.
\<close>

primrec function_loop :: "'h port_io \<Rightarrow> u8 \<Rightarrow> u8 \<Rightarrow> u8 list \<Rightarrow> nat \<Rightarrow> 'h \<Rightarrow> (bool \<times> nat \<times> 'h) option" where
  "function_loop io bus device [] found h = Some (False, found, h)"
| "function_loop io bus device (function # fs) found h =
     (let (vendor, h) = pci_config_read16 io bus device function 0x00 h in
      if vendor = 0xFFFF then function_loop io bus device fs found h
      else
        let (ident, h) = pci_config_read16 io bus device function 0x02 h;
            (class_code, h) = pci_class io bus device function h;
            (subclass, h) = pci_subclass io bus device function h;
            (prog_if, h) = pci_prog_if io bus device function h in
        do {
          h \<leftarrow> pci_report io bus device function vendor ident class_code subclass prog_if h;
          let found = found + 1 in
          if found \<ge> 128 then do {
            h \<leftarrow> serial_write io limit_text h;
            h \<leftarrow> serial_write io complete_text h;
            Some (True, found, h) }
          else if function = 0 then
            let (v, h) = pci_config_read32 io bus device function 0x0C h;
                header_type = (ucast (drop_bit 16 v) :: u8) in
            if header_type AND 0x80 = 0 then Some (False, found, h)
            else function_loop io bus device fs found h
          else function_loop io bus device fs found h })"

primrec device_loop :: "'h port_io \<Rightarrow> u8 \<Rightarrow> u8 list \<Rightarrow> nat \<Rightarrow> 'h \<Rightarrow> (bool \<times> nat \<times> 'h) option" where
  "device_loop io bus [] found h = Some (False, found, h)"
| "device_loop io bus (device # ds) found h = do {
     (stop, found, h) \<leftarrow> function_loop io bus device (map of_nat [0..<unat PCI_MAX_FUNCTIONS]) found h;
     if stop then Some (True, found, h) else device_loop io bus ds found h }"

primrec bus_loop :: "'h port_io \<Rightarrow> u8 list \<Rightarrow> nat \<Rightarrow> 'h \<Rightarrow> (bool \<times> nat \<times> 'h) option" where
  "bus_loop io [] found h = Some (False, found, h)"
| "bus_loop io (bus # bs) found h = do {
     (stop, found, h) \<leftarrow> device_loop io bus (map of_nat [0..<unat PCI_MAX_DEVICES]) found h;
     if stop then Some (True, found, h) else bus_loop io bs found h }"

definition pci_enumerate :: "'h port_io \<Rightarrow> 'h \<Rightarrow> 'h option" where
  "pci_enumerate io h = do {
     h \<leftarrow> serial_write io (''PCI: scanning bus/device/function space...'' @ crlf) h;
     (stop, found, h) \<leftarrow> bus_loop io (map of_nat [0..<PCI_MAX_BUSES]) 0 h;
     if stop then Some h else serial_write io complete_text h }"

section \<open>Configuration addresses\<close>

lemma bit_of_less:
  assumes "unat (w :: 'a::len word) < 2 ^ n" "bit w i"
  shows "i < n"
proof -
  have "w AND mask n = w" using assms(1) by (simp add: word_unat_eq_iff unat_and_mask)
  then show ?thesis using assms(2) by (metis bit_and_iff bit_mask_iff)
qed

lemma bit_masks:
  "bit (0xFC :: int) n \<longleftrightarrow> 2 \<le> n \<and> n < 8" "bit (0x1F :: int) n \<longleftrightarrow> n < 5" "bit (0x07 :: int) n \<longleftrightarrow> n < 3"
proof -
  have "(0xFC :: int) = push_bit 2 (mask 6)" "(0x1F :: int) = mask 5" "(0x07 :: int) = mask 3"
    by (simp_all add: mask_eq_exp_minus_1 push_bit_eq_mult)
  then show "bit (0xFC :: int) n \<longleftrightarrow> 2 \<le> n \<and> n < 8" "bit (0x1F :: int) n \<longleftrightarrow> n < 5" "bit (0x07 :: int) n \<longleftrightarrow> n < 3"
    by (auto simp only: bit_push_bit_iff bit_mask_iff possible_bit_def) simp_all
qed

text \<open>
  The configuration address of a device and function in range has the enable
  bit set and holds the bus, the device, the function and the double-word register in separate
  fields, from which each one can be read back; the two low bits are zero.
\<close>

lemma pci_address_roundtrip:
  assumes "device < PCI_MAX_DEVICES" "function < PCI_MAX_FUNCTIONS"
  shows "bit (pci_config_address bus device function offset) 31 \<and>
    ucast (drop_bit 16 (pci_config_address bus device function offset)) = bus \<and>
    ucast (drop_bit 11 (pci_config_address bus device function offset)) AND 0x1F = device \<and>
    ucast (drop_bit 8 (pci_config_address bus device function offset)) AND 0x07 = function \<and>
    ucast (pci_config_address bus device function offset) = offset AND 0xFC"
proof -
  have d: "bit device i \<Longrightarrow> i < 5" and f: "bit function i \<Longrightarrow> i < 3" for i
    using assms bit_of_less [of device 5 i] bit_of_less [of "function" 3 i]
    by (simp_all add: PCI_MAX_DEVICES_def PCI_MAX_FUNCTIONS_def word_less_nat_alt)
  have b: "bit (pci_config_address bus device function offset) n \<longleftrightarrow>
      n = 31 \<or> (16 \<le> n \<and> n < 24 \<and> bit bus (n - 16)) \<or> (11 \<le> n \<and> n < 16 \<and> bit device (n - 11)) \<or>
      (8 \<le> n \<and> n < 11 \<and> bit function (n - 8)) \<or> (2 \<le> n \<and> n < 8 \<and> bit offset n)" for n
  proof -
    have "bit (0x80000000 :: u32) n \<longleftrightarrow> n = 31"
      using bit_push_bit_iff [of 31 "1 :: u32" n] by (auto simp: bit_1_iff push_bit_of_1)
    moreover have "bit (push_bit 16 (ucast bus) :: u32) n \<longleftrightarrow> 16 \<le> n \<and> n < 24 \<and> bit bus (n - 16)"
      by (auto simp: bit_simps dest: bit_unat_lt)
    moreover have "bit (push_bit 11 (ucast device) :: u32) n \<longleftrightarrow> 11 \<le> n \<and> n < 16 \<and> bit device (n - 11)"
      using d [of "n - 11"] by (auto simp: bit_simps)
    moreover have "bit (push_bit 8 (ucast function) :: u32) n \<longleftrightarrow> 8 \<le> n \<and> n < 11 \<and> bit function (n - 8)"
      using f [of "n - 8"] by (auto simp: bit_simps)
    moreover have "bit (ucast (offset AND 0xFC) :: u32) n \<longleftrightarrow> 2 \<le> n \<and> n < 8 \<and> bit offset n"
      by (auto simp: bit_simps bit_masks)
    ultimately show ?thesis by (simp add: pci_config_address_def bit_or_iff disj_assoc)
  qed
  show ?thesis
    by (intro conjI; (rule bit_word_eqI)?)
      (use d f in \<open>auto simp: b bit_simps bit_masks\<close>)
qed

section \<open>The inventory\<close>

text \<open>
  The documented behaviour of the configuration mechanism: after the address port is written, the
  data port returns the configuration register \<open>cfg\<close> at that address; neither access sends anything
  on the console.
\<close>

definition pci_ok :: "'h port_io \<Rightarrow> ('h \<Rightarrow> nat) \<Rightarrow> ('h \<Rightarrow> string) \<Rightarrow> (u32 \<Rightarrow> u32) \<Rightarrow> bool" where
  "pci_ok io busy sent cfg \<longleftrightarrow> uart_ok io busy sent \<and>
     (\<forall>h a. \<exists>h'. inl io PCI_CONFIG_DATA (outl io PCI_CONFIG_ADDRESS a h) = (cfg a, h') \<and> sent h' = sent h)"

definition vendor_of :: "(u32 \<Rightarrow> u32) \<Rightarrow> u8 \<Rightarrow> u8 \<Rightarrow> u8 \<Rightarrow> u16" where
  "vendor_of cfg b d f = ucast (cfg (pci_config_address b d f 0) AND 0xFFFF)"

definition multi_function :: "(u32 \<Rightarrow> u32) \<Rightarrow> u8 \<Rightarrow> u8 \<Rightarrow> bool" where
  "multi_function cfg b d \<longleftrightarrow> (ucast (drop_bit 16 (cfg (pci_config_address b d 0 0x0C))) :: u8) AND 0x80 \<noteq> 0"

definition hex8 :: "u8 \<Rightarrow> string" where
  "hex8 v = [hex_digits ! unat (drop_bit 4 v AND 0xF), hex_digits ! unat (v AND 0xF)]"

definition hex16 :: "u16 \<Rightarrow> string" where
  "hex16 v = map (\<lambda>shift. hex_digits ! unat (drop_bit shift v AND 0xF)) [12, 8, 4, 0]"

text \<open>The text of one line, from the identification and class registers of a function.\<close>

definition pci_line :: "(u32 \<Rightarrow> u32) \<Rightarrow> u8 \<times> u8 \<times> u8 \<Rightarrow> string" where
  "pci_line cfg = (\<lambda>(b, d, f).
     let ident = cfg (pci_config_address b d f 0); cls = cfg (pci_config_address b d f 8) in
     ''00:'' @ hex8 b @ ''.'' @ hex8 d @ ''.'' @ [char_of (unat (0x30 + f))] @
     '' vendor=0x'' @ hex16 (ucast (ident AND 0xFFFF)) @ '' device=0x'' @ hex16 (ucast (drop_bit 16 ident AND 0xFFFF)) @
     '' class=0x'' @ hex8 (ucast (drop_bit 24 cls)) @ ''/0x'' @ hex8 (ucast (drop_bit 16 cls)) @
     '' prog=0x'' @ hex8 (ucast (drop_bit 8 cls)) @ '' ('' @ pci_class_name (ucast (drop_bit 24 cls)) @ '')'' @ crlf)"

text \<open>
  What the scan should find: of every device the functions that answer, but only the first one when
  it answers and the device has a single function.
\<close>

fun functions_of :: "(u32 \<Rightarrow> u32) \<Rightarrow> u8 \<Rightarrow> u8 \<Rightarrow> u8 list \<Rightarrow> (u8 \<times> u8 \<times> u8) list" where
  "functions_of cfg b d [] = []"
| "functions_of cfg b d (f # fs) =
     (if vendor_of cfg b d f = 0xFFFF then functions_of cfg b d fs
      else if f = 0 \<and> \<not> multi_function cfg b d then [(b, d, f)]
      else (b, d, f) # functions_of cfg b d fs)"

definition upto8 :: "nat \<Rightarrow> u8 list" where
  "upto8 n = map of_nat [0..<n]"

definition inventory :: "(u32 \<Rightarrow> u32) \<Rightarrow> (u8 \<times> u8 \<times> u8) list" where
  "inventory cfg = concat (map (\<lambda>b. concat (map (\<lambda>d. functions_of cfg b d (upto8 8)) (upto8 32))) (upto8 256))"

text \<open>The text for the functions \<open>L\<close> when \<open>found\<close> have been reported already.\<close>

definition scan_text :: "(u32 \<Rightarrow> u32) \<Rightarrow> nat \<Rightarrow> (u8 \<times> u8 \<times> u8) list \<Rightarrow> string" where
  "scan_text cfg found L = concat (map (pci_line cfg) (take (128 - found) L)) @
     (if found + length L \<ge> 128 then limit_text @ complete_text else [])"

lemma scan_text_append:
  "found + length L < 128 \<Longrightarrow> scan_text cfg found (L @ L') = scan_text cfg found L @ scan_text cfg (found + length L) L'"
  "found + length L \<ge> 128 \<Longrightarrow> found < 128 \<Longrightarrow> scan_text cfg found (L @ L') = scan_text cfg found L"
  by (simp_all add: scan_text_def)

text \<open>The outcome of a loop that started with \<open>found < 128\<close> and should report \<open>L\<close>.\<close>

definition scanned :: "('h \<Rightarrow> string) \<Rightarrow> (u32 \<Rightarrow> u32) \<Rightarrow> nat \<Rightarrow> (u8 \<times> u8 \<times> u8) list \<Rightarrow> 'h \<Rightarrow> (bool \<times> nat \<times> 'h) option \<Rightarrow> bool" where
  "scanned sent cfg found L h r \<longleftrightarrow>
     (\<exists>h'. r = Some (found + length L \<ge> 128, min 128 (found + length L), h') \<and> sent h' = sent h @ scan_text cfg found L)"

lemma scanned_Nil: "found < 128 \<Longrightarrow> scanned sent cfg found [] h (Some (False, found, h))"
  by (simp add: scanned_def scan_text_def)

lemma scanned_append:
  assumes "scanned sent cfg found L h r" "found < 128"
    and "\<And>h'. found + length L < 128 \<Longrightarrow> scanned sent cfg (found + length L) L' h' (k (found + length L) h')"
  shows "scanned sent cfg found (L @ L') h
    (do { (stop, found, h) \<leftarrow> r; if stop then Some (True, found, h) else k found h })"
proof (cases "found + length L \<ge> 128")
  case True
  then show ?thesis using assms(1,2) scan_text_append(2) [OF True assms(2)] by (auto simp: scanned_def)
next
  case False
  then obtain h' where h': "r = Some (False, found + length L, h')" "sent h' = sent h @ scan_text cfg found L"
    using assms(1) by (auto simp: scanned_def)
  have "scanned sent cfg (found + length L) L' h' (k (found + length L) h')" using assms(3) False by simp
  then show ?thesis using h' False scan_text_append(1) [of found L cfg L'] by (auto simp: scanned_def add.assoc)
qed

lemma scanned_cong: "sent h' = sent h \<Longrightarrow> scanned sent cfg found L h' r = scanned sent cfg found L h r"
  by (simp add: scanned_def)

lemma scanned_Cons:
  assumes "scanned sent cfg (found + 1) L h' r" "found + 1 < 128" "sent h' = sent h @ pci_line cfg x"
  shows "scanned sent cfg found (x # L) h r"
proof -
  have "128 - found = Suc (128 - (found + 1))" using assms(2) by simp
  then show ?thesis using assms by (auto simp: scanned_def scan_text_def)
qed

lemma scanned_last:
  assumes "found + 1 = 128" "sent h' = sent h @ pci_line cfg x @ limit_text @ complete_text"
  shows "scanned sent cfg found (x # L) h (Some (True, 128, h'))"
proof -
  have "128 - found = Suc 0" using assms(1) by simp
  then show ?thesis using assms by (auto simp: scanned_def scan_text_def)
qed

definition prints :: "('h \<Rightarrow> string) \<Rightarrow> ('h \<Rightarrow> 'h option) \<Rightarrow> string \<Rightarrow> bool" where
  "prints sent f t \<longleftrightarrow> (\<forall>h. \<exists>h'. f h = Some h' \<and> sent h' = sent h @ t)"

lemma prints_bind:
  assumes "prints sent f s" "prints sent g t"
  shows "prints sent (\<lambda>h. do { h \<leftarrow> f h; g h }) (s @ t)"
  unfolding prints_def
proof
  fix h
  obtain h1 h2 where "f h = Some h1" "sent h1 = sent h @ s" "g h1 = Some h2" "sent h2 = sent h1 @ t"
    using assms unfolding prints_def by metis
  then show "\<exists>h'. f h \<bind> g = Some h' \<and> sent h' = sent h @ s @ t" by simp
qed

lemma prints_serial:
  assumes "uart_ok io busy sent"
  shows "prints sent (serial_write_char io c) [c]" "prints sent (serial_write io s) s"
  using serial_char_sent [OF assms] serial_write_sent [OF assms] by (auto simp: prints_def)

lemma prints_hex:
  assumes "uart_ok io busy sent"
  shows "prints sent (serial_hex8 io v) (hex8 v)" "prints sent (serial_hex16 io w) (hex16 w)"
proof -
  note c = prints_serial(1) [OF assms]
  show "prints sent (serial_hex8 io v) (hex8 v)"
    using prints_bind [OF c c, of "hex_digits ! unat (drop_bit 4 v AND 0xF)" "hex_digits ! unat (v AND 0xF)"]
    by (simp add: serial_hex8_def [abs_def] hex8_def)
  show "prints sent (serial_hex16 io w) (hex16 w)"
    using prints_bind [OF c prints_bind [OF c prints_bind [OF c c]], of
        "hex_digits ! unat (drop_bit 12 w AND 0xF)" "hex_digits ! unat (drop_bit 8 w AND 0xF)"
        "hex_digits ! unat (drop_bit 4 w AND 0xF)" "hex_digits ! unat (w AND 0xF)"]
    by (simp add: serial_hex16_def [abs_def] hex16_def)
qed

lemma prints_report:
  assumes "uart_ok io busy sent"
  shows "prints sent (pci_report io b d f vendor ident class_code subclass prog_if)
    (''00:'' @ hex8 b @ ''.'' @ hex8 d @ ''.'' @ [char_of (unat (0x30 + f))] @ '' vendor=0x'' @ hex16 vendor @
     '' device=0x'' @ hex16 ident @ '' class=0x'' @ hex8 class_code @ ''/0x'' @ hex8 subclass @
     '' prog=0x'' @ hex8 prog_if @ '' ('' @ pci_class_name class_code @ '')'' @ crlf)"
  unfolding pci_report_def [abs_def]
  by (intro prints_bind prints_serial [OF assms] prints_hex [OF assms])

lemma pci_read:
  assumes "pci_ok io busy sent cfg" "device < 32" "function < 8"
  shows "\<exists>h'. pci_config_read32 io bus device function offset h = (cfg (pci_config_address bus device function offset), h') \<and>
    sent h' = sent h"
  using assms by (auto simp: pci_ok_def pci_config_read32_def PCI_MAX_DEVICES_def PCI_MAX_FUNCTIONS_def not_le)

lemma function_loop_scanned:
  assumes "pci_ok io busy sent cfg" "d < 32" "\<forall>f\<in>set fs. f < 8" "found < 128"
  shows "scanned sent cfg found (functions_of cfg b d fs) h (function_loop io b d fs found h)"
  using assms(3,4)
proof (induction fs arbitrary: found h)
  case Nil
  then show ?case by (simp add: scanned_Nil)
next
  case (Cons f fs)
  have f: "f < 8" using Cons.prems by simp
  have u: "uart_ok io busy sent" using assms(1) by (simp add: pci_ok_def)
  note rd = pci_read [OF assms(1,2) f, of b]
  let ?x = "(b, d, f)" and ?v = "cfg (pci_config_address b d f 0)" and ?c = "cfg (pci_config_address b d f 8)"
  obtain h1 where h1: "pci_config_read32 io b d f 0 h = (?v, h1)" "sent h1 = sent h" using rd by blast
  obtain h2 where h2: "pci_config_read32 io b d f 0 h1 = (?v, h2)" "sent h2 = sent h1" using rd by blast
  obtain h3 where h3: "pci_config_read32 io b d f 8 h2 = (?c, h3)" "sent h3 = sent h2" using rd by blast
  obtain h4 where h4: "pci_config_read32 io b d f 8 h3 = (?c, h4)" "sent h4 = sent h3" using rd by blast
  obtain h5 where h5: "pci_config_read32 io b d f 8 h4 = (?c, h5)" "sent h5 = sent h4" using rd by blast
  obtain h6 where h6: "pci_report io b d f (ucast (?v AND 0xFFFF)) (ucast (drop_bit 16 ?v AND 0xFFFF))
      (ucast (drop_bit 24 ?c)) (ucast (drop_bit 16 ?c)) (ucast (drop_bit 8 ?c)) h5 = Some h6"
      "sent h6 = sent h @ pci_line cfg ?x"
    using prints_report [OF u] h1(2) h2(2) h3(2) h4(2) h5(2) by (fastforce simp: prints_def pci_line_def Let_def)
  obtain h7 where h7: "pci_config_read32 io b d f 0x0C h6 = (cfg (pci_config_address b d f 0x0C), h7)" "sent h7 = sent h6"
    using rd by blast
  obtain h8 h9 where h9: "serial_write io limit_text h6 = Some h8" "serial_write io complete_text h8 = Some h9"
      "sent h9 = sent h6 @ limit_text @ complete_text"
    using prints_serial(2) [OF u] by (metis append.assoc prints_def)
  note reads = h1(1) h2(1) h3(1) h4(1) h5(1) h6(1) h7(1) h9(1,2)
  let ?next = "function_loop io b d fs"
  have code: "function_loop io b d (f # fs) found h =
      (if vendor_of cfg b d f = 0xFFFF then ?next found h1
       else if found + 1 \<ge> 128 then Some (True, found + 1, h9)
       else if f = 0 then if multi_function cfg b d then ?next (found + 1) h7 else Some (False, found + 1, h7)
       else ?next (found + 1) h6)"
    using reads
    by (cases "f = 0") (simp_all add: pci_config_read16_def pci_class_def pci_subclass_def pci_prog_if_def vendor_of_def
        multi_function_def)
  show ?case
  proof (cases "vendor_of cfg b d f = 0xFFFF")
    case True
    then show ?thesis using code Cons.IH [of found h1] Cons.prems scanned_cong [of sent, OF h1(2)] by simp
  next
    case False
    show ?thesis
    proof (cases "found + 1 \<ge> 128")
      case True
      then have e: "found + 1 = 128" using Cons.prems by simp
      have "function_loop io b d (f # fs) found h = Some (True, 128, h9)" unfolding code using False e by simp
      moreover have "scanned sent cfg found (?x # L) h (Some (True, 128, h9))" for L
        using scanned_last [of found sent h9 h cfg ?x] e h9(3) h6(2) by simp
      ultimately show ?thesis using False by (cases "f = 0") (auto simp del: function_loop.simps)
    next
      case nf: False
      note step = scanned_Cons [of sent cfg found _ h6 _ h ?x, OF _ _ h6(2)]
      have IH: "scanned sent cfg (found + 1) (functions_of cfg b d fs) h7 (?next (found + 1) h7)"
          "scanned sent cfg (found + 1) (functions_of cfg b d fs) h6 (?next (found + 1) h6)"
        using Cons.IH Cons.prems nf by simp_all
      show ?thesis using code False nf IH scanned_cong [of sent, OF h7(2)] step scanned_Nil [of "found + 1" sent cfg h7]
        by (auto simp del: function_loop.simps)
    qed
  qed
qed

lemma upto8_less: "n \<le> 256 \<Longrightarrow> x \<in> set (upto8 n) \<Longrightarrow> unat x < n"
  by (auto simp: upto8_def unat_of_nat_small)

lemma device_loop_scanned:
  assumes "pci_ok io busy sent cfg" "\<forall>d\<in>set ds. d < 32" "found < 128"
  shows "scanned sent cfg found (concat (map (\<lambda>d. functions_of cfg b d (upto8 8)) ds)) h (device_loop io b ds found h)"
  using assms(2,3)
proof (induction ds arbitrary: found h)
  case (Cons d ds)
  have "\<forall>f\<in>set (upto8 8). f < 8" using upto8_less [of 8] by (simp add: word_less_nat_alt)
  then have "scanned sent cfg found (functions_of cfg b d (upto8 8)) h (function_loop io b d (upto8 8) found h)"
    using function_loop_scanned [OF assms(1)] Cons.prems by simp
  then show ?case
    using scanned_append [of sent cfg found "functions_of cfg b d (upto8 8)" h _ _ "device_loop io b ds"] Cons
    by (simp add: upto8_def PCI_MAX_FUNCTIONS_def)
qed (simp add: scanned_Nil)

lemma bus_loop_scanned:
  assumes "pci_ok io busy sent cfg" "found < 128"
  shows "scanned sent cfg found (concat (map (\<lambda>b. concat (map (\<lambda>d. functions_of cfg b d (upto8 8)) (upto8 32))) bs)) h
    (bus_loop io bs found h)"
  using assms(2)
proof (induction bs arbitrary: found h)
  case (Cons b bs)
  have "\<forall>d\<in>set (upto8 32). d < 32" using upto8_less [of 32] by (simp add: word_less_nat_alt)
  then have "scanned sent cfg found (concat (map (\<lambda>d. functions_of cfg b d (upto8 8)) (upto8 32))) h
      (device_loop io b (upto8 32) found h)"
    using device_loop_scanned [OF assms(1)] Cons.prems by simp
  then show ?case
    using scanned_append [of sent cfg found "concat (map (\<lambda>d. functions_of cfg b d (upto8 8)) (upto8 32))" h _ _
        "bus_loop io bs"] Cons
    by (simp add: upto8_def PCI_MAX_DEVICES_def)
qed (simp add: scanned_Nil)


text \<open>A machine with one host bridge; the console accepts every byte at once.\<close>

definition sample_cfg :: "u32 \<Rightarrow> u32" where
  "sample_cfg a = (if a = 0x80000000 then 0x12378086 else if a = 0x80000008 then 0x06000000
     else if a = 0x8000000C then 0 else 0xFFFFFFFF)"

definition sample_pci :: "(u32 \<times> string) port_io" where
  "sample_pci = \<lparr>inb = (\<lambda>p h. (0x20, h)),
     outb = (\<lambda>p v (a, s). (a, if p = 0x3F8 then s @ [char_of (unat v)] else s)),
     inw = (\<lambda>p h. (0, h)), outw = (\<lambda>p v h. h),
     inl = (\<lambda>p (a, s). (sample_cfg a, a, s)), outl = (\<lambda>p v (a, s). (v, s))\<rparr>"

lemma sample_pci_ok: "pci_ok sample_pci (\<lambda>h. 0) snd sample_cfg"
  by (auto simp: pci_ok_def uart_ok_def sample_pci_def char_of_byte split: prod.splits)


end
