(* ===== verification/Ata_Pio.thy ===== *)
theory Ata_Pio
  imports Port_Io Vfs
begin

text \<open>
  The driver of the primary ATA drive, \<^verbatim>\<open>kernel/ata_pio.c\<close>. The drive is behind the ports of
  \<open>Port_Io\<close>; what the driver needs of it is the hypothesis \<open>ata_drive\<close>, in terms of single port
  accesses. Under it the driver keeps the contract \<open>block_driver\<close>, so that everything proved about
  volumes holds on the drive.
\<close>

section \<open>Operations\<close>

definition ATA_PRIMARY_IO :: u16 where "ATA_PRIMARY_IO = 0x1F0"
definition ATA_PRIMARY_CTRL :: u16 where "ATA_PRIMARY_CTRL = 0x3F6"
definition ATA_REG_DATA :: u16 where "ATA_REG_DATA = 0"
definition ATA_REG_SECCOUNT0 :: u16 where "ATA_REG_SECCOUNT0 = 2"
definition ATA_REG_LBA0 :: u16 where "ATA_REG_LBA0 = 3"
definition ATA_REG_LBA1 :: u16 where "ATA_REG_LBA1 = 4"
definition ATA_REG_LBA2 :: u16 where "ATA_REG_LBA2 = 5"
definition ATA_REG_DRIVE :: u16 where "ATA_REG_DRIVE = 6"
definition ATA_REG_STATUS :: u16 where "ATA_REG_STATUS = 7"
definition ATA_REG_COMMAND :: u16 where "ATA_REG_COMMAND = 7"
definition ATA_CMD_READ_SECTORS :: u8 where "ATA_CMD_READ_SECTORS = 0x20"
definition ATA_CMD_WRITE_SECTORS :: u8 where "ATA_CMD_WRITE_SECTORS = 0x30"
definition ATA_CMD_IDENTIFY :: u8 where "ATA_CMD_IDENTIFY = 0xEC"
definition ATA_STATUS_BSY :: u8 where "ATA_STATUS_BSY = 0x80"
definition ATA_STATUS_DRQ :: u8 where "ATA_STATUS_DRQ = 0x08"
definition ATA_STATUS_ERR :: u8 where "ATA_STATUS_ERR = 0x01"
definition ATA_STATUS_DF :: u8 where "ATA_STATUS_DF = 0x20"
definition ATA_POLL_LIMIT :: nat where "ATA_POLL_LIMIT = 1000000"

definition ata_io_wait :: "'h port_io \<Rightarrow> 'h \<Rightarrow> 'h" where
  "ata_io_wait io h = (outb io 0x80 0 ^^ 4) h"

text \<open>The polling loops; the first argument counts the polls that are left.\<close>

fun not_busy_loop :: "nat \<Rightarrow> u8 \<Rightarrow> 'h port_io \<Rightarrow> 'h \<Rightarrow> u8 \<times> 'h" where
  "not_busy_loop 0 status io h = (status OR ATA_STATUS_BSY, h)"
| "not_busy_loop (Suc n) status io h =
     (let (status, h) = inb io (ATA_PRIMARY_IO + ATA_REG_STATUS) h in
      if status AND ATA_STATUS_BSY = 0 then (status, h) else not_busy_loop n status io h)"

definition ata_wait_not_busy :: "'h port_io \<Rightarrow> 'h \<Rightarrow> u8 \<times> 'h" where
  "ata_wait_not_busy io h = not_busy_loop ATA_POLL_LIMIT 0 io h"

fun drq_loop :: "nat \<Rightarrow> u8 \<Rightarrow> 'h port_io \<Rightarrow> 'h \<Rightarrow> u8 \<times> 'h" where
  "drq_loop 0 status io h = (status, h)"
| "drq_loop (Suc n) status io h =
     (let (status, h) = inb io (ATA_PRIMARY_IO + ATA_REG_STATUS) h in
      if status AND (ATA_STATUS_ERR OR ATA_STATUS_DF) \<noteq> 0 then (status, h)
      else if status AND ATA_STATUS_DRQ \<noteq> 0 then (status, h)
      else drq_loop n status io h)"

definition ata_wait_drq :: "'h port_io \<Rightarrow> 'h \<Rightarrow> u8 \<times> 'h" where
  "ata_wait_drq io h = drq_loop ATA_POLL_LIMIT 0 io h"

definition ata_select :: "'h port_io \<Rightarrow> u32 \<Rightarrow> 'h \<Rightarrow> 'h" where
  "ata_select io lba h =
     ata_io_wait io (outb io (ATA_PRIMARY_IO + ATA_REG_DRIVE) (ucast (0xE0 OR (drop_bit 24 lba AND 0x0F))) h)"

text \<open>The register writes that open \<open>ata_read\<close> and \<open>ata_write\<close> for one sector.\<close>

definition ata_command :: "'h port_io \<Rightarrow> u32 \<Rightarrow> u8 \<Rightarrow> 'h \<Rightarrow> 'h" where
  "ata_command io current command h =
     (let h = ata_select io current h;
          h = outb io (ATA_PRIMARY_IO + ATA_REG_SECCOUNT0) 1 h;
          h = outb io (ATA_PRIMARY_IO + ATA_REG_LBA0) (ucast (current AND 0xFF)) h;
          h = outb io (ATA_PRIMARY_IO + ATA_REG_LBA1) (ucast (drop_bit 8 current AND 0xFF)) h;
          h = outb io (ATA_PRIMARY_IO + ATA_REG_LBA2) (ucast (drop_bit 16 current AND 0xFF)) h in
      outb io (ATA_PRIMARY_IO + ATA_REG_COMMAND) command h)"

text \<open>The two waits and their checks; the flag says that data can be transferred.\<close>

definition ata_wait_data :: "'h port_io \<Rightarrow> 'h \<Rightarrow> bool \<times> 'h" where
  "ata_wait_data io h =
     (let (status, h) = ata_wait_not_busy io h in
      if status AND (ATA_STATUS_BSY OR ATA_STATUS_ERR OR ATA_STATUS_DF) \<noteq> 0 then (False, h)
      else
        let (status, h) = ata_wait_drq io h in
        if status AND (ATA_STATUS_ERR OR ATA_STATUS_DF) \<noteq> 0 then (False, h)
        else (status AND ATA_STATUS_DRQ \<noteq> 0, h))"

text \<open>Storing a 16-bit word at a byte index, and reading one.\<close>

definition set_word16 :: "nat \<Rightarrow> u16 \<Rightarrow> u8 list \<Rightarrow> u8 list option" where
  "set_word16 i w dst = do { dst \<leftarrow> array_set i (ucast w) dst; array_set (i + 1) (ucast (drop_bit 8 w)) dst }"

definition get_word16 :: "u8 list \<Rightarrow> nat \<Rightarrow> u16 option" where
  "get_word16 src i = do { a \<leftarrow> array_get src i; b \<leftarrow> array_get src (i + 1); Some (ucast a OR push_bit 8 (ucast b)) }"

primrec ata_read_loop :: "'h port_io \<Rightarrow> geometry \<Rightarrow> u64 \<Rightarrow> nat list \<Rightarrow> u8 list \<Rightarrow> 'h \<Rightarrow> (block_status \<times> u8 list \<times> 'h) option" where
  "ata_read_loop io d lba [] dst h = Some (SB_BLOCK_OK, dst, h)"
| "ata_read_loop io d lba (sector # rest) dst h =
     (let current = ucast (lba + of_nat sector);
          h = ata_command io current ATA_CMD_READ_SECTORS h;
          (ready, h) = ata_wait_data io h in
      if \<not> ready then Some (SB_BLOCK_NOT_READY, dst, h)
      else
        let base = unat (of_nat sector * sector_size d :: u32) in
        do {
          (dst, h) \<leftarrow> for_each (\<lambda>i (dst, h). let (w, h) = inw io (ATA_PRIMARY_IO + ATA_REG_DATA) h in
                                 do { dst \<leftarrow> set_word16 (base + 2 * i) w dst; Some (dst, h) })
                     [0..<unat (sector_size d div 2)] (dst, h);
          ata_read_loop io d lba rest dst h })"

definition ata_read :: "'h port_io \<Rightarrow> 'h driver_read" where
  "ata_read io device lba count buffer h =
     (case (device, buffer) of
        (Some d, Some dst) \<Rightarrow>
          if count = 0 \<or> count > 255 \<or> lba \<ge> sector_count d \<or> ucast count > sector_count d - lba
          then Some (SB_BLOCK_INVALID_ARGUMENT, buffer, h)
          else do {
            (status, dst, h) \<leftarrow> ata_read_loop io d lba [0..<unat count] dst h;
            Some (status, Some dst, h) }
      | _ \<Rightarrow> Some (SB_BLOCK_INVALID_ARGUMENT, buffer, h))"

primrec ata_write_loop :: "'h port_io \<Rightarrow> geometry \<Rightarrow> u64 \<Rightarrow> nat list \<Rightarrow> u8 list \<Rightarrow> 'h \<Rightarrow> (block_status \<times> 'h) option" where
  "ata_write_loop io d lba [] src h = Some (SB_BLOCK_OK, h)"
| "ata_write_loop io d lba (sector # rest) src h =
     (let current = ucast (lba + of_nat sector);
          h = ata_command io current ATA_CMD_WRITE_SECTORS h;
          (ready, h) = ata_wait_data io h in
      if \<not> ready then Some (SB_BLOCK_NOT_READY, h)
      else
        let base = unat (of_nat sector * sector_size d :: u32) in
        do {
          h \<leftarrow> for_each (\<lambda>i h. do { w \<leftarrow> get_word16 src (base + 2 * i);
                                   Some (outw io (ATA_PRIMARY_IO + ATA_REG_DATA) w h) })
                [0..<unat (sector_size d div 2)] h;
          let (status, h) = ata_wait_not_busy io h in
          if status AND (ATA_STATUS_BSY OR ATA_STATUS_ERR OR ATA_STATUS_DF) \<noteq> 0 then Some (SB_BLOCK_NOT_READY, h)
          else ata_write_loop io d lba rest src h })"

definition ata_write :: "'h port_io \<Rightarrow> 'h driver_write" where
  "ata_write io device lba count buffer h =
     (case (device, buffer) of
        (Some d, Some src) \<Rightarrow>
          if count = 0 \<or> count > 255 \<or> lba \<ge> sector_count d \<or> ucast count > sector_count d - lba
          then Some (SB_BLOCK_INVALID_ARGUMENT, h)
          else ata_write_loop io d lba [0..<unat count] src h
      | _ \<Rightarrow> Some (SB_BLOCK_INVALID_ARGUMENT, h))"

record 'h ata =
  g_ata_device :: "'h block_device"
  g_ata_ready :: bool
  g_ata_sectors :: u64

definition sb_ata_pio_init ::
    "'h port_io \<Rightarrow> 'h ata \<Rightarrow> 'h block_table \<Rightarrow> 'h \<Rightarrow> block_status \<times> 'h ata \<times> 'h block_table \<times> 'h" where
  "sb_ata_pio_init io a t h =
     (let h = ata_io_wait io (outb io ATA_PRIMARY_CTRL 0 h);
          h = ata_io_wait io (outb io (ATA_PRIMARY_IO + ATA_REG_DRIVE) 0xA0 h);
          h = outb io (ATA_PRIMARY_IO + ATA_REG_SECCOUNT0) 0 h;
          h = outb io (ATA_PRIMARY_IO + ATA_REG_LBA0) 0 h;
          h = outb io (ATA_PRIMARY_IO + ATA_REG_LBA1) 0 h;
          h = outb io (ATA_PRIMARY_IO + ATA_REG_LBA2) 0 h;
          h = outb io (ATA_PRIMARY_IO + ATA_REG_COMMAND) ATA_CMD_IDENTIFY h;
          (status, h) = inb io (ATA_PRIMARY_IO + ATA_REG_STATUS) h in
      if status = 0 then (SB_BLOCK_NOT_READY, a, t, h)
      else
        let (ready, h) = ata_wait_data io h in
        if \<not> ready then (SB_BLOCK_NOT_READY, a, t, h)
        else
          let (identify, h) = fold (\<lambda>i (ws, h). let (w, h) = inw io (ATA_PRIMARY_IO + ATA_REG_DATA) h in (ws[i := w], h))
                [0..<256] (replicate 256 0, h);
              total = push_bit 16 (ucast (identify ! 61)) OR ucast (identify ! 60);
              a = a\<lparr>g_ata_sectors := total\<rparr> in
          if total = 0 then (SB_BLOCK_NOT_READY, a, t, h)
          else
            let a = a\<lparr>g_ata_device := \<lparr>dev_geometry = \<lparr>dev_name = ''ata-primary-master'', sector_count = total,
                         sector_size = SB_BLOCK_SECTOR_SIZE, driver_data = 0\<rparr>,
                         dev_read = Some (ata_read io), dev_write = Some (ata_write io)\<rparr>,
                      g_ata_ready := True\<rparr>;
                (status, t) = sb_block_register (Some (g_ata_device a)) t in
            (status, a, t, h))"

definition sb_ata_pio_device :: "'h ata \<Rightarrow> 'h block_device option" where
  "sb_ata_pio_device a = (if g_ata_ready a then Some (g_ata_device a) else None)"

section \<open>The drive\<close>

text \<open>
  The documented behaviour of a drive with \<open>N\<close> sectors whose image is \<open>disk h\<close>. After the register
  writes of a command the status register shows the busy bit for less than \<open>ATA_POLL_LIMIT\<close> reads
  and then neither busy nor error; the next read shows that data can be transferred. After a read
  command the data register gives the words of the sector; after a write command the 256 words that
  are written become the sector, once the drive is no longer busy.
\<close>

definition status_good :: "u8 \<Rightarrow> bool" where
  "status_good st \<longleftrightarrow> st AND (ATA_STATUS_BSY OR ATA_STATUS_ERR OR ATA_STATUS_DF) = 0"

primrec settles :: "'h port_io \<Rightarrow> nat \<Rightarrow> 'h \<Rightarrow> 'h \<Rightarrow> bool" where
  "settles io 0 h h' = (\<exists>st. inb io (ATA_PRIMARY_IO + ATA_REG_STATUS) h = (st, h') \<and> status_good st)"
| "settles io (Suc k) h h' =
     (\<exists>st h1. inb io (ATA_PRIMARY_IO + ATA_REG_STATUS) h = (st, h1) \<and> st AND ATA_STATUS_BSY \<noteq> 0 \<and> settles io k h1 h')"

definition offers_data :: "'h port_io \<Rightarrow> 'h \<Rightarrow> 'h \<Rightarrow> bool" where
  "offers_data io h h' \<longleftrightarrow> (\<exists>k<ATA_POLL_LIMIT. \<exists>h1 st. settles io k h h1 \<and>
     inb io (ATA_PRIMARY_IO + ATA_REG_STATUS) h1 = (st, h') \<and> status_good st \<and> st AND ATA_STATUS_DRQ \<noteq> 0)"

definition word_at :: "u8 list \<Rightarrow> nat \<Rightarrow> u16" where
  "word_at b i = ucast (b ! (2 * i)) OR push_bit 8 (ucast (b ! (2 * i + 1)))"

definition words :: "u8 list \<Rightarrow> u16 list" where
  "words b = map (word_at b) [0..<256]"

primrec gives :: "'h port_io \<Rightarrow> u16 list \<Rightarrow> 'h \<Rightarrow> 'h \<Rightarrow> bool" where
  "gives io [] h h' = (h' = h)"
| "gives io (w # ws) h h' = (\<exists>h1. inw io (ATA_PRIMARY_IO + ATA_REG_DATA) h = (w, h1) \<and> gives io ws h1 h')"

definition takes :: "'h port_io \<Rightarrow> u16 list \<Rightarrow> 'h \<Rightarrow> 'h" where
  "takes io ws h = fold (outw io (ATA_PRIMARY_IO + ATA_REG_DATA)) ws h"

definition ata_drive :: "'h port_io \<Rightarrow> ('h \<Rightarrow> bool) \<Rightarrow> ('h \<Rightarrow> u8 list) \<Rightarrow> nat \<Rightarrow> bool" where
  "ata_drive io ok disk N \<longleftrightarrow>
     (\<forall>h. ok h \<longrightarrow> length (disk h) = 512 * N) \<and>
     (\<forall>h l. ok h \<and> l < N \<longrightarrow>
        (\<exists>h1 h2. offers_data io (ata_command io (of_nat l) ATA_CMD_READ_SECTORS h) h1 \<and>
           gives io (words (take 512 (drop (512 * l) (disk h)))) h1 h2 \<and> ok h2 \<and> disk h2 = disk h)) \<and>
     (\<forall>h l b. ok h \<and> l < N \<and> length b = 512 \<longrightarrow>
        (\<exists>h1 k h2. offers_data io (ata_command io (of_nat l) ATA_CMD_WRITE_SECTORS h) h1 \<and>
           k < ATA_POLL_LIMIT \<and> settles io k (takes io (words b) h1) h2 \<and> ok h2 \<and> disk h2 = patch (512 * l) b (disk h)))"

lemma ata_drive_read:
  assumes "ata_drive io ok disk N" "ok h" "l < N"
  obtains h1 h2 where "offers_data io (ata_command io (of_nat l) ATA_CMD_READ_SECTORS h) h1"
    "gives io (words (take 512 (drop (512 * l) (disk h)))) h1 h2" "ok h2" "disk h2 = disk h"
  using assms unfolding ata_drive_def by blast

lemma ata_drive_write:
  assumes "ata_drive io ok disk N" "ok h" "l < N" "length b = 512"
  obtains h1 k h2 where "offers_data io (ata_command io (of_nat l) ATA_CMD_WRITE_SECTORS h) h1"
    "k < ATA_POLL_LIMIT" "settles io k (takes io (words b) h1) h2" "ok h2" "disk h2 = patch (512 * l) b (disk h)"
  using assms unfolding ata_drive_def by blast

section \<open>Waiting\<close>

lemma status_good_bits:
  assumes "status_good st"
  shows "st AND ATA_STATUS_BSY = 0" "st AND (ATA_STATUS_ERR OR ATA_STATUS_DF) = 0"
proof -
  let ?m = "ATA_STATUS_BSY OR ATA_STATUS_ERR OR ATA_STATUS_DF"
  have m: "?m AND ATA_STATUS_BSY = ATA_STATUS_BSY" "?m AND (ATA_STATUS_ERR OR ATA_STATUS_DF) = ATA_STATUS_ERR OR ATA_STATUS_DF"
    by (simp_all add: ATA_STATUS_BSY_def ATA_STATUS_ERR_def ATA_STATUS_DF_def)
  have "st AND x = 0" if "?m AND x = x" for x
  proof -
    have "st AND x = (st AND ?m) AND x" using that by (simp only: and.assoc)
    then show ?thesis using assms by (simp add: status_good_def)
  qed
  with m show "st AND ATA_STATUS_BSY = 0" "st AND (ATA_STATUS_ERR OR ATA_STATUS_DF) = 0" by blast+
qed

lemma not_busy_settles:
  "settles io k h h' \<Longrightarrow> k < n \<Longrightarrow> \<exists>st. not_busy_loop n s io h = (st, h') \<and> status_good st"
proof (induction k arbitrary: n s h)
  case 0
  then show ?case using status_good_bits(1) by (cases n) fastforce+
next
  case (Suc k)
  obtain m where "n = Suc m" "k < m" using Suc.prems(2) by (cases n) auto
  then show ?case using Suc.IH Suc.prems(1) by fastforce
qed

lemma wait_data_offers: "offers_data io h h' \<Longrightarrow> ata_wait_data io h = (True, h')"
proof -
  assume "offers_data io h h'"
  then obtain k h1 st where *: "k < ATA_POLL_LIMIT" "settles io k h h1"
      "inb io (ATA_PRIMARY_IO + ATA_REG_STATUS) h1 = (st, h')" "status_good st" "st AND ATA_STATUS_DRQ \<noteq> 0"
    by (auto simp: offers_data_def)
  obtain st1 where "ata_wait_not_busy io h = (st1, h1)" "status_good st1"
    using not_busy_settles [OF *(2,1), of 0] by (auto simp: ata_wait_not_busy_def)
  moreover have "ata_wait_drq io h1 = (st, h')"
  proof -
    obtain m where m: "ATA_POLL_LIMIT = Suc m" using *(1) by (cases ATA_POLL_LIMIT) auto
    show ?thesis unfolding ata_wait_drq_def m using *(3,5) status_good_bits(2) [OF *(4)] by simp
  qed
  ultimately show ?thesis
    using *(4,5) status_good_bits(2) [OF *(4)] by (simp add: ata_wait_data_def status_good_def)
qed

section \<open>Transferring sectors\<close>

lemma patch_word:
  assumes "i < 256" "length b = 512" "base + 512 \<le> length dst"
  shows "set_word16 (base + 2 * i) (word_at b i) (patch base (take (2 * i) b) dst) = Some (patch base (take (2 * Suc i) b) dst)"
proof -
  have w: "ucast (word_at b i) = b ! (2 * i)" "ucast (drop_bit 8 (word_at b i)) = b ! (2 * i + 1)"
    by (rule bit_word_eqI, auto simp: word_at_def bit_simps dest: bit_unat_lt)+
  have t: "take (2 * Suc i) b = (take (2 * i) b @ [b ! (2 * i)]) @ [b ! (2 * i + 1)]"
    using assms(1,2) by (simp add: take_Suc_conv_app_nth)
  show ?thesis unfolding t
    using patch_snoc [of base "take (2 * i) b" dst "b ! (2 * i)"] assms
      patch_snoc [of base "take (2 * i) b @ [b ! (2 * i)]" dst "b ! (2 * i + 1)"]
    by (simp add: set_word16_def w min_absorb2)
qed

lemma read_words:
  assumes "gives io (words b) h h'" "length b = 512" "base + 512 \<le> length dst"
  shows "for_each (\<lambda>i (dst, h). let (w, h) = inw io (ATA_PRIMARY_IO + ATA_REG_DATA) h in
      do { dst \<leftarrow> set_word16 (base + 2 * i) w dst; Some (dst, h) }) [0..<256] (dst, h) = Some (patch base b dst, h')"
proof -
  let ?f = "\<lambda>i (dst, h). let (w, h) = inw io (ATA_PRIMARY_IO + ATA_REG_DATA) h in
      do { dst \<leftarrow> set_word16 (base + 2 * i) w dst; Some (dst, h) }"
  let ?P = "\<lambda>i (d, k). d = patch base (take (2 * i) b) dst \<and> gives io (drop i (words b)) k h'"
  have "\<exists>s'. for_each ?f [0..<256] (dst, h) = Some s' \<and> ?P 256 s'"
  proof (rule for_each_upt)
    fix i s assume i: "i < 256" and P: "?P i s"
    obtain d k where s: "s = (d, k)" by (cases s)
    have "drop i (words b) = word_at b i # drop (Suc i) (words b)"
      using i by (simp add: words_def Cons_nth_drop_Suc [symmetric])
    then obtain k' where "inw io (ATA_PRIMARY_IO + ATA_REG_DATA) k = (word_at b i, k')" "gives io (drop (Suc i) (words b)) k' h'"
      using P s by auto
    then show "\<exists>s'. ?f i s = Some s' \<and> ?P (Suc i) s'"
      using patch_word [OF i assms(2,3)] P s by simp
  qed (use assms in simp)
  then show ?thesis using assms(2) by (auto simp: words_def)
qed

lemma get_word:
  assumes "i < 256" "base + 512 \<le> length src"
  shows "get_word16 src (base + 2 * i) = Some (word_at (take 512 (drop base src)) i)"
  using assms by (simp add: get_word16_def word_at_def add.assoc)

lemma write_words:
  assumes "base + 512 \<le> length src"
  shows "for_each (\<lambda>i h. do { w \<leftarrow> get_word16 src (base + 2 * i);
      Some (outw io (ATA_PRIMARY_IO + ATA_REG_DATA) w h) }) [0..<256] h =
    Some (takes io (words (take 512 (drop base src))) h)"
proof -
  let ?b = "take 512 (drop base src)" and ?f = "\<lambda>i h. do { w \<leftarrow> get_word16 src (base + 2 * i);
      Some (outw io (ATA_PRIMARY_IO + ATA_REG_DATA) w h) }"
  have "\<exists>s'. for_each ?f [0..<256] h = Some s' \<and> s' = takes io (take 256 (words ?b)) h"
  proof (rule for_each_upt)
    fix i s assume "i < 256" "s = takes io (take i (words ?b)) h"
    then show "\<exists>s'. ?f i s = Some s' \<and> s' = takes io (take (Suc i) (words ?b)) h"
      using get_word [OF _ assms] by (simp add: takes_def take_Suc_conv_app_nth words_def)
  qed (simp add: takes_def)
  then show ?thesis by (simp add: words_def)
qed

text \<open>The sector number that the driver computes, and the place of its bytes in the buffer.\<close>

lemma sector_number:
  assumes "unat (lba :: u64) + k < 2 ^ 28"
  shows "(ucast (lba + of_nat k) :: u32) = of_nat (unat lba + k)"
proof -
  have "unat (of_nat k :: u64) = k" using assms by (intro unat_of_nat_small) simp
  then have "unat (lba + of_nat k) = unat lba + k" using assms by (simp add: unat_add_small)
  then have "unat (ucast (lba + of_nat k) :: u32) = unat (of_nat (unat lba + k) :: u32)"
    using assms unat_ucast_small [of "lba + of_nat k", where 'b = 32] unat_of_nat_small [of "unat lba + k", where 'a = 32] by simp
  then show ?thesis by (simp only: word_unat_eq_iff)
qed

lemma sector_base: "k < 256 \<Longrightarrow> unat (of_nat k * 512 :: u32) = 512 * k"
  using unat_mult_small [of "of_nat k :: u32" 512] unat_of_nat_small [of k, where 'a = 32] by simp

lemma read_sectors:
  assumes "ata_drive io ok disk N" "sector_size d = 512" "N \<le> 2 ^ 28"
    and "ok h" "unat lba + k + m \<le> N" "k + m < 256" "512 * (k + m) \<le> length dst"
  shows "\<exists>h'. ata_read_loop io d lba [k..<k + m] dst h =
      Some (SB_BLOCK_OK, patch (512 * k) (take (512 * m) (drop (512 * (unat lba + k)) (disk h))) dst, h') \<and>
    ok h' \<and> disk h' = disk h"
  using assms(4-7)
proof (induction m arbitrary: k dst h)
  case (Suc m)
  let ?l = "unat lba + k" and ?s = "\<lambda>i n. take (512 * n) (drop (512 * (unat lba + i)) (disk h))"
  have up: "[k..<k + Suc m] = k # [Suc k..<Suc k + m]" by (simp add: upt_conv_Cons)
  have len: "length (disk h) = 512 * N" using assms(1) Suc.prems(1) by (simp add: ata_drive_def)
  obtain h1 h2 where d: "offers_data io (ata_command io (of_nat ?l) ATA_CMD_READ_SECTORS h) h1"
      "gives io (words (?s k 1)) h1 h2" "ok h2" "disk h2 = disk h"
    by (rule ata_drive_read [OF assms(1) Suc.prems(1), of ?l]) (use Suc.prems(2) in simp_all)
  have b: "length (?s k 1) = 512" "length (?s (Suc k) m) = 512 * m" using len Suc.prems(2) by simp_all
  let ?d = "patch (512 * k) (?s k 1) dst"
  have dl: "length ?d = length dst" using b Suc.prems(4) by simp
  obtain h3 where IH: "ata_read_loop io d lba [Suc k..<Suc k + m] ?d h2 =
      Some (SB_BLOCK_OK, patch (512 * Suc k) (?s (Suc k) m) ?d, h3)" "ok h3" "disk h3 = disk h"
    using Suc.IH [of h2 "Suc k" ?d] d(3,4) Suc.prems(2-4) dl by auto
  have "patch (512 * Suc k) (?s (Suc k) m) ?d = patch (512 * k) (?s k 1 @ ?s (Suc k) m) dst"
    using patch_patch_append [of "512 * k" "?s k 1" "?s (Suc k) m" dst] b Suc.prems(4) by (simp add: add.commute)
  moreover have "?s k 1 @ ?s (Suc k) m = ?s k (Suc m)"
    using take_add [of 512 "512 * m" "drop (512 * ?l) (disk h)"] by (simp add: add.commute)
  moreover have "ata_read_loop io d lba [k..<k + Suc m] dst h = ata_read_loop io d lba [Suc k..<Suc k + m] ?d h2"
    using read_words [OF d(2) b(1), of "512 * k" dst] wait_data_offers [OF d(1)] sector_number [of lba k]
      sector_base [of k] Suc.prems assms(2,3) unfolding up by (simp add: Let_def)
  ultimately show ?case using IH by simp
qed simp

lemma write_sectors:
  assumes "ata_drive io ok disk N" "sector_size d = 512" "N \<le> 2 ^ 28"
    and "ok h" "unat lba + k + m \<le> N" "k + m < 256" "512 * (k + m) \<le> length src"
  shows "\<exists>h'. ata_write_loop io d lba [k..<k + m] src h = Some (SB_BLOCK_OK, h') \<and> ok h' \<and>
    disk h' = patch (512 * (unat lba + k)) (take (512 * m) (drop (512 * k) src)) (disk h)"
  using assms(4-7)
proof (induction m arbitrary: k h)
  case (Suc m)
  let ?l = "unat lba + k" and ?b = "take 512 (drop (512 * k) src)"
  have up: "[k..<k + Suc m] = k # [Suc k..<Suc k + m]" by (simp add: upt_conv_Cons)
  have len: "length (disk h) = 512 * N" using assms(1) Suc.prems(1) by (simp add: ata_drive_def)
  have b: "length ?b = 512" using Suc.prems(4) by simp
  obtain h1 n h2 where d: "offers_data io (ata_command io (of_nat ?l) ATA_CMD_WRITE_SECTORS h) h1"
      "n < ATA_POLL_LIMIT" "settles io n (takes io (words ?b) h1) h2" "ok h2" "disk h2 = patch (512 * ?l) ?b (disk h)"
    by (rule ata_drive_write [OF assms(1) Suc.prems(1) _ b, of ?l]) (use Suc.prems(2) in simp_all)
  obtain st where st: "ata_wait_not_busy io (takes io (words ?b) h1) = (st, h2)" "status_good st"
    using not_busy_settles [OF d(3,2), of 0] by (auto simp: ata_wait_not_busy_def)
  obtain h3 where IH: "ata_write_loop io d lba [Suc k..<Suc k + m] src h2 = Some (SB_BLOCK_OK, h3)" "ok h3"
      "disk h3 = patch (512 * (unat lba + Suc k)) (take (512 * m) (drop (512 * Suc k) src)) (disk h2)"
    using Suc.IH [of h2 "Suc k"] d(4) Suc.prems(2-4) by auto
  have "disk h3 = patch (512 * ?l) (?b @ take (512 * m) (drop (512 * Suc k) src)) (disk h)"
    using patch_patch_append [of "512 * ?l" ?b "take (512 * m) (drop (512 * Suc k) src)" "disk h"] b IH(3) d(5)
      len Suc.prems(2,4) by (simp add: add.commute)
  moreover have "?b @ take (512 * m) (drop (512 * Suc k) src) = take (512 * Suc m) (drop (512 * k) src)"
    using take_add [of 512 "512 * m" "drop (512 * k) src"] by (simp add: add.commute)
  moreover have "ata_write_loop io d lba [k..<k + Suc m] src h = ata_write_loop io d lba [Suc k..<Suc k + m] src h2"
    using write_words [of "512 * k" src io h1] wait_data_offers [OF d(1)] sector_number [of lba k] st
      sector_base [of k] Suc.prems assms(2,3) unfolding up by (simp add: Let_def status_good_def)
  ultimately show ?case using IH by simp
qed simp

lemma ata_range:
  assumes "in_range g lba count" "unat count \<le> 255"
  shows "\<not> (count = 0 \<or> count > 255 \<or> lba \<ge> sector_count g \<or> ucast count > sector_count g - lba)"
  using assms out_of_range [of g lba count] by (auto simp: word_less_nat_alt)

lemma ata_contract:
  assumes "ata_drive io ok disk (unat (sector_count g))" "sector_size g = 512" "unat (sector_count g) \<le> 2 ^ 28"
  shows "block_driver g (ata_read io) (ata_write io) 255 ok disk"
proof
  fix h assume "ok h"
  then show "length (disk h) = unat (sector_count g) * unat (sector_size g)"
    using assms(1,2) by (simp add: ata_drive_def)
next
  fix h lba count and buf :: "u8 list"
  assume h: "ok h" and r: "in_range g lba count" and c: "unat count \<le> 255" and b: "span g count \<le> length buf"
  have le: "unat lba + 0 + unat count \<le> unat (sector_count g)" using r by (simp add: in_range_def)
  have bl: "512 * (0 + unat count) \<le> length buf" using b assms(2) by (simp add: span_def mult.commute)
  note rs = read_sectors [OF assms h le _ bl] and ws = write_sectors [OF assms h le _ bl]
  show "\<exists>s'. ata_read io (Some g) lba count (Some buf) h =
      Some (SB_BLOCK_OK, Some (patch 0 (sectors g lba (unat count) (disk h)) buf), s') \<and> ok s' \<and> disk s' = disk h"
    using rs c ata_range [OF r c] by (auto simp: ata_read_def sectors_def assms(2) mult.commute)
  show "\<exists>s'. ata_write io (Some g) lba count (Some buf) h = Some (SB_BLOCK_OK, s') \<and> ok s' \<and>
      disk s' = put_sectors g lba (take (span g count) buf) (disk h)"
    using ws c ata_range [OF r c] by (auto simp: ata_write_def put_sectors_def span_def assms(2) mult.commute)
qed

section \<open>A drive with eight sectors\<close>

record drive =
  regs :: "u16 \<Rightarrow> u8"
  to_host :: "u16 list"
  from_host :: "u16 list"
  medium :: "u8 list"

definition drive_lba :: "drive \<Rightarrow> nat" where
  "drive_lba h = unat (regs h 0x1F3) + 256 * unat (regs h 0x1F4) + 65536 * unat (regs h 0x1F5)"

definition word_bytes :: "u16 list \<Rightarrow> u8 list" where
  "word_bytes ws = concat (map (\<lambda>w. [ucast w, ucast (drop_bit 8 w)]) ws)"

definition sample_drive :: "drive port_io" where
  "sample_drive =
     \<lparr>inb = (\<lambda>p h. (0x48, h)),
      outb = (\<lambda>p v h. let h = h\<lparr>regs := (regs h)(p := v)\<rparr> in
        if p = 0x1F7 then h\<lparr>to_host := words (take 512 (drop (512 * drive_lba h) (medium h))), from_host := []\<rparr> else h),
      inw = (\<lambda>p h. (hd (to_host h), h\<lparr>to_host := tl (to_host h)\<rparr>)),
      outw = (\<lambda>p w h. let ws = from_host h @ [w] in
        if length ws = 256 then h\<lparr>medium := patch (512 * drive_lba h) (word_bytes ws) (medium h), from_host := []\<rparr>
        else h\<lparr>from_host := ws\<rparr>),
      inl = (\<lambda>p h. (0, h)), outl = (\<lambda>p v h. h)\<rparr>"

definition drive_on :: "u8 list \<Rightarrow> drive" where
  "drive_on d = \<lparr>regs = (\<lambda>p. 0), to_host = [], from_host = [], medium = d\<rparr>"

lemma sample_drive_simps:
  "inb sample_drive p h = (0x48, h)"
  "inw sample_drive p h = (hd (to_host h), h\<lparr>to_host := tl (to_host h)\<rparr>)"
  by (simp_all add: sample_drive_def)

lemma sample_takes:
  assumes "length (from_host h) + length ws = 256" "ws \<noteq> []"
  shows "takes sample_drive ws h = h\<lparr>medium := patch (512 * drive_lba h) (word_bytes (from_host h @ ws)) (medium h), from_host := []\<rparr>"
  using assms
proof (induction ws arbitrary: h)
  case (Cons w ws)
  show ?case
  proof (cases "ws = []")
    case True
    then show ?thesis using Cons.prems by (simp add: takes_def sample_drive_def)
  next
    case False
    then have ne: "Suc (length (from_host h)) \<noteq> 256" using Cons.prems by auto
    show ?thesis using Cons.IH [of "h\<lparr>from_host := from_host h @ [w]\<rparr>"] Cons.prems False ne
      by (simp add: takes_def sample_drive_def drive_lba_def)
  qed
qed simp

lemma sample_gives: "to_host h = ws \<Longrightarrow> gives sample_drive ws h (h\<lparr>to_host := []\<rparr>)"
proof (induction ws arbitrary: h)
  case (Cons w ws)
  then show ?case using Cons.IH [of "h\<lparr>to_host := ws\<rparr>"] by (simp add: sample_drive_simps)
qed simp

lemma word_bytes_words:
  assumes "length b = 512"
  shows "word_bytes (words b) = b"
proof -
  have w: "ucast (word_at b i) = b ! (2 * i)" "ucast (drop_bit 8 (word_at b i)) = b ! (2 * i + 1)" for i
    by (rule bit_word_eqI, auto simp: word_at_def bit_simps dest: bit_unat_lt)+
  have "word_bytes (map (word_at b) [0..<n]) = take (2 * n) b" if "n \<le> 256" for n
    using that assms by (induction n) (simp_all add: word_bytes_def w take_Suc_conv_app_nth)
  from this [of 256] show ?thesis using assms by (simp add: words_def)
qed

lemma io_wait_unfold:
  "ata_io_wait io h = outb io 0x80 0 (outb io 0x80 0 (outb io 0x80 0 (outb io 0x80 0 h)))"
  by (simp add: ata_io_wait_def numeral_eq_Suc)

lemma sample_command:
  assumes "l < 8"
  shows "\<exists>r. ata_command sample_drive (of_nat l) c h =
    h\<lparr>regs := r, to_host := words (take 512 (drop (512 * l) (medium h))), from_host := []\<rparr> \<and>
    drive_lba (ata_command sample_drive (of_nat l) c h) = l"
proof -
  have l: "unat (of_nat l :: u32) = l" using assms by (intro unat_of_nat_small) simp
  have z: "drop_bit 8 (of_nat l :: u32) = 0" "drop_bit 16 (of_nat l :: u32) = 0"
    using assms l by (simp_all add: word_unat_eq_iff drop_bit_eq_div unat_div)
  have "of_nat l AND (0xFF :: u32) = of_nat l"
    using assms l unat_and_mask [of "of_nat l :: u32" 8] by (simp add: word_unat_eq_iff mask_eq_exp_minus_1)
  moreover have "unat (ucast (of_nat l :: u32) :: u8) = l" using assms l by (subst unat_ucast_small) simp_all
  ultimately show ?thesis using z
    by (simp add: ata_command_def ata_select_def io_wait_unfold sample_drive_def ATA_PRIMARY_IO_def ATA_REG_DRIVE_def
        ATA_REG_SECCOUNT0_def ATA_REG_LBA0_def ATA_REG_LBA1_def ATA_REG_LBA2_def ATA_REG_COMMAND_def Let_def
        drive_lba_def) (rule exI, rule refl)
qed

lemma sample_offers: "offers_data sample_drive h h"
  by (auto simp: offers_data_def sample_drive_simps status_good_def ATA_POLL_LIMIT_def ATA_STATUS_BSY_def
      ATA_STATUS_ERR_def ATA_STATUS_DF_def ATA_STATUS_DRQ_def intro!: exI [of _ 0])

lemma sample_settles: "settles sample_drive 0 h h"
  by (simp add: sample_drive_simps status_good_def ATA_STATUS_BSY_def ATA_STATUS_ERR_def ATA_STATUS_DF_def)

lemma sample_drive_ok: "ata_drive sample_drive (\<lambda>h. length (medium h) = 4096) medium 8"
  unfolding ata_drive_def
proof (intro conjI allI impI; (elim conjE)?)
  fix h :: drive and l assume h: "length (medium h) = 4096" and l: "l < (8 :: nat)"
  let ?c = "ata_command sample_drive (of_nat l) ATA_CMD_READ_SECTORS h"
  have "to_host ?c = words (take 512 (drop (512 * l) (medium h)))" "medium ?c = medium h"
    using sample_command [OF l, of ATA_CMD_READ_SECTORS h] by auto
  then show "\<exists>h1 h2. offers_data sample_drive ?c h1 \<and>
      gives sample_drive (words (take 512 (drop (512 * l) (medium h)))) h1 h2 \<and>
      length (medium h2) = 4096 \<and> medium h2 = medium h"
    using sample_offers [of ?c] sample_gives [of ?c] h
    by (intro exI [of _ ?c] exI [of _ "?c\<lparr>to_host := []\<rparr>"]) simp
next
  fix h :: drive and l and b :: "u8 list" assume h: "length (medium h) = 4096" and l: "l < (8 :: nat)" and b: "length b = 512"
  let ?c = "ata_command sample_drive (of_nat l) ATA_CMD_WRITE_SECTORS h" and ?t = "takes sample_drive (words b)"
  have "drive_lba ?c = l" "medium ?c = medium h" "from_host ?c = []"
    using sample_command [OF l, of ATA_CMD_WRITE_SECTORS h] by auto
  moreover have "length (words b) = 256" by (simp add: words_def)
  moreover from this have "words b \<noteq> []" by auto
  ultimately have "medium (?t ?c) = patch (512 * l) b (medium h)"
    using sample_takes [of ?c "words b"] word_bytes_words [OF b] by simp
  then show "\<exists>h1 k h2. offers_data sample_drive ?c h1 \<and> k < ATA_POLL_LIMIT \<and> settles sample_drive k (?t h1) h2 \<and>
      length (medium h2) = 4096 \<and> medium h2 = patch (512 * l) b (medium h)"
    using sample_offers [of ?c] sample_settles [of "?t ?c"] h l b
    by (intro exI [of _ ?c] exI [of _ 0] exI [of _ "?t ?c"]) (simp add: ATA_POLL_LIMIT_def)
qed simp



section \<open>Finding the drive\<close>


text \<open>Ports with nothing behind them.\<close>

definition no_drive :: "unit port_io" where
  "no_drive = \<lparr>inb = (\<lambda>p h. (0, h)), outb = (\<lambda>p v h. h), inw = (\<lambda>p h. (0, h)), outw = (\<lambda>p v h. h),
     inl = (\<lambda>p h. (0, h)), outl = (\<lambda>p v h. h)\<rparr>"

definition ata_static :: "unit ata" where
  "ata_static = \<lparr>g_ata_device = \<lparr>dev_geometry = \<lparr>dev_name = [], sector_count = 0, sector_size = 0, driver_data = 0\<rparr>,
     dev_read = None, dev_write = None\<rparr>, g_ata_ready = False, g_ata_sectors = 0\<rparr>"


end
