(* ===== verification/User_Space.thy ===== *)
theory User_Space
  imports Address_Space
begin

text \<open>
  What a user program sees of an address space, and how the kernel extends it. The view is a
  partial function from addresses to bytes (\<open>user_byte\<close>) with the leaf entries as permissions
  (\<open>user_map\<close>); the footprint of a space is the set of physical pages it uses, as tables or as
  frames. \<open>fresh_page\<close> is the step that the ELF loader and the stack set-up share: take a page,
  fill it, map it, and give it back if the mapping fails.
\<close>

section \<open>The user view\<close>

definition user_byte :: "address_space \<Rightarrow> machine \<Rightarrow> u64 \<Rightarrow> u8 option" where
  "user_byte sp M a =
     (case address_space_translate_user (Some sp) a (Some 0) M of
        (r, Some p) \<Rightarrow> if r = 0 then Some (mem M p) else None
      | _ \<Rightarrow> None)"

definition frame_of :: "u64 \<Rightarrow> u64" where
  "frame_of e = e AND ENTRY_ADDR_MASK"

definition user_frames :: "address_space \<Rightarrow> machine \<Rightarrow> u64 set" where
  "user_frames sp M = frame_of ` ran (user_map sp M)"

definition footprint :: "address_space \<Rightarrow> machine \<Rightarrow> u64 set" where
  "footprint sp M = space_tables sp M \<union> user_frames sp M"

text \<open>No frame is a table, no frame is mapped twice, and every page in use is owned.\<close>

definition space_ok :: "address_space \<Rightarrow> machine \<Rightarrow> bool" where
  "space_ok sp M \<longleftrightarrow>
     space_wf sp M \<and> user_frames sp M \<subseteq> kpmm_owned (kpmm M) \<and> user_frames sp M \<inter> space_tables sp M = {} \<and>
     (\<forall>a b. a \<in> dom (user_map sp M) \<longrightarrow> b \<in> dom (user_map sp M) \<longrightarrow>
        frame_of (the (user_map sp M a)) = frame_of (the (user_map sp M b)) \<longrightarrow> a = b)"

lemma frame_byte_page: "page_of (frame_of e OR (a AND PAGE_OFFSET_MASK)) = frame_of e"
proof (rule bit_word_eqI)
  have m: "PAGE_OFFSET_MASK = mask 12" by (simp add: PAGE_OFFSET_MASK_def mask_eq_exp_minus_1)
  fix n assume "n < LENGTH(64)"
  then show "bit (page_of (frame_of e OR (a AND PAGE_OFFSET_MASK))) n \<longleftrightarrow> bit (frame_of e) n"
    by (auto simp: bit_page_of bit_or_iff bit_and_iff frame_of_def addr_mask_eq m bit_push_bit_iff bit_mask_iff)
qed

lemma page_plus_offset: "page_of a + (a AND PAGE_OFFSET_MASK) = a"
  using and_not_mask_plus [of a 12] by (simp add: page_of_def page_mask_eq PAGE_OFFSET_MASK_def mask_eq_exp_minus_1)

lemma aligned_or_offset:
  assumes "page_aligned c"
  shows "c OR (a AND PAGE_OFFSET_MASK) = c + (a AND PAGE_OFFSET_MASK)"
proof (rule disjunctive_add_eq_or [symmetric])
  have m: "PAGE_OFFSET_MASK = mask 12" by (simp add: PAGE_OFFSET_MASK_def mask_eq_exp_minus_1)
  show "c AND (a AND PAGE_OFFSET_MASK) = 0"
    using aligned_low_bits [OF assms] by (intro bit_word_eqI) (auto simp: bit_and_iff m bit_mask_iff)
qed

lemma user_byte_eq:
  assumes "space_wf sp M"
  shows "user_byte sp M a =
    map_option (\<lambda>e. mem M (frame_of e OR (a AND PAGE_OFFSET_MASK))) (user_map sp M (page_of a))"
  unfolding user_byte_def translate_user_eq [OF assms] by (simp add: user_map_def frame_of_def)

lemma user_frame: "user_map sp M a = Some e \<Longrightarrow> frame_of e \<in> user_frames sp M"
  by (auto simp: user_frames_def ran_def)

lemma footprint_owned: "space_ok sp M \<Longrightarrow> footprint sp M \<subseteq> kpmm_owned (kpmm M)"
  using space_tables_owned [of sp M] by (auto simp: space_ok_def footprint_def)

lemma space_ok_pmm: "space_ok sp M \<Longrightarrow> kpmm_ok (kpmm M)"
  by (simp add: space_ok_def space_wf_def tree_wf_def)

lemma footprint_avail: "space_ok sp M \<Longrightarrow> footprint sp M \<inter> kpmm_avail (kpmm M) = {}"
  using footprint_owned [of sp M] kp.avail_owned [OF space_ok_pmm [of sp M]] by blast

section \<open>Extending a space\<close>

text \<open>
  One space grows: it keeps its mappings, takes pages only from the available ones, and no byte
  outside the available pages and its own tables changes.
\<close>

definition space_grow :: "address_space \<Rightarrow> machine \<Rightarrow> machine \<Rightarrow> bool" where
  "space_grow sp M M' \<longleftrightarrow>
     space_ok sp M' \<and> cr3 M' = cr3 M \<and>
     kpmm_owned (kpmm M) \<subseteq> kpmm_owned (kpmm M') \<and> kpmm_avail (kpmm M') \<subseteq> kpmm_avail (kpmm M) \<and>
     space_tables sp M' \<subseteq> space_tables sp M \<union> kpmm_avail (kpmm M) \<and>
     footprint sp M' \<subseteq> footprint sp M \<union> kpmm_avail (kpmm M) \<and>
     user_map sp M \<subseteq>\<^sub>m user_map sp M' \<and>
     (\<forall>b. page_of b \<notin> kpmm_avail (kpmm M) \<union> space_tables sp M \<longrightarrow> mem M' b = mem M b)"

lemma space_growD:
  assumes "space_grow sp M M'"
  shows "space_ok sp M'" "cr3 M' = cr3 M" "kpmm_owned (kpmm M) \<subseteq> kpmm_owned (kpmm M')"
    "kpmm_avail (kpmm M') \<subseteq> kpmm_avail (kpmm M)" "space_tables sp M' \<subseteq> space_tables sp M \<union> kpmm_avail (kpmm M)"
    "footprint sp M' \<subseteq> footprint sp M \<union> kpmm_avail (kpmm M)" "user_map sp M \<subseteq>\<^sub>m user_map sp M'"
    "page_of b \<notin> kpmm_avail (kpmm M) \<union> space_tables sp M \<Longrightarrow> mem M' b = mem M b"
  using assms by (simp_all add: space_grow_def)

lemma space_grow_refl: "space_ok sp M \<Longrightarrow> space_grow sp M M"
  by (auto simp: space_grow_def)

lemma space_grow_trans:
  assumes "space_grow sp M M1" "space_grow sp M1 M2"
  shows "space_grow sp M M2"
proof -
  note f = space_growD [OF assms(1)] and g = space_growD [OF assms(2)]
  have "mem M2 b = mem M b" if "page_of b \<notin> kpmm_avail (kpmm M) \<union> space_tables sp M" for b
  proof -
    have "page_of b \<notin> kpmm_avail (kpmm M1) \<union> space_tables sp M1" using that f(4,5) by blast
    then show ?thesis using that f(8) g(8) by metis
  qed
  moreover have "user_map sp M \<subseteq>\<^sub>m user_map sp M2" using f(7) g(7) by (rule map_le_trans)
  moreover have "space_tables sp M2 \<subseteq> space_tables sp M \<union> kpmm_avail (kpmm M)" using f(4,5) g(5) by blast
  moreover have "footprint sp M2 \<subseteq> footprint sp M \<union> kpmm_avail (kpmm M)" using f(4,6) g(6) by blast
  moreover have "kpmm_owned (kpmm M) \<subseteq> kpmm_owned (kpmm M2)" "kpmm_avail (kpmm M2) \<subseteq> kpmm_avail (kpmm M)"
    using f(3,4) g(3,4) by blast+
  ultimately show ?thesis using f(2) g(1,2) unfolding space_grow_def by simp
qed

lemma frame_byte_kept:
  assumes "space_ok sp M" "user_map sp M (page_of a) = Some e"
    and "\<And>b. page_of b \<notin> kpmm_avail (kpmm M) \<union> space_tables sp M \<Longrightarrow> mem M' b = mem M b"
  shows "mem M' (frame_of e OR (a AND PAGE_OFFSET_MASK)) = mem M (frame_of e OR (a AND PAGE_OFFSET_MASK))"
proof (rule assms(3))
  have "frame_of e \<in> user_frames sp M" by (rule user_frame [OF assms(2)])
  then show "page_of (frame_of e OR (a AND PAGE_OFFSET_MASK)) \<notin> kpmm_avail (kpmm M) \<union> space_tables sp M"
    using footprint_avail [OF assms(1)] assms(1) by (auto simp: frame_byte_page space_ok_def footprint_def)
qed

text \<open>Bytes that were visible stay visible and keep their values.\<close>

lemma grow_byte:
  assumes "space_ok sp M" "space_grow sp M M'" "user_map sp M' (page_of a) = user_map sp M (page_of a)"
  shows "user_byte sp M' a = user_byte sp M a"
proof -
  have wf: "space_wf sp M" "space_wf sp M'"
    using assms(1) space_growD(1) [OF assms(2)] by (simp_all add: space_ok_def)
  show ?thesis
    unfolding user_byte_eq [OF wf(1)] user_byte_eq [OF wf(2)] assms(3)
    using frame_byte_kept [OF assms(1) _ space_growD(8) [OF assms(2)]]
    by (cases "user_map sp M (page_of a)") auto
qed

lemma grow_byte_kept:
  assumes "space_ok sp M" "space_grow sp M M'" "page_of a \<in> dom (user_map sp M)"
  shows "user_byte sp M' a = user_byte sp M a"
  using assms space_growD(7) [OF assms(2)] by (intro grow_byte) (auto simp: map_le_def)

section \<open>Spaces that share no page\<close>

lemma other_space_map:
  assumes "space_wf sp2 M" "\<forall>a. page_of a \<in> space_tables sp2 M \<longrightarrow> mem M' a = mem M a"
  shows "user_map sp2 M' = user_map sp2 M"
proof -
  have fr: "\<forall>a. page_of a \<in> tree_pages (pml4_physical sp2) (mem M) \<longrightarrow> mem M' a = mem M a"
    using assms(2) by (simp add: space_tables_def)
  have "user_pte sp2 M' a = user_pte sp2 M a" for a
    using tab_frame [OF assms(1) [unfolded space_wf_def] fr slot_paths(3) [of a]] index_less(4) [of a]
    by (auto simp: user_pte_def slot_pte_def leaf_def split: option.split)
  then show ?thesis by (auto simp: user_map_def)
qed

lemma other_space_kept:
  assumes "space_ok sp2 M" "kpmm_ok (kpmm M')" "kpmm_owned (kpmm M) \<subseteq> kpmm_owned (kpmm M')"
    and "\<forall>b. page_of b \<in> footprint sp2 M \<longrightarrow> mem M' b = mem M b"
  shows "space_ok sp2 M' \<and> footprint sp2 M' = footprint sp2 M \<and> user_map sp2 M' = user_map sp2 M \<and>
    user_byte sp2 M' a = user_byte sp2 M a"
proof -
  have wf: "space_wf sp2 M" using assms(1) by (simp add: space_ok_def)
  have fr: "\<forall>a. page_of a \<in> space_tables sp2 M \<longrightarrow> mem M' a = mem M a" using assms(4) by (simp add: footprint_def)
  note osf = other_space_frame [OF wf assms(2,3) fr]
  have wf': "space_wf sp2 M'" and t: "space_tables sp2 M' = space_tables sp2 M" using osf by blast+
  note um = other_space_map [OF wf fr]
  have "frame_of e \<in> footprint sp2 M" if "user_map sp2 M (page_of a) = Some e" for e
    using user_frame [OF that] by (simp add: footprint_def)
  then have "mem M' (frame_of e OR (a AND PAGE_OFFSET_MASK)) = mem M (frame_of e OR (a AND PAGE_OFFSET_MASK))"
    if "user_map sp2 M (page_of a) = Some e" for e
    using that assms(4) frame_byte_page by simp
  then have "user_byte sp2 M' a = user_byte sp2 M a"
    unfolding user_byte_eq [OF wf] user_byte_eq [OF wf'] um by (cases "user_map sp2 M (page_of a)") auto
  with wf' t um assms(1,3) show ?thesis by (auto simp: space_ok_def footprint_def user_frames_def)
qed

lemma grow_other:
  assumes "space_ok sp M" "space_ok sp2 M" "footprint sp M \<inter> footprint sp2 M = {}" "space_grow sp M M'"
  shows "space_ok sp2 M' \<and> footprint sp2 M' = footprint sp2 M \<and> user_map sp2 M' = user_map sp2 M \<and>
    user_byte sp2 M' a = user_byte sp2 M a \<and> footprint sp M' \<inter> footprint sp2 M' = {}"
proof -
  note g = space_growD [OF assms(4)]
  have "page_of b \<notin> kpmm_avail (kpmm M) \<union> space_tables sp M" if "page_of b \<in> footprint sp2 M" for b
    using that footprint_avail [OF assms(2)] assms(3) by (auto simp: footprint_def)
  with g(8) other_space_kept [OF assms(2) space_ok_pmm [OF g(1)] g(3), of a] have
    *: "space_ok sp2 M' \<and> footprint sp2 M' = footprint sp2 M \<and> user_map sp2 M' = user_map sp2 M \<and>
      user_byte sp2 M' a = user_byte sp2 M a" by blast
  moreover have "footprint sp M' \<inter> footprint sp2 M = {}" using g(6) footprint_avail [OF assms(2)] assms(3) by blast
  ultimately show ?thesis by simp
qed

section \<open>Adding one page\<close>

definition fresh_page ::
    "address_space \<Rightarrow> u64 \<Rightarrow> u64 \<Rightarrow> (u64 \<Rightarrow> memory \<Rightarrow> memory) \<Rightarrow> machine \<Rightarrow> int \<times> machine" where
  "fresh_page sp va flags fill M =
     (let (page, p) = kpmm_alloc_page (kpmm M); M = M\<lparr>kpmm := p\<rparr> in
      if page = 0 then (-1, M)
      else
        let (r, M) = address_space_map_user (Some sp) va page flags (M\<lparr>mem := fill page (mem M)\<rparr>) in
        if r \<noteq> 0 then (-1, M\<lparr>kpmm := kpmm_free_page page (kpmm M)\<rparr>) else (0, M))"

definition fills_page :: "(u64 \<Rightarrow> memory \<Rightarrow> memory) \<Rightarrow> bool" where
  "fills_page fill \<longleftrightarrow> (\<forall>c m b. page_aligned c \<longrightarrow> page_of b \<noteq> c \<longrightarrow> fill c m b = m b)"

lemma filled_space:
  assumes "space_ok sp M" "kpmm_alloc_page (kpmm M) = (c, p)" "c \<noteq> 0"
    and "\<forall>b. page_of b \<noteq> c \<longrightarrow> m2 b = mem M b"
  defines "M1 \<equiv> M\<lparr>kpmm := p, mem := m2\<rparr>"
  shows "space_wf sp M1" "space_tables sp M1 = space_tables sp M" "user_map sp M1 = user_map sp M"
    "c \<in> kpmm_avail (kpmm M)" "kpmm_owned p = insert c (kpmm_owned (kpmm M))" "kpmm_avail p = kpmm_avail (kpmm M) - {c}"
    "c \<notin> footprint sp M" "kpmm_ok p" "page_aligned c" "frame_of c = c"
proof -
  note al = kp.alloc_nonnull [OF space_ok_pmm [OF assms(1)] assms(2,3)]
  show "c \<in> kpmm_avail (kpmm M)" "kpmm_owned p = insert c (kpmm_owned (kpmm M))"
    "kpmm_avail p = kpmm_avail (kpmm M) - {c}" "kpmm_ok p" "page_aligned c" using al by simp_all
  show nf: "c \<notin> footprint sp M" using al(1) footprint_avail [OF assms(1)] by blast
  show "frame_of c = c" unfolding frame_of_def using al(3,4) by (intro mask_table_page) simp_all
  have wf: "space_wf sp M" using assms(1) by (simp add: space_ok_def)
  have fr: "\<forall>a. page_of a \<in> space_tables sp M \<longrightarrow> mem M1 a = mem M a"
    using nf assms(4) by (auto simp: M1_def footprint_def)
  have "kpmm_ok (kpmm M1)" "kpmm_owned (kpmm M) \<subseteq> kpmm_owned (kpmm M1)" using al by (auto simp: M1_def)
  from other_space_frame [OF wf this fr] show "space_wf sp M1" "space_tables sp M1 = space_tables sp M" by blast+
  show "user_map sp M1 = user_map sp M" by (rule other_space_map [OF wf fr])
qed

lemma space_wf_free:
  assumes "space_wf sp M" "c \<in> kpmm_owned (kpmm M)" "c \<notin> space_tables sp M"
  shows "space_wf sp (M\<lparr>kpmm := kpmm_free_page c (kpmm M)\<rparr>)"
proof -
  have ok: "kpmm_ok (kpmm M)" using assms(1) by (simp add: space_wf_def tree_wf_def)
  show ?thesis
    using assms kp.release_owned [OF ok assms(2)] kp.release_ok [OF ok]
    by (auto simp: space_wf_def tree_wf_def space_tables_def fixed_ok_def)
qed

lemma user_map_mem: "mem M' = mem M \<Longrightarrow> user_map sp M' = user_map sp M"
  "mem M' = mem M \<Longrightarrow> space_tables sp M' = space_tables sp M"
  by (auto simp: user_map_def user_pte_def slot_pte_def space_tables_def)

lemma fresh_page_fail:
  assumes "space_ok sp M" "kpmm_alloc_page (kpmm M) = (c, p)" "c \<noteq> 0"
    and "\<forall>b. page_of b \<noteq> c \<longrightarrow> m2 b = mem M b"
    and "address_space_map_user (Some sp) va c flags (M\<lparr>kpmm := p, mem := m2\<rparr>) = (r, M3)" "r \<noteq> 0"
  defines "M4 \<equiv> M3\<lparr>kpmm := kpmm_free_page c (kpmm M3)\<rparr>"
  shows "space_grow sp M M4 \<and> user_map sp M4 = user_map sp M"
proof -
  note f = filled_space [OF assms(1-4)]
  note g = map_frameD [OF map_user_effect(1) [OF f(1) assms(5)], simplified f(2), simplified]
  have um: "user_map sp M3 = user_map sp M" using user_map_update [OF f(1) assms(5)] assms(6) f(3) by simp
  have ok3: "kpmm_ok (kpmm M3)" using g(1) by (simp add: space_wf_def tree_wf_def)
  have c3: "c \<in> kpmm_owned (kpmm M3)" using g(5) f(5) by simp
  have ct: "c \<notin> space_tables sp M3" using g(4) f(6,7) by (auto simp: footprint_def)
  note rel = kp.release_owned [OF ok3 c3]
  have m4: "mem M4 = mem M3" by (simp add: M4_def)
  note same = user_map_mem(1) [OF m4, of sp] user_map_mem(2) [OF m4, of sp]
  have wf: "space_wf sp M4" unfolding M4_def by (rule space_wf_free [OF g(1) c3 ct])
  have owned: "kpmm_owned (kpmm M4) = kpmm_owned (kpmm M) \<union> (space_tables sp M3 - space_tables sp M)"
    using rel g(5) f(5) ct kp.alloc_nonnull(2) [OF space_ok_pmm [OF assms(1)] assms(2,3)] by (auto simp: M4_def)
  have avail: "kpmm_avail (kpmm M4) \<subseteq> kpmm_avail (kpmm M)"
    using rel g(6) f(4,6) by (auto simp: M4_def)
  have tabs: "space_tables sp M4 \<subseteq> space_tables sp M \<union> kpmm_avail (kpmm M)" using same(2) g(4) f(6) by auto
  have frames: "user_frames sp M4 = user_frames sp M" by (simp add: user_frames_def same um)
  have "space_ok sp M4"
    using assms(1) wf owned frames same um tabs footprint_avail [OF assms(1)]
    unfolding space_ok_def footprint_def by auto
  moreover have "mem M4 b = mem M b" if "page_of b \<notin> kpmm_avail (kpmm M) \<union> space_tables sp M" for b
  proof -
    have "page_of b \<notin> space_tables sp M3" "page_of b \<noteq> c" using that tabs same(2) f(4) by auto
    then show ?thesis using g(7) assms(4) m4 by simp
  qed
  ultimately show ?thesis
    using tabs owned avail frames same um g(2) unfolding space_grow_def
    by (auto simp: footprint_def M4_def)
qed

lemma fresh_page_done:
  assumes "space_ok sp M" "kpmm_alloc_page (kpmm M) = (c, p)" "c \<noteq> 0"
    and "\<forall>b. page_of b \<noteq> c \<longrightarrow> m2 b = mem M b"
    and "address_space_map_user (Some sp) va c flags (M\<lparr>kpmm := p, mem := m2\<rparr>) = (0, M3)"
  shows "space_grow sp M M3" "user_map sp M3 = (user_map sp M)(va \<mapsto> user_entry c flags)"
    "page_of a = va \<Longrightarrow> user_byte sp M3 a = Some (m2 (c + (a AND PAGE_OFFSET_MASK)))"
proof -
  note f = filled_space [OF assms(1-4)]
  note g = map_frameD [OF map_user_effect(1) [OF f(1) assms(5)], simplified f(2), simplified]
  show um: "user_map sp M3 = (user_map sp M)(va \<mapsto> user_entry c flags)"
    using user_map_update [OF f(1) assms(5)] f(3) by simp
  have va: "page_aligned va" "user_address va" "va \<notin> dom (user_map sp M)"
    using map_user_effect(5) [OF f(1) assms(5)] f(3) by (auto simp: user_map_def fun_eq_iff split: if_splits)
  have fr: "frame_of (user_entry c flags) = c" using user_entry_addr [of c flags] f(10) by (simp add: frame_of_def)
  have ct: "c \<notin> space_tables sp M3" using g(4) f(6,7) by (auto simp: footprint_def)
  have tabs: "space_tables sp M3 \<subseteq> space_tables sp M \<union> kpmm_avail (kpmm M)" using g(4) f(6) by auto
  have frames: "user_frames sp M3 = insert c (user_frames sp M)"
    using va(3) um fr by (auto simp: user_frames_def ran_map_upd)
  have old: "frame_of (the (user_map sp M b)) \<noteq> c" if "b \<in> dom (user_map sp M)" for b
    using that user_frame [of sp M b] f(7) by (auto simp: footprint_def)
  have inj: "a = b" if "a \<in> dom (user_map sp M3)" "b \<in> dom (user_map sp M3)"
      "frame_of (the (user_map sp M3 a)) = frame_of (the (user_map sp M3 b))" for a b
    using that old [of a] old [of b] assms(1) fr unfolding um space_ok_def
    by (cases "a = va"; cases "b = va") auto
  have ok: "space_ok sp M3"
    unfolding space_ok_def using g(1,5) f(5) frames ct tabs footprint_avail [OF assms(1)] assms(1) inj
    by (auto simp: space_ok_def footprint_def)
  have "mem M3 b = mem M b" if "page_of b \<notin> kpmm_avail (kpmm M) \<union> space_tables sp M" for b
  proof -
    have "page_of b \<notin> space_tables sp M3" "page_of b \<noteq> c" using that tabs f(4) by auto
    then show ?thesis using g(7) assms(4) by simp
  qed
  then show "space_grow sp M M3"
    using ok tabs frames g(2,5,6) f(4-6) um va(3) unfolding space_grow_def
    by (auto simp: footprint_def map_le_def)
  show "user_byte sp M3 a = Some (m2 (c + (a AND PAGE_OFFSET_MASK)))" if "page_of a = va"
  proof -
    have "page_of (c OR (a AND PAGE_OFFSET_MASK)) = c" using frame_byte_page [of c a] f(10) by simp
    then have "mem M3 (c OR (a AND PAGE_OFFSET_MASK)) = m2 (c OR (a AND PAGE_OFFSET_MASK))" using g(7) ct by simp
    then show ?thesis using that um fr by (simp add: user_byte_eq [OF g(1)] aligned_or_offset [OF f(9)])
  qed
qed

lemma map_user_card:
  assumes "space_wf sp M" "address_space_map_user (Some sp) va pa flags M = (r, M')"
  shows "card (kpmm_avail (kpmm M)) \<le> card (kpmm_avail (kpmm M')) + 3"
proof (cases "page_aligned va \<and> page_aligned pa \<and> user_address va")
  case True
  let ?f = "flags OR SB_VMM_USER"
  obtain p3 M3 where e3: "ensure_table (pml4_physical sp) (pml4_index va) ?f M = (p3, M3)" by fastforce
  obtain p2 M2 where e2: "ensure_table p3 (pdpt_index va) ?f M3 = (p2, M2)" by fastforce
  obtain p1 M1 where e1: "ensure_table p2 (pd_index va) ?f M2 = (p1, M1)" by fastforce
  have ok: "kpmm_ok (kpmm M)" using assms(1) by (simp add: space_wf_def tree_wf_def)
  note a3 = ensure_table_avail [OF ok e3]
  note a2 = ensure_table_avail [OF a3(2) e2]
  note a1 = ensure_table_avail [OF a2(2) e1]
  have "kpmm M' \<in> {kpmm M3, kpmm M2, kpmm M1}"
    using assms(2) True by (auto simp: map_user_path map_path_def ensure_path_def e3 e2 e1 Let_def split: if_splits)
  with a3(1) a2(1) a1(1) show ?thesis by auto
qed (use assms(2) in \<open>auto simp: map_user_path split: if_splits\<close>)

lemma fresh_page_effect:
  assumes "space_ok sp M" "fills_page fill" "fresh_page sp va flags fill M = (r, M')"
  shows "space_grow sp M M' \<and> (r = 0 \<or> r = -1) \<and>
    (r = 0 \<longrightarrow> page_aligned va \<and> user_address va \<and> va \<notin> dom (user_map sp M) \<and>
      (\<exists>c \<in> kpmm_avail (kpmm M). page_aligned c \<and> user_map sp M' = (user_map sp M)(va \<mapsto> user_entry c flags) \<and>
        (\<forall>a. page_of a = va \<longrightarrow> user_byte sp M' a = Some (fill c (mem M) (c + (a AND PAGE_OFFSET_MASK)))))) \<and>
    (r = -1 \<longrightarrow> user_map sp M' = user_map sp M \<and>
      (page_aligned va \<and> user_address va \<and> va \<notin> dom (user_map sp M) \<longrightarrow> card (kpmm_avail (kpmm M)) < 4)) \<and>
    card (kpmm_avail (kpmm M)) \<le> card (kpmm_avail (kpmm M')) + 4"
proof -
  obtain c p where al: "kpmm_alloc_page (kpmm M) = (c, p)" by fastforce
  note ok = space_ok_pmm [OF assms(1)]
  show ?thesis
  proof (cases "c = 0")
    case True
    then have "p = kpmm M" "kpmm_avail (kpmm M) = {}"
      using kp.alloc_null_state [OF ok] kp.alloc_null [OF ok al] al by auto
    then show ?thesis
      using assms(3) True al space_grow_refl [OF assms(1)] by (simp add: fresh_page_def Let_def)
  next
    case False
    note an = kp.alloc_nonnull [OF ok al False]
    have fill: "\<forall>b. page_of b \<noteq> c \<longrightarrow> fill c (mem M) b = mem M b"
      using assms(2) an(3) by (simp add: fills_page_def)
    note f = filled_space [OF assms(1) al False fill]
    let ?M1 = "M\<lparr>kpmm := p, mem := fill c (mem M)\<rparr>"
    obtain q M3 where q: "address_space_map_user (Some sp) va c flags ?M1 = (q, M3)" by fastforce
    have call: "(r, M') = (if q \<noteq> 0 then (-1, M3\<lparr>kpmm := kpmm_free_page c (kpmm M3)\<rparr>) else (0, M3))"
      using assms(3) False al q by (simp add: fresh_page_def Let_def)
    have card: "card (kpmm_avail (kpmm M)) = Suc (card (kpmm_avail p))"
      using an(1,6) by (metis card_Suc_Diff1 finite_avail)
    have card3: "card (kpmm_avail (kpmm M)) \<le> card (kpmm_avail (kpmm M3)) + 4"
      using map_user_card [OF f(1) q] card by simp
    have v: "user_address va \<and> page_aligned va \<longrightarrow> bit (user_pte sp ?M1 va) 0 \<longleftrightarrow> va \<in> dom (user_map sp M)"
      unfolding f(3) [symmetric] by (auto simp: user_map_def split: if_splits)
    show ?thesis
    proof (cases "q = 0")
      case True
      note d = fresh_page_done [OF assms(1) al False fill, of va flags M3]
      have "page_aligned va" "user_address va" "va \<notin> dom (user_map sp M)"
        using map_user_effect(5) [OF f(1) q True] v by auto
      with True call card3 d q f(4,9) show ?thesis by auto
    next
      case qf: False
      note d = fresh_page_fail [OF assms(1) al False fill q qf]
      have "card (kpmm_avail (kpmm M)) < 4" if "page_aligned va" "user_address va" "va \<notin> dom (user_map sp M)"
        using map_user_effect(3,4,6) [OF f(1) q] qf that v f(9) card by auto
      moreover have "kpmm_avail (kpmm M3) \<subseteq> kpmm_avail (kpmm_free_page c (kpmm M3))"
        using kp.release_owned [of "kpmm M3" c] kp.release_other [of "kpmm M3" c]
          map_frameD(1) [OF map_user_effect(1) [OF f(1) q]] by (cases "c \<in> kpmm_owned (kpmm M3)") (auto simp: space_wf_def tree_wf_def)
      then have "card (kpmm_avail (kpmm M3)) \<le> card (kpmm_avail (kpmm_free_page c (kpmm M3)))" by (intro card_mono) simp_all
      ultimately show ?thesis using qf call d card3 by auto
    qed
  qed
qed

section \<open>Contents with permissions\<close>

text \<open>The byte at an address together with its writable and executable permissions.\<close>

type_synonym user_view = "u64 \<rightharpoonup> u8 \<times> bool \<times> bool"

definition user_view :: "address_space \<Rightarrow> machine \<Rightarrow> user_view" where
  "user_view sp M a =
     map_option (\<lambda>b. (b, bit (user_pte sp M a) 1, \<not> bit (user_pte sp M a) 63)) (user_byte sp M a)"

lemma user_view_eq:
  assumes "space_wf sp M"
  shows "user_view sp M a =
    map_option (\<lambda>e. (mem M (frame_of e OR (a AND PAGE_OFFSET_MASK)), bit e 1, \<not> bit e 63)) (user_map sp M (page_of a))"
  unfolding user_view_def user_byte_eq [OF assms] by (simp add: user_map_def)

lemma user_view_dom: "space_wf sp M \<Longrightarrow> a \<in> dom (user_view sp M) \<longleftrightarrow> page_of a \<in> dom (user_map sp M)"
  by (auto simp: user_view_eq)

lemma view_kept:
  assumes "space_ok sp M" "space_wf sp M'" "user_map sp M' (page_of a) = user_map sp M (page_of a)"
    and "user_byte sp M' a = user_byte sp M a"
  shows "user_view sp M' a = user_view sp M a"
proof -
  have wf: "space_wf sp M" using assms(1) by (simp add: space_ok_def)
  have "user_view sp X a = (case user_map sp X (page_of a) of None \<Rightarrow> None
      | Some e \<Rightarrow> map_option (\<lambda>b. (b, bit e 1, \<not> bit e 63)) (user_byte sp X a))" if "space_wf sp X" for X
    using that by (auto simp: user_view_eq user_byte_eq split: option.split)
  from this [OF wf] this [OF assms(2)] show ?thesis by (simp add: assms(3,4) cong: option.case_cong)
qed

lemma user_entry_perm: "bit (user_entry c flags) 1 \<longleftrightarrow> bit flags 1" "bit (user_entry c flags) 63 \<longleftrightarrow> bit flags 63"
  by (auto simp: user_entry_def bit_or_iff bit_and_iff addr_mask_eq bit_push_bit_iff bit_mask_iff)

lemma fresh_page_view:
  assumes "space_ok sp M" "fills_page fill" "fresh_page sp va flags fill M = (r, M')"
  shows "r \<noteq> 0 \<Longrightarrow> user_view sp M' = user_view sp M"
    and "r = 0 \<Longrightarrow> \<exists>c \<in> kpmm_avail (kpmm M). page_aligned c \<and>
      user_view sp M' = (\<lambda>a. if page_of a = va
        then Some (fill c (mem M) (c + (a AND PAGE_OFFSET_MASK)), bit flags 1, \<not> bit flags 63) else user_view sp M a)"
proof -
  note e = fresh_page_effect [OF assms]
  have g: "space_grow sp M M'" using e by blast
  have wf: "space_wf sp M'" using space_growD(1) [OF g] by (simp add: space_ok_def)
  have kept: "user_view sp M' a = user_view sp M a" if "r \<noteq> 0 \<or> page_of a \<noteq> va" for a
  proof -
    have "user_map sp M' (page_of a) = user_map sp M (page_of a)" using e that by auto
    then show ?thesis using view_kept [OF assms(1) wf] grow_byte [OF assms(1) g] by blast
  qed
  then show "r \<noteq> 0 \<Longrightarrow> user_view sp M' = user_view sp M" by blast
  assume "r = 0"
  then obtain c where c: "c \<in> kpmm_avail (kpmm M)" "page_aligned c" "user_map sp M' = (user_map sp M)(va \<mapsto> user_entry c flags)"
    "\<forall>a. page_of a = va \<longrightarrow> user_byte sp M' a = Some (fill c (mem M) (c + (a AND PAGE_OFFSET_MASK)))"
    using e by blast
  have um: "user_map sp M' va = Some (user_entry c flags)" using c(3) by simp
  have "user_view sp M' a = Some (fill c (mem M) (c + (a AND PAGE_OFFSET_MASK)), bit flags 1, \<not> bit flags 63)"
    if "page_of a = va" for a
  proof -
    have "user_pte sp M' a = user_entry c flags"
      using um that user_pte_page_of [of sp M' a] by (simp add: user_map_def split: if_splits)
    then show ?thesis using c(4) that by (simp add: user_view_def user_entry_perm user_entry_perm(1) [unfolded One_nat_def])
  qed
  with kept \<open>r = 0\<close> c(1,2) show "\<exists>c \<in> kpmm_avail (kpmm M). page_aligned c \<and>
      user_view sp M' = (\<lambda>a. if page_of a = va
        then Some (fill c (mem M) (c + (a AND PAGE_OFFSET_MASK)), bit flags 1, \<not> bit flags 63) else user_view sp M a)"
    by (intro bexI [of _ c]) auto
qed

lemma grow_other_view:
  assumes "space_ok sp M" "space_ok sp2 M" "footprint sp M \<inter> footprint sp2 M = {}" "space_grow sp M M'"
  shows "user_view sp2 M' = user_view sp2 M"
proof
  fix a
  note g = grow_other [OF assms, of a]
  show "user_view sp2 M' a = user_view sp2 M a"
    using view_kept [OF assms(2), of M' a] g by (simp add: space_ok_def)
qed

end
