(* ===== verification/Process.thy ===== *)
theory Process
  imports User_Space
begin

text \<open>
  The process table, \<^verbatim>\<open>kernel/process.c\<close>: 32 slots with up to 16 threads each. A pointer to a
  process is its index in the table and a pointer to a thread is a pair of indices; \<open>None\<close> is the
  null pointer. The invariant ties the table to the machine: each process has an address space of
  its own, and no two of them share a physical page.
\<close>

section \<open>State\<close>

definition SB_MAX_PROCESSES :: nat where
  "SB_MAX_PROCESSES = 32"

definition SB_MAX_THREADS_PER_PROCESS :: nat where
  "SB_MAX_THREADS_PER_PROCESS = 16"

datatype process_state =
  SB_PROCESS_UNUSED | SB_PROCESS_CREATED | SB_PROCESS_RUNNING | SB_PROCESS_SLEEPING | SB_PROCESS_EXITED

record sb_thread =
  th_tid :: u64
  th_runtime_ticks :: u64
  th_priority :: u32
  th_state :: process_state

record sb_process =
  pr_pid :: u64
  pr_state :: process_state
  pr_thread_count :: u32
  pr_threads :: "sb_thread list"
  pr_space :: address_space
  pr_entry_point :: u64
  pr_user_stack_top :: u64

record process_table =
  processes :: "sb_process list"
  process_count_value :: u32

definition zero_thread :: sb_thread where
  "zero_thread = \<lparr>th_tid = 0, th_runtime_ticks = 0, th_priority = 0, th_state = SB_PROCESS_UNUSED\<rparr>"

definition zero_process :: sb_process where
  "zero_process =
     \<lparr>pr_pid = 0, pr_state = SB_PROCESS_UNUSED, pr_thread_count = 0,
      pr_threads = replicate SB_MAX_THREADS_PER_PROCESS zero_thread, pr_space = \<lparr>pml4_physical = 0\<rparr>,
      pr_entry_point = 0, pr_user_stack_top = 0\<rparr>"

section \<open>Operations\<close>

definition process_init :: "process_table \<Rightarrow> process_table" where
  "process_init T = T\<lparr>processes := map (\<lambda>i. zero_process\<lparr>pr_state := SB_PROCESS_UNUSED\<rparr>) [0..<SB_MAX_PROCESSES],
                     process_count_value := 0\<rparr>"

text \<open>The body of the loop for a free slot.\<close>

definition create_slot :: "u64 \<Rightarrow> nat \<Rightarrow> process_table \<Rightarrow> machine \<Rightarrow> nat option \<times> process_table \<times> machine" where
  "create_slot pid i T M =
     (let p = (processes T ! i)\<lparr>pr_pid := pid, pr_state := SB_PROCESS_CREATED, pr_thread_count := 0\<rparr>;
          (r, space, M) = address_space_create (Some (pr_space p)) M;
          p = p\<lparr>pr_space := the space\<rparr> in
      if r \<noteq> 0 then
        (None, T\<lparr>processes := (processes T)[i := p\<lparr>pr_state := SB_PROCESS_UNUSED, pr_pid := 0\<rparr>]\<rparr>, M)
      else
        (Some i, T\<lparr>processes := (processes T)[i := p], process_count_value := process_count_value T + 1\<rparr>, M))"

fun create_loop :: "u64 \<Rightarrow> nat list \<Rightarrow> process_table \<Rightarrow> machine \<Rightarrow> nat option \<times> process_table \<times> machine" where
  "create_loop pid [] T M = (None, T, M)"
| "create_loop pid (i # is) T M =
     (if pr_state (processes T ! i) \<noteq> SB_PROCESS_UNUSED then create_loop pid is T M else create_slot pid i T M)"

definition process_create :: "u64 \<Rightarrow> process_table \<Rightarrow> machine \<Rightarrow> nat option \<times> process_table \<times> machine" where
  "process_create pid T M =
     (if pid = 0 \<or> unat (process_count_value T) \<ge> SB_MAX_PROCESSES then (None, T, M)
      else create_loop pid [0..<SB_MAX_PROCESSES] T M)"

definition process_create_thread ::
    "nat option \<Rightarrow> u64 \<Rightarrow> u32 \<Rightarrow> process_table \<Rightarrow> (nat \<times> nat) option \<times> process_table" where
  "process_create_thread process tid priority T =
     (case process of None \<Rightarrow> (None, T)
      | Some i \<Rightarrow>
          let p = processes T ! i in
          if tid = 0 \<or> unat (pr_thread_count p) \<ge> SB_MAX_THREADS_PER_PROCESS \<or>
             pr_state p = SB_PROCESS_UNUSED \<or> pr_state p = SB_PROCESS_EXITED then (None, T)
          else
            let t = unat (pr_thread_count p);
                thread = zero_thread\<lparr>th_tid := tid, th_priority := priority, th_state := SB_PROCESS_CREATED\<rparr> in
            (Some (i, t),
             T\<lparr>processes := (processes T)[i := p\<lparr>pr_thread_count := pr_thread_count p + 1,
                                             pr_threads := (pr_threads p)[t := thread]\<rparr>]\<rparr>))"

fun get_loop :: "u64 \<Rightarrow> nat list \<Rightarrow> process_table \<Rightarrow> nat option" where
  "get_loop pid [] T = None"
| "get_loop pid (i # is) T =
     (if pr_state (processes T ! i) \<noteq> SB_PROCESS_UNUSED \<and> pr_pid (processes T ! i) = pid then Some i
      else get_loop pid is T)"

definition process_get :: "u64 \<Rightarrow> process_table \<Rightarrow> nat option" where
  "process_get pid T = (if pid = 0 then None else get_loop pid [0..<SB_MAX_PROCESSES] T)"

definition process_count :: "process_table \<Rightarrow> u32" where
  "process_count T = process_count_value T"

definition process_activate :: "nat option \<Rightarrow> process_table \<Rightarrow> machine \<Rightarrow> int \<times> machine" where
  "process_activate process T M =
     (case process of None \<Rightarrow> (-1, M)
      | Some i \<Rightarrow>
          if pr_state (processes T ! i) = SB_PROCESS_UNUSED \<or> pr_state (processes T ! i) = SB_PROCESS_EXITED
          then (-1, M)
          else address_space_activate (Some (pr_space (processes T ! i))) M)"

definition process_destroy :: "nat option \<Rightarrow> process_table \<Rightarrow> machine \<Rightarrow> process_table \<times> machine" where
  "process_destroy process T M =
     (case process of None \<Rightarrow> (T, M)
      | Some i \<Rightarrow>
          let p = processes T ! i in
          if pr_state p = SB_PROCESS_UNUSED then (T, M)
          else
            let (space, M) = address_space_destroy (Some (pr_space p)) M;
                p = p\<lparr>pr_space := the space, pr_state := SB_PROCESS_UNUSED, pr_pid := 0, pr_thread_count := 0\<rparr> in
            (T\<lparr>processes := (processes T)[i := p],
               process_count_value := (if process_count_value T > 0 then process_count_value T - 1
                                       else process_count_value T)\<rparr>, M))"

section \<open>The invariant\<close>

definition proc_used :: "process_table \<Rightarrow> nat \<Rightarrow> bool" where
  "proc_used T i \<longleftrightarrow> i < SB_MAX_PROCESSES \<and> pr_state (processes T ! i) \<noteq> SB_PROCESS_UNUSED"

definition proc_space :: "process_table \<Rightarrow> nat \<Rightarrow> address_space" where
  "proc_space T i = pr_space (processes T ! i)"

definition table_inv :: "process_table \<Rightarrow> bool" where
  "table_inv T \<longleftrightarrow>
     length (processes T) = SB_MAX_PROCESSES \<and> unat (process_count_value T) = card {i. proc_used T i} \<and>
     (\<forall>i < SB_MAX_PROCESSES. length (pr_threads (processes T ! i)) = SB_MAX_THREADS_PER_PROCESS \<and>
        unat (pr_thread_count (processes T ! i)) \<le> SB_MAX_THREADS_PER_PROCESS \<and>
        (pr_pid (processes T ! i) = 0 \<longleftrightarrow> \<not> proc_used T i))"

definition spaces_inv :: "process_table \<Rightarrow> machine \<Rightarrow> bool" where
  "spaces_inv T M \<longleftrightarrow>
     kpmm_ok (kpmm M) \<and> (\<forall>i. proc_used T i \<longrightarrow> space_ok (proc_space T i) M) \<and>
     (\<forall>i j. proc_used T i \<longrightarrow> proc_used T j \<longrightarrow> i \<noteq> j \<longrightarrow>
        footprint (proc_space T i) M \<inter> footprint (proc_space T j) M = {})"

definition procs_ok :: "process_table \<Rightarrow> machine \<Rightarrow> bool" where
  "procs_ok T M \<longleftrightarrow> table_inv T \<and> spaces_inv T M"

lemma proc_used_bound: "proc_used T i \<Longrightarrow> i < 32"
  by (simp add: proc_used_def SB_MAX_PROCESSES_def)

lemma proc_used_finite [simp]: "finite {i. proc_used T i}"
  by (rule finite_subset [of _ "{..<32}"]) (auto dest: proc_used_bound)

lemma count_bound: "table_inv T \<Longrightarrow> unat (process_count_value T) \<le> 32"
  using card_mono [of "{..<32}" "{i. proc_used T i}"] by (auto simp: table_inv_def dest: proc_used_bound)

lemma used_update:
  assumes "i < 32" "length (processes T) = SB_MAX_PROCESSES" "processes T' = (processes T)[i := p]"
  shows "proc_used T' j \<longleftrightarrow> (if j = i then pr_state p \<noteq> SB_PROCESS_UNUSED else proc_used T j)"
  using assms by (auto simp: proc_used_def SB_MAX_PROCESSES_def)

lemma table_inv_update:
  assumes "table_inv T" "i < 32" "processes T' = (processes T)[i := p]"
    and "length (pr_threads p) = SB_MAX_THREADS_PER_PROCESS"
    and "unat (pr_thread_count p) \<le> SB_MAX_THREADS_PER_PROCESS" "pr_pid p = 0 \<longleftrightarrow> pr_state p = SB_PROCESS_UNUSED"
    and "unat (process_count_value T') = unat (process_count_value T) - (if proc_used T i then 1 else 0) +
      (if pr_state p = SB_PROCESS_UNUSED then 0 else 1)"
  shows "table_inv T'"
proof -
  have len: "length (processes T) = SB_MAX_PROCESSES" using assms(1) by (simp add: table_inv_def)
  note u = used_update [OF assms(2) len assms(3)]
  have "{j. proc_used T' j} = ({j. proc_used T j} - {i}) \<union> (if pr_state p = SB_PROCESS_UNUSED then {} else {i})"
    by (auto simp: u)
  moreover have "card ({j. proc_used T j} - {i}) = card {j. proc_used T j} - (if proc_used T i then 1 else 0)"
    by (simp add: card_Diff_singleton_if)
  moreover have "0 < card {j. proc_used T j}" if "proc_used T i" using that by (auto simp: card_gt_0_iff)
  ultimately have "card {j. proc_used T' j} = card {j. proc_used T j} - (if proc_used T i then 1 else 0) +
      (if pr_state p = SB_PROCESS_UNUSED then 0 else 1)" by (auto simp: card_insert_if)
  then show ?thesis using assms by (auto simp: table_inv_def u nth_list_update)
qed

text \<open>Address spaces when a page that they do not use is written or freed.\<close>

lemma other_space_view:
  assumes "space_ok sp2 M" "kpmm_ok (kpmm M')" "kpmm_owned (kpmm M) \<subseteq> kpmm_owned (kpmm M')"
    and "\<forall>b. page_of b \<in> footprint sp2 M \<longrightarrow> mem M' b = mem M b"
  shows "space_ok sp2 M' \<and> footprint sp2 M' = footprint sp2 M \<and> user_view sp2 M' = user_view sp2 M"
proof -
  have "user_view sp2 M' a = user_view sp2 M a" for a
    using other_space_kept [OF assms, of a] view_kept [OF assms(1), of M' a] by (simp add: space_ok_def)
  then show ?thesis using other_space_kept [OF assms] by blast
qed

lemma create_effects:
  assumes "kpmm_ok (kpmm M)" "address_space_create (Some sp0) M = (0, Some sp, M')"
  shows "space_ok sp M'" "footprint sp M' \<subseteq> kpmm_avail (kpmm M)" "user_view sp M' = Map.empty" "kpmm_ok (kpmm M')"
    and "space_ok sp2 M \<Longrightarrow> space_ok sp2 M' \<and> footprint sp2 M' = footprint sp2 M \<and> user_view sp2 M' = user_view sp2 M"
proof -
  obtain s where s: "Some sp = Some s" "space_wf s M'" "user_map s M' = Map.empty"
    "space_tables s M' = {pml4_physical s}" "pml4_physical s \<in> kpmm_avail (kpmm M)"
    "kpmm_owned (kpmm M') = insert (pml4_physical s) (kpmm_owned (kpmm M))"
    "\<forall>a. page_of a \<noteq> pml4_physical s \<longrightarrow> mem M' a = mem M a"
    using create_space [OF assms] by blast
  then show "space_ok sp M'" "footprint sp M' \<subseteq> kpmm_avail (kpmm M)" "user_view sp M' = Map.empty"
    by (auto simp: space_ok_def user_frames_def footprint_def user_view_eq)
  then show ok: "kpmm_ok (kpmm M')" using space_ok_pmm by blast
  assume k: "space_ok sp2 M"
  then have "pml4_physical s \<notin> footprint sp2 M" using footprint_avail [OF k] s(5) by blast
  then have "\<forall>b. page_of b \<in> footprint sp2 M \<longrightarrow> mem M' b = mem M b" using s(7) by metis
  moreover have "kpmm_owned (kpmm M) \<subseteq> kpmm_owned (kpmm M')" using s(6) by blast
  ultimately show "space_ok sp2 M' \<and> footprint sp2 M' = footprint sp2 M \<and> user_view sp2 M' = user_view sp2 M"
    using other_space_view [OF k ok] by blast
qed

lemma view_mem:
  assumes "mem M' = mem M"
  shows "user_view sp M' = user_view sp M" "user_frames sp M' = user_frames sp M" "footprint sp M' = footprint sp M"
proof -
  have "user_pte sp M' a = user_pte sp M a" for a using assms by (simp add: user_pte_def slot_pte_def)
  moreover have "user_byte sp M' a = user_byte sp M a" for a
    by (simp only: user_byte_def address_space_translate_user_def assms)
  ultimately show "user_view sp M' = user_view sp M" by (auto simp: user_view_def fun_eq_iff)
  show "user_frames sp M' = user_frames sp M" using user_map_mem(1) [OF assms] by (simp add: user_frames_def)
  then show "footprint sp M' = footprint sp M" using user_map_mem(2) [OF assms] by (simp add: footprint_def)
qed

lemma free_effects:
  assumes "space_ok sp2 M" "c \<in> kpmm_owned (kpmm M)" "c \<notin> footprint sp2 M"
  defines "M' \<equiv> M\<lparr>kpmm := kpmm_free_page c (kpmm M)\<rparr>"
  shows "space_ok sp2 M'" "footprint sp2 M' = footprint sp2 M" "user_view sp2 M' = user_view sp2 M"
proof -
  have m: "mem M' = mem M" by (simp add: M'_def)
  have wf: "space_wf sp2 M" using assms(1) by (simp add: space_ok_def)
  have "space_wf sp2 M'" unfolding M'_def
    by (rule space_wf_free [OF wf assms(2)]) (use assms(3) in \<open>simp add: footprint_def\<close>)
  moreover have "user_frames sp2 M' \<subseteq> kpmm_owned (kpmm M')"
    using assms(1,3) kp.release_owned [OF space_ok_pmm [OF assms(1)] assms(2)] view_mem(2) [OF m]
    by (auto simp: M'_def space_ok_def footprint_def)
  ultimately show "space_ok sp2 M'"
    using assms(1) view_mem(2) [OF m] user_map_mem [OF m, of sp2] by (simp add: space_ok_def)
  show "footprint sp2 M' = footprint sp2 M" "user_view sp2 M' = user_view sp2 M" using view_mem [OF m] by simp_all
qed

section \<open>What the operations do\<close>

text \<open>Every process but \<open>i\<close> stays as it is, with the same bytes and permissions.\<close>

definition others_kept :: "nat \<Rightarrow> process_table \<Rightarrow> machine \<Rightarrow> process_table \<Rightarrow> machine \<Rightarrow> bool" where
  "others_kept i T M T' M' \<longleftrightarrow>
     (\<forall>j. j \<noteq> i \<longrightarrow> processes T' ! j = processes T ! j \<and>
        (proc_used T j \<longrightarrow> user_view (proc_space T j) M' = user_view (proc_space T j) M))"

lemma create_loop_find:
  "create_loop pid is T M =
     (case find (\<lambda>i. pr_state (processes T ! i) = SB_PROCESS_UNUSED) is of
        None \<Rightarrow> (None, T, M) | Some i \<Rightarrow> create_slot pid i T M)"
  by (induction "is") auto

lemma find_upt: "find P [0..<n] = Some i \<longleftrightarrow> i < n \<and> P i \<and> (\<forall>j < i. \<not> P j)"
  by (auto simp: find_Some_iff)

lemma spaces_inv_used: "spaces_inv T M \<Longrightarrow> proc_used T i \<Longrightarrow> space_ok (proc_space T i) M"
  by (simp add: spaces_inv_def)

lemma create_slot_effect:
  assumes "procs_ok T M" "pid \<noteq> 0" "i < 32" "\<not> proc_used T i" "create_slot pid i T M = (res, T', M')"
  shows "procs_ok T' M' \<and> others_kept i T M T' M' \<and>
    (res = None \<longrightarrow> \<not> proc_used T' i \<and> M' = M \<and> kpmm_avail (kpmm M) = {}) \<and>
    (res \<noteq> None \<longrightarrow> res = Some i \<and> proc_used T' i \<and> pr_pid (processes T' ! i) = pid \<and>
       pr_thread_count (processes T' ! i) = 0 \<and> user_view (proc_space T' i) M' = Map.empty)"
proof -
  let ?p = "(processes T ! i)\<lparr>pr_pid := pid, pr_state := SB_PROCESS_CREATED, pr_thread_count := 0\<rparr>"
  obtain r space M1 where c: "address_space_create (Some (pr_space ?p)) M = (r, space, M1)" by (metis prod_cases3)
  have inv: "table_inv T" "spaces_inv T M" "kpmm_ok (kpmm M)" "length (processes T) = SB_MAX_PROCESSES"
    using assms(1) by (simp_all add: procs_ok_def spaces_inv_def table_inv_def)
  note upd = used_update [OF assms(3) inv(4)]
  have th: "length (pr_threads (processes T ! i)) = SB_MAX_THREADS_PER_PROCESS"
    using inv(1) assms(3) by (simp add: table_inv_def SB_MAX_PROCESSES_def)
  show ?thesis
  proof (cases "r = 0")
    case False
    then have f: "space = Some (pr_space ?p)" "M1 = M" "kpmm_avail (kpmm M) = {}"
      using create_effect(2) [OF inv(3) c] by simp_all
    let ?q = "?p\<lparr>pr_state := SB_PROCESS_UNUSED, pr_pid := 0\<rparr>"
    have T': "res = None" "T' = T\<lparr>processes := (processes T)[i := ?q], process_count_value := process_count_value T\<rparr>" "M' = M"
      using assms(5) c f False by (auto simp: create_slot_def Let_def)
    have "table_inv T'"
      using assms(4) th by (intro table_inv_update [OF inv(1) assms(3), of T' ?q]) (simp_all add: T'(2))
    moreover have "proc_used T' j \<longleftrightarrow> proc_used T j" for j using upd [of T' ?q j] assms(4) T'(2) by simp
    moreover have "processes T' ! j = processes T ! j" if "j \<noteq> i" for j using that T'(2) by simp
    moreover from this have "proc_space T' j = proc_space T j" if "proc_used T j" for j
      using that assms(4) by (cases "j = i") (simp_all add: proc_space_def)
    ultimately show ?thesis
      using T'(1,3) inv(2) assms(4) f(3) by (simp add: procs_ok_def spaces_inv_def others_kept_def)
  next
    case True
    then obtain sp where sp: "space = Some sp" using create_effect(1) [OF inv(3) c] by blast
    note ce = create_effects [OF inv(3) c [unfolded True sp]]
    let ?q = "?p\<lparr>pr_space := sp\<rparr>"
    have T': "res = Some i" "T' = T\<lparr>processes := (processes T)[i := ?q], process_count_value := process_count_value T + 1\<rparr>" "M' = M1"
      using assms(5) c sp True by (simp_all add: create_slot_def Let_def)
    have "unat (process_count_value T + 1) = unat (process_count_value T) + 1"
      using count_bound [OF inv(1)] by (subst unat_add_small) simp_all
    then have ti: "table_inv T'"
      using assms(2,4) th by (intro table_inv_update [OF inv(1) assms(3), of T' ?q]) (simp_all add: T'(2))
    have used: "proc_used T' j \<longleftrightarrow> j = i \<or> proc_used T j" for j using upd [of T' ?q j] assms(4) T'(2) by simp
    have pr: "processes T' ! i = ?q" "j \<noteq> i \<Longrightarrow> processes T' ! j = processes T ! j" for j
      using T'(2) assms(3) inv(4) by (simp_all add: SB_MAX_PROCESSES_def)
    have ps: "proc_space T' i = sp" "j \<noteq> i \<Longrightarrow> proc_space T' j = proc_space T j" for j
      using pr by (simp_all add: proc_space_def)
    have ok: "space_ok (proc_space T' j) M'" if "proc_used T' j" for j
      using that used ps ce(1,5) spaces_inv_used [OF inv(2)] T'(3) by (cases "j = i") auto
    have fp: "footprint (proc_space T j) M' = footprint (proc_space T j) M" "footprint (proc_space T j) M \<inter> footprint sp M' = {}"
      if "proc_used T j" for j
      using ce(2,5) spaces_inv_used [OF inv(2) that] footprint_avail T'(3) by blast+
    have "footprint (proc_space T' j) M' \<inter> footprint (proc_space T' k) M' = {}"
      if "proc_used T' j" "proc_used T' k" "j \<noteq> k" for j k
      using that used ps fp [of j] fp [of k] inv(2) unfolding spaces_inv_def by (cases "j = i"; cases "k = i") auto
    then have "spaces_inv T' M'" using ok ce(4) T'(3) by (simp add: spaces_inv_def)
    moreover have "others_kept i T M T' M'"
      using pr ce(5) spaces_inv_used [OF inv(2)] T'(3) by (simp add: others_kept_def)
    ultimately show ?thesis using ti T' used pr ps ce(3) by (simp add: procs_ok_def)
  qed
qed

lemma process_create_effect:
  assumes "procs_ok T M" "process_create pid T M = (res, T', M')"
  shows "procs_ok T' M' \<and>
    (case res of
       None \<Rightarrow> M' = M \<and> (\<forall>j. proc_used T' j \<longleftrightarrow> proc_used T j) \<and> (\<forall>j. proc_used T j \<longrightarrow> processes T' ! j = processes T ! j) \<and>
         (pid = 0 \<or> (\<forall>j < 32. proc_used T j) \<or> kpmm_avail (kpmm M) = {})
     | Some i \<Rightarrow> i < 32 \<and> \<not> proc_used T i \<and> (\<forall>j < i. proc_used T j) \<and> proc_used T' i \<and> pr_pid (processes T' ! i) = pid \<and>
         pr_thread_count (processes T' ! i) = 0 \<and> user_view (proc_space T' i) M' = Map.empty \<and> others_kept i T M T' M')"
proof (cases "pid = 0 \<or> 32 \<le> unat (process_count_value T)")
  case True
  have "\<forall>j < 32. proc_used T j" if "32 \<le> unat (process_count_value T)"
  proof -
    have "card {j. proc_used T j} = card {..<32 :: nat}"
      using that count_bound [of T] assms(1) by (simp add: procs_ok_def table_inv_def)
    then have "{j. proc_used T j} = {..<32}" by (intro card_subset_eq) (auto dest: proc_used_bound)
    then show ?thesis by auto
  qed
  then show ?thesis using assms True by (auto simp: process_create_def SB_MAX_PROCESSES_def split: if_splits)
next
  case False
  then have cr: "create_loop pid [0..<32] T M = (res, T', M')"
    using assms(2) by (simp add: process_create_def SB_MAX_PROCESSES_def)
  have un: "pr_state (processes T ! j) = SB_PROCESS_UNUSED \<longleftrightarrow> \<not> proc_used T j" if "j < 32" for j
    using that by (simp add: proc_used_def SB_MAX_PROCESSES_def)
  show ?thesis
  proof (cases "find (\<lambda>i. pr_state (processes T ! i) = SB_PROCESS_UNUSED) [0..<32]")
    case None
    then have "\<forall>j < 32. proc_used T j" using un by (auto simp: find_None_iff)
    then show ?thesis using None cr assms(1) by (simp add: create_loop_find)
  next
    case (Some i)
    then have i: "i < 32" "\<not> proc_used T i" "\<forall>j < i. proc_used T j" using un by (auto simp: find_upt)
    have "create_slot pid i T M = (res, T', M')" using Some cr by (simp add: create_loop_find)
    note e = create_slot_effect [OF assms(1) _ i(1,2) this]
    have pid: "pid \<noteq> 0" using False by simp
    have "processes T' ! j = processes T ! j" if "j \<noteq> i" for j using e [OF pid] that by (simp add: others_kept_def)
    then have "proc_used T' j \<longleftrightarrow> proc_used T j" if "j \<noteq> i" for j using that by (simp add: proc_used_def)
    then show ?thesis
      using e [OF pid] i by (cases res) (auto simp: others_kept_def, (metis | force)+)
  qed
qed

lemma process_destroy_effect:
  assumes "procs_ok T M" "i < 32" "process_destroy (Some i) T M = (T', M')"
  shows "procs_ok T' M' \<and> others_kept i T M T' M' \<and> \<not> proc_used T' i \<and> mem M' = mem M \<and> cr3 M' = cr3 M \<and>
    kpmm_owned (kpmm M') = kpmm_owned (kpmm M) - (if proc_used T i then {pml4_physical (proc_space T i)} else {}) \<and>
    kpmm_avail (kpmm M') = kpmm_avail (kpmm M) \<union> (if proc_used T i then {pml4_physical (proc_space T i)} else {})"
proof (cases "proc_used T i")
  case False
  then have "pr_state (processes T ! i) = SB_PROCESS_UNUSED" using assms(2) by (simp add: proc_used_def SB_MAX_PROCESSES_def)
  then show ?thesis using assms False by (auto simp: process_destroy_def others_kept_def)
next
  case True
  let ?p = "processes T ! i" and ?root = "pml4_physical (proc_space T i)"
  have inv: "table_inv T" "spaces_inv T M" "kpmm_ok (kpmm M)" "length (processes T) = SB_MAX_PROCESSES"
    using assms(1) by (simp_all add: procs_ok_def spaces_inv_def table_inv_def)
  have ok: "space_ok (proc_space T i) M" using inv(2) True by (simp add: spaces_inv_def)
  have root: "?root \<in> footprint (proc_space T i) M"
    by (simp add: footprint_def space_tables_def tree_pages_def) (metis slot_path_Nil tab.simps(1))
  then have own: "?root \<in> kpmm_owned (kpmm M)" "?root \<noteq> 0"
    using footprint_owned [OF ok] kp.owned_page [OF inv(3), of ?root] by blast+
  let ?q = "?p\<lparr>pr_space := (pr_space ?p)\<lparr>pml4_physical := 0\<rparr>, pr_state := SB_PROCESS_UNUSED, pr_pid := 0, pr_thread_count := 0\<rparr>"
  have cnt: "0 < process_count_value T"
  proof -
    have "0 < card {j. proc_used T j}" using True by (auto simp: card_gt_0_iff)
    then show ?thesis using inv(1) by (simp add: table_inv_def word_less_nat_alt)
  qed
  have T': "processes T' = (processes T)[i := ?q]" "process_count_value T' = process_count_value T - 1"
    "M' = M\<lparr>kpmm := kpmm_free_page ?root (kpmm M)\<rparr>"
    using assms(3) True own(2) cnt
    by (auto simp: process_destroy_def address_space_destroy_def proc_used_def proc_space_def Let_def)
  note upd = used_update [OF assms(2) inv(4) T'(1)]
  have "unat (process_count_value T - 1) = unat (process_count_value T) - 1"
    using cnt by (subst unat_sub) (simp_all add: word_le_nat_alt word_less_nat_alt Suc_le_eq)
  then have ti: "table_inv T'"
    using inv(1) assms(2) True T'(2)
    by (intro table_inv_update [OF inv(1) assms(2) T'(1)]) (simp_all add: table_inv_def SB_MAX_PROCESSES_def)
  have used: "proc_used T' j \<longleftrightarrow> j \<noteq> i \<and> proc_used T j" for j using upd by simp
  have pr: "processes T' ! j = processes T ! j" if "j \<noteq> i" for j using that T'(1) by simp
  have ps: "proc_space T' j = proc_space T j" if "j \<noteq> i" for j using pr [OF that] by (simp add: proc_space_def)
  have fe: "space_ok (proc_space T j) M'" "footprint (proc_space T j) M' = footprint (proc_space T j) M"
    "user_view (proc_space T j) M' = user_view (proc_space T j) M" if "proc_used T j" "j \<noteq> i" for j
  proof -
    have "?root \<notin> footprint (proc_space T j) M" using that True inv(2) root unfolding spaces_inv_def by blast
    from free_effects [OF _ own(1) this] that inv(2) show "space_ok (proc_space T j) M'"
      "footprint (proc_space T j) M' = footprint (proc_space T j) M"
      "user_view (proc_space T j) M' = user_view (proc_space T j) M"
      unfolding T'(3) by (simp_all add: spaces_inv_def)
  qed
  have "kpmm_ok (kpmm M')" using kp.release_ok [OF inv(3)] T'(3) by simp
  then have "spaces_inv T' M'" using fe inv(2) used ps by (simp add: spaces_inv_def)
  moreover have "others_kept i T M T' M'" using pr fe(3) by (simp add: others_kept_def)
  ultimately show ?thesis
    using ti used True T'(3) kp.release_owned [OF inv(3) own(1)] by (simp add: procs_ok_def)
qed

lemma procs_ok_same_machine:
  assumes "procs_ok T M" "table_inv T'" "\<And>j. proc_used T' j \<longleftrightarrow> proc_used T j" "\<And>j. proc_space T' j = proc_space T j"
  shows "procs_ok T' M"
  using assms by (simp add: procs_ok_def spaces_inv_def)

lemma process_create_thread_effect:
  assumes "procs_ok T M" "i < 32" "process_create_thread (Some i) tid priority T = (res, T')"
  defines "n \<equiv> unat (pr_thread_count (processes T ! i))"
  shows "procs_ok T' M \<and> (\<forall>j. j \<noteq> i \<longrightarrow> processes T' ! j = processes T ! j) \<and> proc_space T' i = proc_space T i \<and>
    (res = None \<longrightarrow> T' = T \<and> (tid = 0 \<or> n = 16 \<or> \<not> proc_used T i \<or> pr_state (processes T ! i) = SB_PROCESS_EXITED)) \<and>
    (res \<noteq> None \<longrightarrow> res = Some (i, n) \<and> n < 16 \<and> unat (pr_thread_count (processes T' ! i)) = n + 1 \<and>
      pr_threads (processes T' ! i) = (pr_threads (processes T ! i))[n :=
        \<lparr>th_tid = tid, th_runtime_ticks = 0, th_priority = priority, th_state = SB_PROCESS_CREATED\<rparr>])"
proof -
  have inv: "table_inv T" "length (processes T) = SB_MAX_PROCESSES" using assms(1) by (simp_all add: procs_ok_def table_inv_def)
  have n: "n \<le> 16" "length (pr_threads (processes T ! i)) = 16"
    using inv(1) assms(2) by (simp_all add: table_inv_def SB_MAX_PROCESSES_def SB_MAX_THREADS_PER_PROCESS_def n_def)
  have un: "pr_state (processes T ! i) = SB_PROCESS_UNUSED \<longleftrightarrow> \<not> proc_used T i"
    using assms(2) by (simp add: proc_used_def SB_MAX_PROCESSES_def)
  show ?thesis
  proof (cases "tid = 0 \<or> 16 \<le> n \<or> \<not> proc_used T i \<or> pr_state (processes T ! i) = SB_PROCESS_EXITED")
    case True
    then have "res = None" "T' = T"
      using assms(3) un by (auto simp: process_create_thread_def Let_def SB_MAX_THREADS_PER_PROCESS_def n_def)
    then show ?thesis using True n(1) assms(1) by auto
  next
    case False
    let ?t = "\<lparr>th_tid = tid, th_runtime_ticks = 0, th_priority = priority, th_state = SB_PROCESS_CREATED\<rparr>"
    let ?q = "(processes T ! i)\<lparr>pr_thread_count := pr_thread_count (processes T ! i) + 1,
        pr_threads := (pr_threads (processes T ! i))[n := ?t]\<rparr>"
    have T': "res = Some (i, n)" "processes T' = (processes T)[i := ?q]" "process_count_value T' = process_count_value T"
      using assms(3) False un
      by (auto simp: process_create_thread_def Let_def SB_MAX_THREADS_PER_PROCESS_def n_def zero_thread_def)
    have c: "unat (pr_thread_count (processes T ! i) + 1) = n + 1"
      unfolding n_def using False n_def by (subst unat_add_small) simp_all
    have i: "processes T' ! i = ?q" using T'(2) assms(2) inv(2) by (simp add: SB_MAX_PROCESSES_def)
    have "0 < unat (process_count_value T)"
    proof -
      have "0 < card {j. proc_used T j}" using False by (auto simp: card_gt_0_iff)
      then show ?thesis using inv(1) by (simp add: table_inv_def)
    qed
    then have ti: "table_inv T'"
      using c n False T'(3) un inv(1) assms(2)
      by (intro table_inv_update [OF inv(1) assms(2) T'(2)])
         (simp_all add: SB_MAX_THREADS_PER_PROCESS_def table_inv_def SB_MAX_PROCESSES_def)
    have "procs_ok T' M"
    proof (rule procs_ok_same_machine [OF assms(1) ti])
      show "proc_used T' j \<longleftrightarrow> proc_used T j" for j using used_update [OF assms(2) inv(2) T'(2), of j] False un by simp
      show "proc_space T' j = proc_space T j" for j using i T'(2) by (cases "j = i") (simp_all add: proc_space_def)
    qed
    then show ?thesis using T' c i False by (simp add: proc_space_def)
  qed
qed

end
