(* ===== verification/Elf.thy ===== *)
theory Elf
  imports Sb_Prelude
begin

text \<open>
  The ELF64 validator, \<^verbatim>\<open>kernel/elf.c\<close>. The two packed structures of \<^verbatim>\<open>kernel/elf.h\<close> are records
  that are read from the bytes at an address, so a pointer to a structure is an address and every
  access goes to the memory of the moment. The null pointer is the address 0; the output
  parameter of \<open>elf64_validate\<close> is an option, \<open>None\<close> for a null pointer.
\<close>

section \<open>Structures\<close>

record sb_elf64_header =
  e_ident :: "u8 list"
  e_type :: u16
  e_machine :: u16
  e_version :: u32
  e_entry :: u64
  e_phoff :: u64
  e_shoff :: u64
  e_flags :: u32
  e_ehsize :: u16
  e_phentsize :: u16
  e_phnum :: u16
  e_shentsize :: u16
  e_shnum :: u16
  e_shstrndx :: u16

record sb_elf64_program_header =
  p_type :: u32
  p_flags :: u32
  p_offset :: u64
  p_virtual_address :: u64
  p_physical_address :: u64
  p_file_size :: u64
  p_memory_size :: u64
  p_align :: u64

definition sizeof_elf64_header :: nat where
  "sizeof_elf64_header = 64"

definition sizeof_elf64_program_header :: nat where
  "sizeof_elf64_program_header = 56"

definition elf64_header_at :: "memory \<Rightarrow> u64 \<Rightarrow> sb_elf64_header" where
  "elf64_header_at m a =
     \<lparr>e_ident = map (\<lambda>i. m (a + of_nat i)) [0..<16], e_type = load16 m (a + 16), e_machine = load16 m (a + 18),
      e_version = load32 m (a + 20), e_entry = load64 m (a + 24), e_phoff = load64 m (a + 32),
      e_shoff = load64 m (a + 40), e_flags = load32 m (a + 48), e_ehsize = load16 m (a + 52),
      e_phentsize = load16 m (a + 54), e_phnum = load16 m (a + 56), e_shentsize = load16 m (a + 58),
      e_shnum = load16 m (a + 60), e_shstrndx = load16 m (a + 62)\<rparr>"

definition elf64_program_header_at :: "memory \<Rightarrow> u64 \<Rightarrow> sb_elf64_program_header" where
  "elf64_program_header_at m a =
     \<lparr>p_type = load32 m a, p_flags = load32 m (a + 4), p_offset = load64 m (a + 8),
      p_virtual_address = load64 m (a + 16), p_physical_address = load64 m (a + 24),
      p_file_size = load64 m (a + 32), p_memory_size = load64 m (a + 40), p_align = load64 m (a + 48)\<rparr>"

definition SB_ELF_MAGIC :: u32 where
  "SB_ELF_MAGIC = 0x464C457F"

definition SB_ELF_CLASS_64 :: u8 where
  "SB_ELF_CLASS_64 = 2"

definition SB_ELF_DATA_LSB :: u8 where
  "SB_ELF_DATA_LSB = 1"

definition SB_ELF_MACHINE_X86_64 :: u16 where
  "SB_ELF_MACHINE_X86_64 = 62"

definition SB_ELF_TYPE_EXEC :: u16 where
  "SB_ELF_TYPE_EXEC = 2"

definition SB_ELF_TYPE_DYN :: u16 where
  "SB_ELF_TYPE_DYN = 3"

definition SB_ELF_PT_LOAD :: u32 where
  "SB_ELF_PT_LOAD = 1"

section \<open>The validator\<close>

text \<open>The flag and the output: on overflow the output keeps its value.\<close>

definition u64_add_overflow :: "u64 \<Rightarrow> u64 \<Rightarrow> u64 \<Rightarrow> u64 \<times> u64" where
  "u64_add_overflow a b out = (if b > - 1 - a then (1, out) else (0, a + b))"

definition elf_magic :: "sb_elf64_header \<Rightarrow> u32" where
  "elf_magic header =
     ucast (e_ident header ! 0) OR push_bit 8 (ucast (e_ident header ! 1)) OR
     push_bit 16 (ucast (e_ident header ! 2)) OR push_bit 24 (ucast (e_ident header ! 3))"

definition header_rejected :: "sb_elf64_header \<Rightarrow> bool" where
  "header_rejected header \<longleftrightarrow>
     elf_magic header \<noteq> SB_ELF_MAGIC \<or> e_ident header ! 4 \<noteq> SB_ELF_CLASS_64 \<or>
     e_ident header ! 5 \<noteq> SB_ELF_DATA_LSB \<or> e_machine header \<noteq> SB_ELF_MACHINE_X86_64 \<or>
     (e_type header \<noteq> SB_ELF_TYPE_EXEC \<and> e_type header \<noteq> SB_ELF_TYPE_DYN) \<or> e_version header \<noteq> 1 \<or>
     unat (e_ehsize header) < sizeof_elf64_header \<or> unat (e_phentsize header) < sizeof_elf64_program_header"

definition program_header :: "memory \<Rightarrow> u64 \<Rightarrow> nat \<Rightarrow> sb_elf64_program_header" where
  "program_header m img i =
     (let header = elf64_header_at m img;
          offset = e_phoff header + of_nat i * ucast (e_phentsize header) in
      elf64_program_header_at m (img + offset))"

fun validate_loop :: "memory \<Rightarrow> u64 \<Rightarrow> u64 \<Rightarrow> nat list \<Rightarrow> int" where
  "validate_loop m img img_size [] = 0"
| "validate_loop m img img_size (i # is) =
     (let ph = program_header m img i in
      if p_type ph \<noteq> SB_ELF_PT_LOAD then validate_loop m img img_size is
      else if p_file_size ph > p_memory_size ph then -1
      else
        let (overflow, file_end) = u64_add_overflow (p_offset ph) (p_file_size ph) 0 in
        if overflow \<noteq> 0 \<or> file_end > img_size then -1 else validate_loop m img img_size is)"

definition elf64_validate :: "memory \<Rightarrow> u64 \<Rightarrow> u64 \<Rightarrow> u64 option \<Rightarrow> int \<times> u64 option" where
  "elf64_validate m img img_size header_out =
     (if img = 0 \<or> unat img_size < sizeof_elf64_header then (-1, header_out)
      else
        let header = elf64_header_at m img in
        if header_rejected header then (-1, header_out)
        else
          let (overflow, ph_end) =
                u64_add_overflow (e_phoff header) (ucast (e_phentsize header) * ucast (e_phnum header)) 0 in
          if e_phnum header \<noteq> 0 \<and> overflow \<noteq> 0 then (-1, header_out)
          else if e_phnum header \<noteq> 0 \<and> ph_end > img_size then (-1, header_out)
          else
            let r = validate_loop m img img_size [0..<unat (e_phnum header)] in
            if r \<noteq> 0 then (r, header_out) else (0, map_option (\<lambda>_. img) header_out))"

section \<open>What a valid img is\<close>

text \<open>
  The same conditions on unbounded numbers: the header and the table of program headers lie in the
  image, and so do the file bytes of every loadable segment.
\<close>

definition segment_valid :: "nat \<Rightarrow> sb_elf64_program_header \<Rightarrow> bool" where
  "segment_valid n ph \<longleftrightarrow>
     p_type ph = 1 \<longrightarrow> p_file_size ph \<le> p_memory_size ph \<and> unat (p_offset ph) + unat (p_file_size ph) \<le> n"

definition header_valid :: "sb_elf64_header \<Rightarrow> bool" where
  "header_valid h \<longleftrightarrow>
     take 6 (e_ident h) = [0x7F, 0x45, 0x4C, 0x46, 2, 1] \<and> e_machine h = 62 \<and> e_type h \<in> {2, 3} \<and>
     e_version h = 1 \<and> 64 \<le> e_ehsize h \<and> 56 \<le> e_phentsize h"

definition elf_valid :: "memory \<Rightarrow> u64 \<Rightarrow> nat \<Rightarrow> bool" where
  "elf_valid m img n \<longleftrightarrow>
     (let h = elf64_header_at m img in
      img \<noteq> 0 \<and> 64 \<le> n \<and> header_valid h \<and>
      (e_phnum h = 0 \<or> unat (e_phoff h) + unat (e_phentsize h) * unat (e_phnum h) \<le> n) \<and>
      (\<forall>i < unat (e_phnum h). segment_valid n (program_header m img i)))"

lemma add_overflow:
  "u64_add_overflow a b out = (if unat a + unat b < 2 ^ 64 then (0, a + b) else (1, out))"
proof -
  have "unat (- 1 - a) = 2 ^ 64 - 1 - unat a"
    using unat_sub [of a "- 1"] by (simp add: unsigned_minus_1_eq_mask mask_eq_exp_minus_1)
  then have "b > - 1 - a \<longleftrightarrow> \<not> unat a + unat b < 2 ^ 64"
    using unat_u64_less [of a] unat_u64_less [of b] by (simp add: word_less_nat_alt) linarith
  then show ?thesis by (simp add: u64_add_overflow_def)
qed

lemma add_overflow_check:
  "(case u64_add_overflow a b 0 of (overflow, e) \<Rightarrow> \<not> (overflow \<noteq> 0 \<or> e > n)) \<longleftrightarrow> unat a + unat b \<le> unat n"
  using unat_u64_less [of n] by (auto simp: add_overflow word_less_nat_alt not_less unat_add_small)

lemma validate_loop_zero:
  "validate_loop m img img_size is = (if \<forall>i \<in> set is. segment_valid (unat img_size) (program_header m img i) then 0 else -1)"
proof (induction "is")
  case (Cons i "is")
  let ?ph = "program_header m img i"
  show ?case
    using Cons add_overflow_check [where a = "p_offset ?ph" and b = "p_file_size ?ph" and n = img_size]
    by (auto simp: Let_def segment_valid_def SB_ELF_PT_LOAD_def not_less split: prod.splits)
qed simp

lemma magic_bytes:
  "elf_magic h = SB_ELF_MAGIC \<longleftrightarrow> e_ident h ! 0 = 0x7F \<and> e_ident h ! 1 = 0x45 \<and> e_ident h ! 2 = 0x4C \<and> e_ident h ! 3 = 0x46"
proof
  have hi: "\<not> bit (x :: u8) (8 + n)" "\<not> bit (x :: u8) (16 + n)" "\<not> bit (x :: u8) (24 + n)" for x n
    using bit_imp_le_length [of x] by fastforce+
  have "e_ident h ! 0 = ucast (elf_magic h)" "e_ident h ! 1 = ucast (drop_bit 8 (elf_magic h))"
    "e_ident h ! 2 = ucast (drop_bit 16 (elf_magic h))" "e_ident h ! 3 = ucast (drop_bit 24 (elf_magic h))"
    by (auto simp: elf_magic_def bit_simps hi intro!: bit_word_eqI)
  then show "elf_magic h = SB_ELF_MAGIC \<Longrightarrow>
      e_ident h ! 0 = 0x7F \<and> e_ident h ! 1 = 0x45 \<and> e_ident h ! 2 = 0x4C \<and> e_ident h ! 3 = 0x46"
    by (simp add: SB_ELF_MAGIC_def drop_bit_eq_div)
qed (simp add: elf_magic_def SB_ELF_MAGIC_def push_bit_eq_mult)

lemma validate_cases:
  "elf64_validate m img n out = (if elf_valid m img (unat n) then (0, map_option (\<lambda>_. img) out) else (-1, out))"
proof -
  let ?h = "elf64_header_at m img"
  have len: "length (e_ident ?h) = 16" by (simp add: elf64_header_at_def)
  then have t: "take 6 (e_ident ?h) = map ((!) (e_ident ?h)) [0, 1, 2, 3, 4, 5]"
    by (intro nth_equalityI) (auto simp: less_Suc_eq numeral_eq_Suc)
  have size_eqs: "unat (e_ehsize ?h) < 64 \<longleftrightarrow> \<not> 64 \<le> e_ehsize ?h" "unat (e_phentsize ?h) < 56 \<longleftrightarrow> \<not> 56 \<le> e_phentsize ?h"
    by (simp_all add: word_le_nat_alt not_le)
  have prod: "unat (ucast (e_phentsize ?h) * ucast (e_phnum ?h) :: u64) = unat (e_phentsize ?h) * unat (e_phnum ?h)"
  proof (subst unat_mult_small)
    have "unat (e_phentsize ?h) * unat (e_phnum ?h) \<le> 65536 * 65536"
      using unat_u16_less [of "e_phentsize ?h"] unat_u16_less [of "e_phnum ?h"] by (intro mult_mono) simp_all
    then show "unat (ucast (e_phentsize ?h) :: u64) * unat (ucast (e_phnum ?h) :: u64) < 2 ^ LENGTH(64)" by simp
  qed simp
  have rej: "header_rejected ?h \<longleftrightarrow> \<not> header_valid ?h"
    unfolding header_valid_def t by (simp add: header_rejected_def magic_bytes size_eqs SB_ELF_CLASS_64_def SB_ELF_DATA_LSB_def
        SB_ELF_MACHINE_X86_64_def SB_ELF_TYPE_EXEC_def SB_ELF_TYPE_DYN_def
        sizeof_elf64_header_def sizeof_elf64_program_header_def) argo
  obtain v e where ve: "u64_add_overflow (e_phoff ?h) (ucast (e_phentsize ?h) * ucast (e_phnum ?h)) 0 = (v, e)"
    by fastforce
  have tab: "\<not> (v \<noteq> 0 \<or> e > n) \<longleftrightarrow> unat (e_phoff ?h) + unat (e_phentsize ?h) * unat (e_phnum ?h) \<le> unat n"
    using add_overflow_check [where a = "e_phoff ?h" and b = "ucast (e_phentsize ?h) * ucast (e_phnum ?h)" and n = n]
    by (simp add: ve prod)
  show ?thesis
    unfolding elf64_validate_def elf_valid_def Let_def ve rej prod.case validate_loop_zero sizeof_elf64_header_def
    using tab by (auto simp: not_less)
qed

section \<open>Reads stay inside the image\<close>

definition same_bytes :: "memory \<Rightarrow> memory \<Rightarrow> u64 \<Rightarrow> nat \<Rightarrow> bool" where
  "same_bytes m m' img n \<longleftrightarrow> (\<forall>k < n. m' (img + of_nat k) = m (img + of_nat k))"

lemma same_bytes_load:
  assumes "same_bytes m m' img n"
  shows "k + 2 \<le> n \<Longrightarrow> load16 m' (img + of_nat k) = load16 m (img + of_nat k)"
    and "k + 4 \<le> n \<Longrightarrow> load32 m' (img + of_nat k) = load32 m (img + of_nat k)"
    and "k + 8 \<le> n \<Longrightarrow> load64 m' (img + of_nat k) = load64 m (img + of_nat k)"
proof -
  have "m' (img + of_nat k + of_nat i) = m (img + of_nat k + of_nat i)" if "k + i < n" for i
    using that assms [unfolded same_bytes_def, rule_format, of "k + i"] by (simp add: add.assoc)
  then show "k + 2 \<le> n \<Longrightarrow> load16 m' (img + of_nat k) = load16 m (img + of_nat k)"
    "k + 4 \<le> n \<Longrightarrow> load32 m' (img + of_nat k) = load32 m (img + of_nat k)"
    "k + 8 \<le> n \<Longrightarrow> load64 m' (img + of_nat k) = load64 m (img + of_nat k)"
    unfolding load16_def load32_def load64_def by (intro load_le_cong; simp)+
qed

lemma same_bytes_sub: "same_bytes m m' img n \<Longrightarrow> k + l \<le> n \<Longrightarrow> same_bytes m m' (img + of_nat k) l"
  unfolding same_bytes_def
proof (intro allI impI)
  fix i assume a: "\<forall>k<n. m' (img + of_nat k) = m (img + of_nat k)" "k + l \<le> n" "i < l"
  then show "m' (img + of_nat k + of_nat i) = m (img + of_nat k + of_nat i)"
    using a(1) [rule_format, of "k + i"] by (simp add: add.assoc)
qed

lemma same_bytes_header:
  assumes "same_bytes m m' img n" "64 \<le> n"
  shows "elf64_header_at m' img = elf64_header_at m img"
proof -
  note l = same_bytes_load [OF assms(1)]
  have "m' (img + of_nat i) = m (img + of_nat i)" if "i < 16" for i
    using assms that by (simp add: same_bytes_def)
  moreover note l(1) [of 16] l(1) [of 18] l(2) [of 20] l(3) [of 24] l(3) [of 32] l(3) [of 40] l(2) [of 48]
    l(1) [of 52] l(1) [of 54] l(1) [of 56] l(1) [of 58] l(1) [of 60] l(1) [of 62]
  ultimately show ?thesis using assms(2) by (simp add: elf64_header_at_def)
qed

lemma same_bytes_ph:
  assumes "same_bytes m m' p 56"
  shows "elf64_program_header_at m' p = elf64_program_header_at m p"
proof -
  note l = same_bytes_load [OF assms]
  note l(2) [of 0] l(2) [of 4] l(3) [of 8] l(3) [of 16] l(3) [of 24] l(3) [of 32] l(3) [of 40] l(3) [of 48]
  then show ?thesis by (simp add: elf64_program_header_at_def)
qed

lemma program_header_inside:
  assumes "i < unat (e_phnum h)" "56 \<le> e_phentsize h"
    and "unat (e_phoff h) + unat (e_phentsize h) * unat (e_phnum h) \<le> n"
  shows "unat (e_phoff h) + i * unat (e_phentsize h) + 56 \<le> n"
proof -
  have "unat (e_phentsize h) * Suc i \<le> unat (e_phentsize h) * unat (e_phnum h)"
    using assms(1) by (intro mult_le_mono2) simp
  moreover have "56 \<le> unat (e_phentsize h)" using assms(2) by (simp add: word_le_nat_alt)
  ultimately show ?thesis using assms(3) by (simp add: algebra_simps)
qed

lemma same_bytes_program_header:
  assumes "same_bytes m m' img n" "64 \<le> n" "i < unat (e_phnum (elf64_header_at m img))"
    and "56 \<le> e_phentsize (elf64_header_at m img)"
    and "unat (e_phoff (elf64_header_at m img)) +
      unat (e_phentsize (elf64_header_at m img)) * unat (e_phnum (elf64_header_at m img)) \<le> n"
  shows "program_header m' img i = program_header m img i"
proof -
  let ?h = "elf64_header_at m img"
  let ?k = "unat (e_phoff ?h) + i * unat (e_phentsize ?h)"
  have "of_nat ?k = e_phoff ?h + of_nat i * ucast (e_phentsize ?h)" by (simp add: of_nat_unat)
  moreover have "same_bytes m m' (img + of_nat ?k) 56"
    using same_bytes_sub [OF assms(1)] program_header_inside [OF assms(3-5)] by blast
  ultimately show ?thesis
    using same_bytes_ph same_bytes_header [OF assms(1,2)] by (simp add: program_header_def Let_def)
qed

lemma same_bytes_valid:
  assumes "same_bytes m m' img n"
  shows "elf_valid m' img n \<longleftrightarrow> elf_valid m img n"
proof (cases "64 \<le> n \<and> header_valid (elf64_header_at m img)")
  case True
  note h = same_bytes_header [OF assms conjunct1 [OF True]]
  have "56 \<le> e_phentsize (elf64_header_at m img)" using True by (simp add: header_valid_def)
  with same_bytes_program_header [OF assms] True show ?thesis
    unfolding elf_valid_def Let_def h by (metis less_nat_zero_code unat_0)
next
  case False
  then show ?thesis using same_bytes_header [OF assms] by (auto simp: elf_valid_def Let_def)
qed

section \<open>Properties\<close>

text \<open>
  C35. \<open>elf64_validate\<close> accepts exactly the valid images, where the conditions are
  stated on unbounded numbers: the wrap-around checks reject every image for which a sum does not
  fit into 64 bits. The header pointer is stored only on success and if the caller asked for it.
\<close>

theorem elf_validate_exact:
  "elf64_validate m img n out = (if elf_valid m img (unat n) then (0, map_option (\<lambda>_. img) out) else (-1, out))"
  by (rule validate_cases)


text \<open>A file with one loadable segment: 124 bytes in the file, two pages in memory.\<close>

definition sample_elf :: "u8 list" where
  "sample_elf =
     [0x7F, 0x45, 0x4C, 0x46, 2, 1, 1, 0, 0, 0, 0, 0, 0, 0, 0, 0] @
     [2, 0, 62, 0, 1, 0, 0, 0] @ [0x78, 0, 0, 0, 0x80, 0, 0, 0] @ [64, 0, 0, 0, 0, 0, 0, 0] @
     [0, 0, 0, 0, 0, 0, 0, 0] @ [0, 0, 0, 0] @ [64, 0, 56, 0, 1, 0, 0, 0, 0, 0, 0, 0] @
     [1, 0, 0, 0, 5, 0, 0, 0] @ [0, 0, 0, 0, 0, 0, 0, 0] @ [0, 0, 0, 0, 0x80, 0, 0, 0] @
     [0, 0, 0, 0, 0, 0, 0, 0] @ [124, 0, 0, 0, 0, 0, 0, 0] @ [0, 0x11, 0, 0, 0, 0, 0, 0] @
     [0, 0x10, 0, 0, 0, 0, 0, 0] @ [0xCD, 0x80, 0xEB, 0xFE]"

definition sample_elf_memory :: memory where
  "sample_elf_memory = bytes_at 0x2000 sample_elf"

lemmas sample_elf_simps = sample_elf_memory_def bytes_at_def sample_elf_def elf64_header_at_def
  elf64_program_header_at_def load16_bytes load32_bytes load64_bytes

lemma sample_elf_header:
  "e_phnum (elf64_header_at sample_elf_memory 0x2000) = 1" "e_phoff (elf64_header_at sample_elf_memory 0x2000) = 64"
  "e_phentsize (elf64_header_at sample_elf_memory 0x2000) = 56" "e_entry (elf64_header_at sample_elf_memory 0x2000) = 0x8000000078"
  "e_type (elf64_header_at sample_elf_memory 0x2000) = 2" "header_valid (elf64_header_at sample_elf_memory 0x2000)"
  by (simp_all add: sample_elf_simps header_valid_def upt_conv_Cons)

lemma sample_elf_segment:
  "program_header sample_elf_memory 0x2000 0 =
     \<lparr>p_type = 1, p_flags = 5, p_offset = 0, p_virtual_address = 0x8000000000, p_physical_address = 0,
      p_file_size = 124, p_memory_size = 0x1100, p_align = 0x1000\<rparr>"
  unfolding program_header_def sample_elf_header by (simp add: sample_elf_simps)

lemma sample_elf_valid: "elf_valid sample_elf_memory 0x2000 124"
  by (simp add: elf_valid_def sample_elf_header sample_elf_segment segment_valid_def)


end
