(* ===== verification/Elf_Loader.thy ===== *)
theory Elf_Loader
  imports Elf User_Space
begin

text \<open>
  The ELF loader, \<^verbatim>\<open>kernel/elf_loader.c\<close>. Headers are read from memory each time the code does, so
  the effect of the pages written meanwhile is part of the model. A loop over pages that never
  ends has no result. The abstract loader says what the program sees afterwards: every byte of
  every loadable segment with its permissions.
\<close>

section \<open>Operations\<close>

definition PF_X :: u32 where
  "PF_X = 1"

definition PF_W :: u32 where
  "PF_W = 2"

definition SB_PAGE_MASK :: u64 where
  "SB_PAGE_MASK = NOT (SB_PAGE_SIZE - 1)"

definition elf_align_down :: "u64 \<Rightarrow> u64" where
  "elf_align_down v = v AND SB_PAGE_MASK"

definition align_up_checked :: "u64 \<Rightarrow> u64 \<Rightarrow> u64 \<times> u64" where
  "align_up_checked v out =
     (if v > - 1 - (SB_PAGE_SIZE - 1) then (1, out) else (0, (v + (SB_PAGE_SIZE - 1)) AND SB_PAGE_MASK))"

definition range_end :: "u64 \<Rightarrow> u64 \<Rightarrow> u64 \<Rightarrow> u64 \<times> u64" where
  "range_end start len out = (if len > - 1 - start then (1, out) else (0, start + len))"

definition load_bias :: "sb_elf64_header \<Rightarrow> u64" where
  "load_bias header = (if e_type header = SB_ELF_TYPE_DYN then SB_USER_BASE - elf_align_down (e_entry header) else 0)"

definition segment_flags :: "sb_elf64_program_header \<Rightarrow> u64" where
  "segment_flags ph =
     (let flags = SB_VMM_USER;
          flags = (if p_flags ph AND PF_W \<noteq> 0 then flags OR SB_VMM_WRITABLE else flags) in
      if p_flags ph AND PF_X = 0 then flags OR SB_VMM_NX else flags)"

definition zero_bytes :: "u64 \<Rightarrow> memory \<Rightarrow> memory" where
  "zero_bytes dst m = fold (\<lambda>j m. m(dst + of_nat j := 0)) [0..<unat SB_PAGE_SIZE] m"

definition copy_file :: "u64 \<Rightarrow> u64 \<Rightarrow> nat \<Rightarrow> memory \<Rightarrow> memory" where
  "copy_file dst src n m = fold (\<lambda>j m. m(dst + of_nat j := m (src + of_nat j))) [0..<n] m"

text \<open>The part of the segment's file bytes that falls into the page, and its copy.\<close>

definition copy_part ::
    "u64 \<Rightarrow> u64 \<Rightarrow> sb_elf64_program_header \<Rightarrow> u64 \<Rightarrow> u64 \<Rightarrow> u64 \<Rightarrow> u64 \<Rightarrow> u64 \<Rightarrow> memory \<Rightarrow> int \<times> memory" where
  "copy_part img img_size h segment_file_end virtual_start virtual_end va dst m =
     (if va < virtual_end \<and> va + SB_PAGE_SIZE > virtual_start then
        let copy_start = (if va > virtual_start then va else virtual_start);
            copy_end = (if va + SB_PAGE_SIZE < virtual_start + p_file_size h then va + SB_PAGE_SIZE
                        else virtual_start + p_file_size h) in
        if copy_end > copy_start \<and> copy_start \<ge> virtual_start \<and> copy_end \<le> virtual_start + p_file_size h then
          let page_file_start = p_offset h + (copy_start - virtual_start);
              page_file_end = p_offset h + (copy_end - virtual_start) in
          if page_file_start < p_offset h \<or> page_file_end > segment_file_end \<or> page_file_end > img_size then (-1, m)
          else (0, copy_file (dst + (copy_start - va)) (img + page_file_start)
                     (unat (page_file_end - page_file_start)) m)
        else (0, m)
      else (0, m))"

definition load_page ::
    "address_space \<Rightarrow> u64 \<Rightarrow> u64 \<Rightarrow> u64 \<Rightarrow> u64 \<Rightarrow> u64 \<Rightarrow> u64 \<Rightarrow> u64 \<Rightarrow> machine \<Rightarrow> int \<times> machine" where
  "load_page sp img img_size ph virtual_start virtual_end flags va M =
     (let (page, p) = kpmm_alloc_page (kpmm M); M = M\<lparr>kpmm := p\<rparr> in
      if page = 0 then (-1, M)
      else
        let M = M\<lparr>mem := zero_bytes page (mem M)\<rparr>;
            h = elf64_program_header_at (mem M) ph;
            (overflow, segment_file_end) = range_end (p_offset h) (p_file_size h) 0 in
        if overflow \<noteq> 0 then (-1, M)
        else
          let (r, m) = copy_part img img_size h segment_file_end virtual_start virtual_end va page (mem M);
              M = M\<lparr>mem := m\<rparr> in
          if r \<noteq> 0 then (-1, M)
          else
            let (r, M) = address_space_map_user (Some sp) va page flags M in
            if r \<noteq> 0 then (-1, M\<lparr>kpmm := kpmm_free_page page (kpmm M)\<rparr>) else (0, M))"

partial_function (option) page_loop ::
    "address_space \<Rightarrow> u64 \<Rightarrow> u64 \<Rightarrow> u64 \<Rightarrow> u64 \<Rightarrow> u64 \<Rightarrow> u64 \<Rightarrow> u64 \<Rightarrow> u64 \<Rightarrow> u64 \<Rightarrow> bool \<Rightarrow> machine \<Rightarrow>
     (int \<times> bool \<times> machine) option" where
  "page_loop sp img img_size bias ph virtual_start virtual_end map_end flags va entry_mapped M =
     (if va < map_end then
        (case load_page sp img img_size ph virtual_start virtual_end flags va M of (r, M) \<Rightarrow>
           if r \<noteq> 0 then Some (r, entry_mapped, M)
           else
             let page_end = va + SB_PAGE_SIZE;
                 entry_virtual = bias + e_entry (elf64_header_at (mem M) img);
                 entry_mapped = (entry_mapped \<or> (entry_virtual \<ge> va \<and> entry_virtual < page_end)) in
             page_loop sp img img_size bias ph virtual_start virtual_end map_end flags (va + SB_PAGE_SIZE)
               entry_mapped M)
      else Some (0, entry_mapped, M))"

definition load_segment ::
    "address_space \<Rightarrow> u64 \<Rightarrow> u64 \<Rightarrow> u64 \<Rightarrow> nat \<Rightarrow> bool \<Rightarrow> machine \<Rightarrow> (int \<times> bool \<times> machine) option" where
  "load_segment sp img img_size bias i entry_mapped M =
     (let header = elf64_header_at (mem M) img;
          ph = img + (e_phoff header + of_nat i * ucast (e_phentsize header));
          h = elf64_program_header_at (mem M) ph in
      if p_type h \<noteq> SB_ELF_PT_LOAD \<or> p_memory_size h = 0 then Some (0, entry_mapped, M)
      else
        let (start_overflow, virtual_start) = range_end bias (p_virtual_address h) 0;
            (end_overflow, virtual_end) = range_end virtual_start (p_memory_size h) 0 in
        if start_overflow \<noteq> 0 \<or> end_overflow \<noteq> 0 \<or> virtual_start < SB_USER_BASE \<or> virtual_end > SB_USER_LIMIT \<or>
           virtual_end \<le> virtual_start
        then Some (-1, entry_mapped, M)
        else
          let map_start = elf_align_down virtual_start;
              (up_overflow, map_end) = align_up_checked virtual_end 0 in
          if up_overflow \<noteq> 0 then Some (-1, entry_mapped, M)
          else page_loop sp img img_size bias ph virtual_start virtual_end map_end (segment_flags h) map_start
                 entry_mapped M)"

lemma phnum_less: "i < unat (e_phnum h) \<Longrightarrow> 65535 - i < 65536 - i"
  using unat_u16_less [of "e_phnum h"] by simp

function segment_loop ::
    "address_space \<Rightarrow> u64 \<Rightarrow> u64 \<Rightarrow> u64 \<Rightarrow> nat \<Rightarrow> bool \<Rightarrow> machine \<Rightarrow> (int \<times> bool \<times> machine) option" where
  "segment_loop sp img img_size bias i entry_mapped M =
     (if i < unat (e_phnum (elf64_header_at (mem M) img)) then
        (case load_segment sp img img_size bias i entry_mapped M of
           None \<Rightarrow> None
         | Some (r, entry_mapped, M) \<Rightarrow>
             if r \<noteq> 0 then Some (r, entry_mapped, M)
             else segment_loop sp img img_size bias (Suc i) entry_mapped M)
      else Some (0, entry_mapped, M))"
  by pat_completeness auto
termination
  by (relation "measure (\<lambda>(_, _, _, _, i, _, _). 65536 - i)")
     (auto intro: phnum_less)

declare segment_loop.simps [simp del]

definition elf64_load_image ::
    "address_space option \<Rightarrow> u64 \<Rightarrow> u64 \<Rightarrow> u64 option \<Rightarrow> machine \<Rightarrow> (int \<times> u64 option \<times> machine) option" where
  "elf64_load_image space img img_size entry_point M =
     (case space of None \<Rightarrow> Some (-1, entry_point, M)
      | Some sp \<Rightarrow>
          let (r, header) = elf64_validate (mem M) img img_size (Some 0) in
          if r \<noteq> 0 then Some (-1, entry_point, M)
          else
            let bias = load_bias (elf64_header_at (mem M) img) in
            case segment_loop sp img img_size bias 0 False M of
              None \<Rightarrow> None
            | Some (r, entry_mapped, M) \<Rightarrow>
                if r \<noteq> 0 then Some (-1, entry_point, M)
                else if \<not> entry_mapped then Some (-1, entry_point, M)
                else Some (0, map_option (\<lambda>_. bias + e_entry (elf64_header_at (mem M) img)) entry_point, M))"

section \<open>Filling a page\<close>

lemma word_offset_eq: "(b = dst + of_nat n) \<longleftrightarrow> unat (b - dst) = n" if "n < 2 ^ 64" for b dst :: u64
proof
  assume "unat (b - dst) = n"
  then have "of_nat n = b - dst" by auto
  then show "b = dst + of_nat n" by simp
qed (use that in \<open>simp add: unat_of_nat_small\<close>)

lemma zero_bytes_apply: "zero_bytes dst m b = (if unat (b - dst) < 4096 then 0 else m b)"
proof -
  have "fold (\<lambda>j m. m(dst + of_nat j := 0)) [0..<n] m b = (if unat (b - dst) < n then 0 else m b)" if "n < 2 ^ 64" for n
    using that
  proof (induction n)
    case (Suc n)
    then show ?case using word_offset_eq [of n b dst] by (auto simp: less_Suc_eq)
  qed simp
  from this [of 4096] show ?thesis by (simp add: zero_bytes_def)
qed

lemma copy_file_frame: "n < 2 ^ 64 \<Longrightarrow> \<not> unat (b - dst) < n \<Longrightarrow> copy_file dst src n m b = m b"
proof (induction n)
  case (Suc n)
  then show ?case using word_offset_eq [of n b dst] by (auto simp: copy_file_def)
qed (simp add: copy_file_def)

lemma copy_file_apply:
  assumes "n < 2 ^ 64" "\<And>j. j < n \<Longrightarrow> \<not> unat (src + of_nat j - dst) < n"
  shows "copy_file dst src n m b = (if unat (b - dst) < n then m (src + (b - dst)) else m b)"
proof -
  have "copy_file dst src k m b = (if unat (b - dst) < k then m (src + (b - dst)) else m b)" if "k \<le> n" for k b
    using that
  proof (induction k arbitrary: b)
    case (Suc k)
    have "\<not> unat (src + of_nat k - dst) < k" using assms(2) [of k] Suc.prems by linarith
    then have src: "copy_file dst src k m (src + of_nat k) = m (src + of_nat k)" using Suc by simp
    have "copy_file dst src (Suc k) m = (copy_file dst src k m)(dst + of_nat k := copy_file dst src k m (src + of_nat k))"
      by (simp add: copy_file_def)
    then show ?case
      using Suc src word_offset_eq [of k b dst] assms(1) by (auto simp: less_Suc_eq)
  qed (simp add: copy_file_def)
  then show ?thesis by simp
qed

lemma page_of_diff: "page_aligned c \<Longrightarrow> page_of b = c \<longleftrightarrow> unat (b - c) < 4096"
proof
  assume c: "page_aligned c"
  have "unat (b AND PAGE_OFFSET_MASK) < 4096"
    using unat_and_mask [of b 12] by (simp add: PAGE_OFFSET_MASK_def mask_eq_exp_minus_1)
  moreover have "b - page_of b = b AND PAGE_OFFSET_MASK" using page_plus_offset [of b] by (simp add: algebra_simps)
  ultimately show "page_of b = c \<Longrightarrow> unat (b - c) < 4096" by metis
  assume "unat (b - c) < 4096"
  with page_of_offset [OF c this] show "page_of b = c" by simp
qed

definition seg_fill :: "u64 \<Rightarrow> sb_elf64_program_header \<Rightarrow> u64 \<Rightarrow> u64 \<Rightarrow> u64 \<Rightarrow> memory \<Rightarrow> memory" where
  "seg_fill img h vs va c m =
     (let cs = max va vs; ce = min (va + SB_PAGE_SIZE) (vs + p_file_size h) in
      if cs < ce
      then copy_file (c + (cs - va)) (img + (p_offset h + (cs - vs))) (unat (ce - cs)) (zero_bytes c m)
      else zero_bytes c m)"

text \<open>The byte of a segment at an address: from the file, and zero beyond the file's part.\<close>

definition seg_byte :: "memory \<Rightarrow> u64 \<Rightarrow> u64 \<Rightarrow> sb_elf64_program_header \<Rightarrow> u64 \<Rightarrow> u8" where
  "seg_byte m img vs h a =
     (if vs \<le> a \<and> unat a < unat vs + unat (p_file_size h) then m (img + (p_offset h + (a - vs))) else 0)"

definition seg_page :: "sb_elf64_program_header \<Rightarrow> nat \<Rightarrow> u64 \<Rightarrow> u64 \<Rightarrow> bool" where
  "seg_page h n vs va \<longleftrightarrow>
     page_aligned va \<and> unat va + 4096 \<le> 2 ^ 47 \<and> unat va < unat vs + unat (p_memory_size h) \<and> unat vs < unat va + 4096 \<and>
     unat vs + unat (p_memory_size h) \<le> 2 ^ 47 \<and> p_file_size h \<le> p_memory_size h \<and>
     unat (p_offset h) + unat (p_file_size h) \<le> n"

lemma seg_window:
  assumes "seg_page h n vs va"
  defines "cs \<equiv> max va vs" and "ce \<equiv> min (va + SB_PAGE_SIZE) (vs + p_file_size h)"
  shows "unat (va + SB_PAGE_SIZE) = unat va + 4096" "unat (vs + p_file_size h) = unat vs + unat (p_file_size h)"
    "unat cs = max (unat va) (unat vs)" "unat ce = min (unat va + 4096) (unat vs + unat (p_file_size h))"
    "unat (cs - va) = unat cs - unat va" "unat (cs - vs) = unat cs - unat vs"
    "cs < ce \<Longrightarrow> unat (ce - cs) = unat ce - unat cs"
    "cs < ce \<Longrightarrow> unat (ce - vs) = unat ce - unat vs"
    "cs < ce \<Longrightarrow> unat (cs - va) + unat (ce - cs) \<le> 4096"
    "cs < ce \<Longrightarrow> unat (p_offset h) + unat (cs - vs) + unat (ce - cs) \<le> n"
proof -
  have m: "unat (max x y) = max (unat x) (unat y)" "unat (min x y) = min (unat x) (unat y)" for x y :: u64
    by (simp_all add: max_def min_def word_le_nat_alt)
  have p: "unat va + 4096 \<le> 2 ^ 47" "unat vs + unat (p_memory_size h) \<le> 2 ^ 47" "unat (p_file_size h) \<le> unat (p_memory_size h)"
    "unat (p_offset h) + unat (p_file_size h) \<le> n"
    using assms(1) by (simp_all add: seg_page_def word_le_nat_alt)
  show a: "unat (va + SB_PAGE_SIZE) = unat va + 4096" "unat (vs + p_file_size h) = unat vs + unat (p_file_size h)"
    using p by (simp_all add: unat_add_small)
  then show b: "unat cs = max (unat va) (unat vs)" "unat ce = min (unat va + 4096) (unat vs + unat (p_file_size h))"
    by (simp_all add: cs_def ce_def m)
  show c: "unat (cs - va) = unat cs - unat va" "unat (cs - vs) = unat cs - unat vs"
    by (intro unat_sub; simp add: cs_def)+
  assume l: "cs < ce"
  show d: "unat (ce - cs) = unat ce - unat cs" using l by (intro unat_sub) simp
  have "vs \<le> ce" using l by (simp add: cs_def less_imp_le)
  then show e: "unat (ce - vs) = unat ce - unat vs" by (intro unat_sub) simp
  show "unat (cs - va) + unat (ce - cs) \<le> 4096" unfolding c d using b l [unfolded word_less_nat_alt] by linarith
  show "unat (p_offset h) + unat (cs - vs) + unat (ce - cs) \<le> n"
    unfolding c d using b p l [unfolded word_less_nat_alt] by linarith
qed

lemma seg_fill_frame:
  assumes "seg_page h n vs va"
  shows "fills_page (seg_fill img h vs va)"
  unfolding fills_page_def
proof (intro allI impI)
  fix c m b assume c: "page_aligned c" "page_of b \<noteq> c"
  let ?cs = "max va vs" and ?ce = "min (va + SB_PAGE_SIZE) (vs + p_file_size h)"
  have nb: "\<not> unat (b - c) < 4096" using c page_of_diff by blast
  have "\<not> unat (b - (c + (?cs - va))) < unat (?ce - ?cs)" if "?cs < ?ce"
  proof
    assume l: "unat (b - (c + (?cs - va))) < unat (?ce - ?cs)"
    have "unat (?cs - va) + unat (b - (c + (?cs - va))) < 4096" using l seg_window(9) [OF assms that] by linarith
    then have "unat ((?cs - va) + (b - (c + (?cs - va)))) < 4096" by (subst unat_add_small) simp_all
    with nb show False by simp
  qed
  then show "seg_fill img h vs va c m b = m b"
    using nb unat_u64_less [of "?ce - ?cs"] by (simp add: seg_fill_def Let_def copy_file_frame zero_bytes_apply)
qed

lemma in_window:
  fixes a cs ce :: u64
  assumes "cs < ce"
  shows "unat (a - cs) < unat (ce - cs) \<longleftrightarrow> cs \<le> a \<and> a < ce"
proof (cases "cs \<le> a")
  case True
  then show ?thesis
    using assms unat_sub [of cs a] unat_sub [of cs ce] by (auto simp: word_less_nat_alt word_le_nat_alt less_imp_le)
next
  case False
  have "unat (ce - cs) = unat ce - unat cs" using assms by (intro unat_sub) simp
  moreover have "unat (a - cs) = 2 ^ 64 + unat a - unat cs"
    using False unat_sub_if_size [of a cs] by (simp add: word_le_nat_alt word_size) 
  ultimately show ?thesis using False unat_u64_less [of ce] by (simp add: word_le_nat_alt)
qed

lemma unat_add_le: "unat (x + y :: u64) \<le> unat x + unat y"
  by (simp add: unat_word_ariths(1))

lemma image_byte_page:
  assumes "\<forall>k < n. page_of (img + of_nat k) \<noteq> c" "unat d < n"
  shows "page_of (img + d) \<noteq> c"
  using assms(1) [rule_format, OF assms(2)] by simp

lemma seg_fill_content:
  assumes "seg_page h n vs va" "page_aligned c" "\<forall>k < n. page_of (img + of_nat k) \<noteq> c" "page_of a = va"
  shows "seg_fill img h vs va c m (c + (a AND PAGE_OFFSET_MASK)) = seg_byte m img vs h a"
proof -
  let ?cs = "max va vs" and ?ce = "min (va + SB_PAGE_SIZE) (vs + p_file_size h)"
  let ?b = "c + (a - va)" and ?src = "img + (p_offset h + (?cs - vs))" and ?dst = "c + (?cs - va)"
  note w = seg_window [OF assms(1)]
  have va: "page_aligned va" using assms(1) by (simp add: seg_page_def)
  have off: "a AND PAGE_OFFSET_MASK = a - va" using page_plus_offset [of a] assms(4) by (simp add: algebra_simps)
  have a0: "unat (a - va) < 4096" using page_of_diff [OF va] assms(4) by blast
  have "unat va \<le> unat a" using assms(4) unat_page_of [of a] by (metis div_times_less_eq_dividend)
  then have a1: "va \<le> a" "unat a < unat va + 4096"
    using a0 unat_sub [of va a] by (simp_all add: word_le_nat_alt)
  then have a2: "a < va + SB_PAGE_SIZE" using w(1) by (simp add: word_less_nat_alt)
  have range: "vs \<le> a \<and> unat a < unat vs + unat (p_file_size h) \<longleftrightarrow> ?cs \<le> a \<and> a < ?ce"
    using a1 a2 w(2) word_less_nat_alt [of a "vs + p_file_size h"] by auto
  have zero: "zero_bytes c m x = (if page_of x = c then 0 else m x)" for x
    using page_of_diff [OF assms(2)] by (simp add: zero_bytes_apply)
  have zb: "zero_bytes c m ?b = 0" using a0 by (simp add: zero_bytes_apply)
  show ?thesis
  proof (cases "?cs < ?ce")
    case False
    then show ?thesis using range zb by (auto simp: seg_fill_def Let_def seg_byte_def off)
  next
    case True
    have apart: "page_of (?src + of_nat j) \<noteq> c" if "j < unat (?ce - ?cs)" for j
    proof -
      have "unat (of_nat j :: u64) = j" using that unat_u64_less [of "?ce - ?cs"] by (intro unat_of_nat_small) simp
      then have "unat (p_offset h + (?cs - vs) + of_nat j) \<le> unat (p_offset h) + unat (?cs - vs) + j"
        using unat_add_le [of "p_offset h + (?cs - vs)" "of_nat j"] unat_add_le [of "p_offset h" "?cs - vs"] by linarith
      then have "unat (p_offset h + (?cs - vs) + of_nat j) < n" using that w(10) [OF True] by linarith
      from image_byte_page [OF assms(3) this] show ?thesis by (simp add: add.assoc)
    qed
    have dis: "\<not> unat (?src + of_nat j - ?dst) < unat (?ce - ?cs)" if "j < unat (?ce - ?cs)" for j
    proof
      assume l: "unat (?src + of_nat j - ?dst) < unat (?ce - ?cs)"
      then have "unat (?cs - va) + unat (?src + of_nat j - ?dst) < 4096" using w(9) [OF True] by linarith
      then have "unat ((?cs - va) + (?src + of_nat j - ?dst)) < 4096" by (subst unat_add_small) simp_all
      then have "unat (?src + of_nat j - c) < 4096" by (simp add: algebra_simps)
      with apart [OF that] page_of_diff [OF assms(2)] show False by blast
    qed
    have bd: "?b - ?dst = a - ?cs" by simp
    have "seg_fill img h vs va c m ?b =
        (if ?cs \<le> a \<and> a < ?ce then zero_bytes c m (?src + (a - ?cs)) else 0)"
      using True copy_file_apply [OF _ dis, of "zero_bytes c m" ?b] unat_u64_less [of "?ce - ?cs"]
        in_window [OF True, of a] zb bd by (simp add: seg_fill_def Let_def)
    moreover have "zero_bytes c m (?src + (a - ?cs)) = m (img + (p_offset h + (a - vs)))" if "?cs \<le> a \<and> a < ?ce"
      using apart [of "unat (a - ?cs)"] that in_window [OF True, of a] zero by (simp add: algebra_simps)
    ultimately show ?thesis using range by (simp add: seg_byte_def off)
  qed
qed

lemma range_end_eq: "range_end a b out = (if unat a + unat b < 2 ^ 64 then (0, a + b) else (1, out))"
  using add_overflow [of a b out] by (simp add: range_end_def u64_add_overflow_def)

lemma load_page_fresh:
  assumes "seg_page h (unat img_size) vs va" "unat ve = unat vs + unat (p_memory_size h)" "kpmm_ok (kpmm M)"
    and "\<forall>c \<in> kpmm_avail (kpmm M). elf64_program_header_at (zero_bytes c (mem M)) ph = h"
  shows "load_page sp img img_size ph vs ve flags va M = fresh_page sp va flags (seg_fill img h vs va) M"
proof -
  obtain c p where al: "kpmm_alloc_page (kpmm M) = (c, p)" by fastforce
  define cs where "cs = max va vs"
  define ce where "ce = min (va + SB_PAGE_SIZE) (vs + p_file_size h)"
  let ?ps = "p_offset h + (cs - vs)" and ?pe = "p_offset h + (ce - vs)"
  note w = seg_window [OF assms(1), folded cs_def ce_def]
  have s: "unat (p_offset h) + unat (p_file_size h) \<le> unat img_size" "unat va < unat ve" "unat vs < unat va + 4096"
    using assms(1,2) by (simp_all add: seg_page_def)
  then have guard: "va < ve \<and> va + SB_PAGE_SIZE > vs" using w(1) by (simp add: word_less_nat_alt)
  have re: "range_end (p_offset h) (p_file_size h) 0 = (0, p_offset h + p_file_size h)"
    using s(1) unat_u64_less [of img_size] by (simp add: range_end_eq)
  have cs: "(if vs < va then va else vs) = cs"
    and ce: "(if va + SB_PAGE_SIZE < vs + p_file_size h then va + SB_PAGE_SIZE else vs + p_file_size h) = ce"
    by (auto simp: cs_def ce_def max_def min_def)
  have csv: "vs \<le> cs" "ce \<le> vs + p_file_size h" by (simp_all add: cs_def ce_def)
  have fsum: "unat (p_offset h + p_file_size h) = unat (p_offset h) + unat (p_file_size h)"
    using s(1) unat_u64_less [of img_size] by (simp add: unat_add_small)
  have checks: "\<not> ?ps < p_offset h" "\<not> p_offset h + p_file_size h < ?pe" "\<not> img_size < ?pe" "?pe - ?ps = ce - cs" if "cs < ce"
  proof -
    have l: "unat (cs - vs) \<le> unat (p_file_size h)" "unat (ce - vs) \<le> unat (p_file_size h)"
      using w(3,4,6) w(8) [OF that] that [unfolded word_less_nat_alt] by linarith+
    have u: "unat ?ps = unat (p_offset h) + unat (cs - vs)" "unat ?pe = unat (p_offset h) + unat (ce - vs)"
      using l s(1) unat_u64_less [of img_size] by (simp_all add: unat_add_small)
    show "\<not> ?ps < p_offset h" "\<not> p_offset h + p_file_size h < ?pe" "\<not> img_size < ?pe"
      using l s(1) u fsum by (simp_all add: word_less_nat_alt)
    show "?pe - ?ps = ce - cs" by simp
  qed
  have part: "copy_part img img_size h (p_offset h + p_file_size h) vs ve va c (zero_bytes c m) =
      (0, seg_fill img h vs va c m)" for m
    using checks guard csv
    by (cases "cs < ce") (simp_all add: copy_part_def seg_fill_def Let_def cs ce flip: cs_def ce_def)
  show ?thesis
  proof (cases "c = 0")
    case False
    then have "elf64_program_header_at (zero_bytes c (mem M)) ph = h"
      using kp.alloc_nonnull(1) [OF assms(3) al] assms(4) by blast
    then show ?thesis using False by (simp add: load_page_def fresh_page_def al re part)
  qed (simp add: al load_page_def fresh_page_def)
qed

section \<open>The image stays as it is\<close>

definition image_apart :: "address_space \<Rightarrow> u64 \<Rightarrow> nat \<Rightarrow> machine \<Rightarrow> bool" where
  "image_apart sp img n M \<longleftrightarrow> (\<forall>k < n. page_of (img + of_nat k) \<notin> kpmm_avail (kpmm M) \<union> space_tables sp M)"

lemma image_apart_grow:
  assumes "image_apart sp img n M" "space_grow sp M M'"
  shows "image_apart sp img n M'" "same_bytes (mem M) (mem M') img n"
proof -
  note g = space_growD [OF assms(2)]
  show "image_apart sp img n M'" using assms(1) g(4,5) unfolding image_apart_def by blast
  show "same_bytes (mem M) (mem M') img n" using assms(1) g(8) by (simp add: image_apart_def same_bytes_def)
qed

lemma same_bytes_trans: "same_bytes m m1 img n \<Longrightarrow> same_bytes m1 m2 img n \<Longrightarrow> same_bytes m m2 img n"
  by (simp add: same_bytes_def)

lemma same_bytes_refl [simp]: "same_bytes m m img n"
  by (simp add: same_bytes_def)

lemma zero_page_same_bytes:
  assumes "image_apart sp img n M" "c \<in> kpmm_avail (kpmm M)" "kpmm_ok (kpmm M)"
  shows "same_bytes (mem M) (zero_bytes c (mem M)) img n" "\<forall>k < n. page_of (img + of_nat k) \<noteq> c"
proof -
  show *: "\<forall>k < n. page_of (img + of_nat k) \<noteq> c" using assms(1,2) by (auto simp: image_apart_def)
  have "page_aligned c" using kp.avail_page [OF assms(3,2)] by simp
  with * show "same_bytes (mem M) (zero_bytes c (mem M)) img n"
    by (auto simp: same_bytes_def zero_bytes_apply page_of_diff)
qed

lemma seg_byte_same:
  assumes "same_bytes m m' img n" "unat (p_offset h) + unat (p_file_size h) \<le> n"
  shows "seg_byte m' img vs h a = seg_byte m img vs h a"
proof -
  have "m' (img + (p_offset h + (a - vs))) = m (img + (p_offset h + (a - vs)))"
    if "vs \<le> a" "unat a < unat vs + unat (p_file_size h)"
  proof -
    have "unat (p_offset h + (a - vs)) \<le> unat (p_offset h) + (unat a - unat vs)"
      using unat_add_le [of "p_offset h" "a - vs"] unat_sub [OF that(1)] by simp
    then have "unat (p_offset h + (a - vs)) < n" using that assms(2) by (simp add: word_le_nat_alt)
    from assms(1) [unfolded same_bytes_def, rule_format, OF this] show ?thesis by simp
  qed
  then show ?thesis by (auto simp: seg_byte_def)
qed

section \<open>Loading the pages of a segment\<close>

definition page_set :: "u64 \<Rightarrow> u64 \<Rightarrow> u64 set" where
  "page_set lo hi = {p. page_aligned p \<and> lo \<le> p \<and> p < hi}"

lemma aligned_next:
  assumes "page_aligned va" "page_aligned hi" "va < hi" "unat hi \<le> 2 ^ 47"
  shows "unat (va + SB_PAGE_SIZE) = unat va + 4096" "page_aligned (va + SB_PAGE_SIZE)" "va + SB_PAGE_SIZE \<le> hi"
    "page_set va hi = insert va (page_set (va + SB_PAGE_SIZE) hi)" "va \<notin> page_set (va + SB_PAGE_SIZE) hi"
    "page_of e = va \<longleftrightarrow> va \<le> e \<and> e < va + SB_PAGE_SIZE"
proof -
  obtain i where i: "unat va = 4096 * i" using assms(1) by (auto simp: page_aligned_dvd dvd_def)
  obtain k where k: "unat hi = 4096 * k" using assms(2) by (auto simp: page_aligned_dvd dvd_def)
  have ik: "i < k" using assms(3) i k by (simp add: word_less_nat_alt)
  show u: "unat (va + SB_PAGE_SIZE) = unat va + 4096" using ik i k assms(4) by (simp add: unat_add_small)
  show al: "page_aligned (va + SB_PAGE_SIZE)" using u i by (simp add: page_aligned_dvd)
  show "va + SB_PAGE_SIZE \<le> hi" using u ik i k by (simp add: word_le_nat_alt)
  have "p = va \<or> va + SB_PAGE_SIZE \<le> p" if p: "page_aligned p" "va \<le> p" for p
  proof -
    obtain q where "unat p = 4096 * q" using p(1) by (auto simp: page_aligned_dvd dvd_def)
    then show ?thesis using p(2) i u by (cases "q = i") (auto simp: word_le_nat_alt word_unat_eq_iff)
  qed
  moreover have "va \<le> va + SB_PAGE_SIZE" "\<not> va + SB_PAGE_SIZE \<le> va" using u by (simp_all add: word_le_nat_alt)
  ultimately show "page_set va hi = insert va (page_set (va + SB_PAGE_SIZE) hi)" "va \<notin> page_set (va + SB_PAGE_SIZE) hi"
    using assms(1,3) by (auto simp: page_set_def)
  show "page_of e = va \<longleftrightarrow> va \<le> e \<and> e < va + SB_PAGE_SIZE"
    using page_of_diff [OF assms(1), of e] in_window [of va "va + SB_PAGE_SIZE" e] u
    by (simp add: word_less_nat_alt [of va "va + SB_PAGE_SIZE"])
qed

definition pages_view ::
    "memory \<Rightarrow> u64 \<Rightarrow> u64 \<Rightarrow> sb_elf64_program_header \<Rightarrow> u64 set \<Rightarrow> user_view" where
  "pages_view m img vs h P a =
     (if page_of a \<in> P then Some (seg_byte m img vs h a, bit (segment_flags h) 1, \<not> bit (segment_flags h) 63) else None)"

lemma load_page_step:
  assumes "space_ok sp M" "image_apart sp img (unat n) M" "same_bytes m0 (mem M) img (unat n)"
    and "\<And>m. same_bytes m0 m img (unat n) \<Longrightarrow> elf64_program_header_at m ph = h"
    and "seg_page h (unat n) vs va" "unat ve = unat vs + unat (p_memory_size h)"
    and "load_page sp img n ph vs ve (segment_flags h) va M = (r, M')"
  shows "space_grow sp M M' \<and> (r = 0 \<or> r = -1) \<and>
    (r = 0 \<longrightarrow> user_address va \<and> va \<notin> dom (user_view sp M) \<and> user_view sp M' = user_view sp M ++ pages_view m0 img vs h {va}) \<and>
    (r = -1 \<longrightarrow> \<not> user_address va \<or> va \<in> dom (user_view sp M) \<or> card (kpmm_avail (kpmm M)) < 4) \<and>
    card (kpmm_avail (kpmm M)) \<le> card (kpmm_avail (kpmm M')) + 4"
proof -
  note ok = space_ok_pmm [OF assms(1)]
  have wf: "space_wf sp M" using assms(1) by (simp add: space_ok_def)
  have va: "page_aligned va" and off: "unat (p_offset h) + unat (p_file_size h) \<le> unat n"
    using assms(5) by (simp_all add: seg_page_def)
  have "\<forall>c \<in> kpmm_avail (kpmm M). elf64_program_header_at (zero_bytes c (mem M)) ph = h"
    using assms(4) same_bytes_trans [OF assms(3) zero_page_same_bytes(1) [OF assms(2) _ ok]] by blast
  then have fp: "fresh_page sp va (segment_flags h) (seg_fill img h vs va) M = (r, M')"
    using load_page_fresh [OF assms(5,6) ok] assms(7) by simp
  note fill = seg_fill_frame [OF assms(5)]
  note e = fresh_page_effect [OF assms(1) fill fp]
  have dom: "va \<in> dom (user_view sp M) \<longleftrightarrow> va \<in> dom (user_map sp M)"
    using user_view_dom [OF wf, of va] page_of_id [OF va] by simp
  have "user_view sp M' = user_view sp M ++ pages_view m0 img vs h {va}" if r0: "r = 0"
  proof -
    obtain c where c: "c \<in> kpmm_avail (kpmm M)" "page_aligned c"
      "user_view sp M' = (\<lambda>a. if page_of a = va
        then Some (seg_fill img h vs va c (mem M) (c + (a AND PAGE_OFFSET_MASK)), bit (segment_flags h) 1, \<not> bit (segment_flags h) 63)
        else user_view sp M a)"
      using fresh_page_view(2) [OF assms(1) fill fp r0] by blast
    note ct = seg_fill_content [OF assms(5) c(2) zero_page_same_bytes(2) [OF assms(2) c(1) ok]]
    show ?thesis
      using ct seg_byte_same [OF assms(3) off] by (auto simp: c(3) pages_view_def map_add_def)
  qed
  with e dom va show ?thesis by auto
qed

text \<open>
  What a step that adds the bytes \<open>V\<close> to the view does: all of them or an error, and an error has
  a reason: a page outside the user slot, a page that is mapped already, or too little memory.
\<close>

definition load_outcome :: "address_space \<Rightarrow> machine \<Rightarrow> nat \<Rightarrow> user_view \<Rightarrow> bool \<Rightarrow> int \<Rightarrow> machine \<Rightarrow> bool" where
  "load_outcome sp M k V fits r M' \<longleftrightarrow>
     space_grow sp M M' \<and> (r = 0 \<or> r = -1) \<and>
     (r = 0 \<longrightarrow> fits \<and> dom V \<inter> dom (user_view sp M) = {} \<and> user_view sp M' = user_view sp M ++ V) \<and>
     (r = -1 \<longrightarrow> \<not> fits \<or> dom V \<inter> dom (user_view sp M) \<noteq> {} \<or> card (kpmm_avail (kpmm M)) < 4 * k) \<and>
     card (kpmm_avail (kpmm M)) \<le> card (kpmm_avail (kpmm M')) + 4 * k"

lemma load_outcome_refl: "space_ok sp M \<Longrightarrow> load_outcome sp M 0 Map.empty True 0 M"
  by (simp add: load_outcome_def space_grow_refl)

lemma load_outcome_trans:
  assumes "load_outcome sp M k V fits 0 M1" "load_outcome sp M1 l W gits r M2" "dom V \<inter> dom W = {}"
  shows "load_outcome sp M (k + l) (V ++ W) (fits \<and> gits) r M2"
proof -
  have g: "space_grow sp M M2" using assms(1,2) space_grow_trans unfolding load_outcome_def by blast
  have v1: "fits" "dom V \<inter> dom (user_view sp M) = {}" "user_view sp M1 = user_view sp M ++ V"
    using assms(1) by (simp_all add: load_outcome_def)
  have c: "card (kpmm_avail (kpmm M)) \<le> card (kpmm_avail (kpmm M1)) + 4 * k"
    "card (kpmm_avail (kpmm M1)) \<le> card (kpmm_avail (kpmm M2)) + 4 * l"
    using assms(1,2) by (simp_all add: load_outcome_def)
  have d: "dom W \<inter> dom (user_view sp M1) = {} \<longleftrightarrow> dom W \<inter> dom (user_view sp M) = {}"
    "dom (V ++ W) \<inter> dom (user_view sp M) = {} \<longleftrightarrow> dom W \<inter> dom (user_view sp M) = {}"
    using v1(2,3) assms(3) by auto
  have r: "r = 0 \<or> r = -1" "r = 0 \<Longrightarrow> gits" "r = 0 \<Longrightarrow> dom W \<inter> dom (user_view sp M1) = {}"
    "r = 0 \<Longrightarrow> user_view sp M2 = user_view sp M1 ++ W"
    "r = -1 \<Longrightarrow> \<not> gits \<or> dom W \<inter> dom (user_view sp M1) \<noteq> {} \<or> card (kpmm_avail (kpmm M1)) < 4 * l"
    using assms(2) by (simp_all add: load_outcome_def)
  show ?thesis unfolding load_outcome_def d(2) using g v1 c r d(1) by auto
qed

lemma page_loop_outcome:
  assumes "\<And>m. same_bytes m0 m img (unat n) \<Longrightarrow> elf64_program_header_at m ph = h \<and> elf64_header_at m img = H"
    and "unat ve = unat vs + unat (p_memory_size h)" "page_aligned hi" "unat hi \<le> 2 ^ 47"
    and "space_ok sp M" "image_apart sp img (unat n) M" "same_bytes m0 (mem M) img (unat n)"
    and "page_aligned va" "unat va + 4096 * k = unat hi" "\<And>p. p \<in> page_set va hi \<Longrightarrow> seg_page h (unat n) vs p"
  shows "\<exists>r em' M'. page_loop sp img n bias ph vs ve hi (segment_flags h) va em M = Some (r, em', M') \<and>
    load_outcome sp M k (pages_view m0 img vs h (page_set va hi)) (\<forall>p \<in> page_set va hi. user_address p) r M' \<and>
    (r = 0 \<longrightarrow> em' = (em \<or> page_of (bias + e_entry H) \<in> page_set va hi))"
  using assms(5-10)
proof (induction k arbitrary: va em M)
  case 0
  then have "va = hi" by (simp add: word_unat_eq_iff)
  then have "page_set va hi = {}" "\<not> va < hi" by (auto simp: page_set_def)
  moreover have "pages_view m0 img vs h {} = Map.empty" by (simp add: pages_view_def fun_eq_iff)
  ultimately show ?case
    using load_outcome_refl [OF 0(1)] by (simp add: page_loop.simps)
next
  case (Suc k)
  have lt: "va < hi" using Suc.prems(5) by (simp add: word_less_nat_alt)
  note nx = aligned_next [OF Suc.prems(4) assms(3) lt assms(4)]
  obtain r M1 where lp: "load_page sp img n ph vs ve (segment_flags h) va M = (r, M1)" by fastforce
  have sv: "seg_page h (unat n) vs va" using Suc.prems(6) nx(4) by blast
  note st = load_page_step [OF Suc.prems(1-3) conjunct1 [OF assms(1)] sv assms(2) lp]
  let ?V = "pages_view m0 img vs h {va}" and ?W = "pages_view m0 img vs h (page_set (va + SB_PAGE_SIZE) hi)"
  have wf: "space_wf sp M" using Suc.prems(1) by (simp add: space_ok_def)
  have domV: "dom ?V \<inter> dom (user_view sp M) = {} \<longleftrightarrow> va \<notin> dom (user_view sp M)"
  proof -
    have "dom ?V = {a. page_of a = va}" by (auto simp: pages_view_def split: if_splits)
    moreover have "a \<in> dom (user_view sp M) \<longleftrightarrow> page_of a \<in> dom (user_view sp M)" for a
      by (simp add: user_view_dom [OF wf] page_of_id)
    ultimately show ?thesis using page_of_id [OF Suc.prems(4)] by auto
  qed
  have sum: "pages_view m0 img vs h (page_set va hi) = ?V ++ ?W" "dom ?V \<inter> dom ?W = {}"
    using nx(4,5) by (auto simp: pages_view_def map_add_def fun_eq_iff split: if_splits)
  show ?case
  proof (cases "r = 0")
    case False
    then have "load_outcome sp M (Suc k) (?V ++ ?W) (\<forall>p \<in> page_set va hi. user_address p) (-1) M1"
      using st domV nx(4) by (auto simp: load_outcome_def)
    then show ?thesis using False lt lp st sum(1) by (subst page_loop.simps) auto
  next
    case True
    then have o1: "load_outcome sp M 1 ?V (user_address va) 0 M1"
      using st domV by (auto simp: load_outcome_def)
    note im = image_apart_grow [OF Suc.prems(2) conjunct1 [OF st]]
    have sb: "same_bytes m0 (mem M1) img (unat n)" by (rule same_bytes_trans [OF Suc.prems(3) im(2)])
    let ?em = "em \<or> (va \<le> bias + e_entry H \<and> bias + e_entry H < va + SB_PAGE_SIZE)"
    have "space_ok sp M1" using st space_growD(1) by blast
    from Suc.IH [OF this im(1) sb nx(2), of ?em] obtain r2 em2 M2 where
      ih: "page_loop sp img n bias ph vs ve hi (segment_flags h) (va + SB_PAGE_SIZE) ?em M1 = Some (r2, em2, M2)"
        "load_outcome sp M1 k ?W (\<forall>p \<in> page_set (va + SB_PAGE_SIZE) hi. user_address p) r2 M2"
        "r2 = 0 \<longrightarrow> em2 = (?em \<or> page_of (bias + e_entry H) \<in> page_set (va + SB_PAGE_SIZE) hi)"
      using Suc.prems(5,6) nx(1,4) by auto
    have "page_loop sp img n bias ph vs ve hi (segment_flags h) va em M = Some (r2, em2, M2)"
      using ih(1) lt lp True assms(1) [OF sb] by (subst page_loop.simps) (simp add: Let_def)
    then show ?thesis
      using load_outcome_trans [OF o1 ih(2) sum(2)] ih(3) nx(4,6) sum(1) by simp
  qed
qed

section \<open>The abstract loader\<close>

definition loadable :: "sb_elf64_program_header \<Rightarrow> bool" where
  "loadable h \<longleftrightarrow> p_type h = 1 \<and> p_memory_size h \<noteq> 0"

text \<open>The segment lies in the part of the address space that belongs to root slot 1.\<close>

definition seg_fits :: "u64 \<Rightarrow> sb_elf64_program_header \<Rightarrow> bool" where
  "seg_fits bias h \<longleftrightarrow>
     2 ^ 39 \<le> unat bias + unat (p_virtual_address h) \<and>
     unat bias + unat (p_virtual_address h) + unat (p_memory_size h) \<le> 2 ^ 40"

definition seg_pages :: "u64 \<Rightarrow> sb_elf64_program_header \<Rightarrow> u64 set" where
  "seg_pages bias h =
     (let vs = bias + p_virtual_address h in page_of ` {a. vs \<le> a \<and> unat a < unat vs + unat (p_memory_size h)})"

definition seg_page_count :: "u64 \<Rightarrow> sb_elf64_program_header \<Rightarrow> nat" where
  "seg_page_count bias h = (unat (bias + p_virtual_address h) mod 4096 + unat (p_memory_size h) + 4095) div 4096"

definition seg_view :: "memory \<Rightarrow> u64 \<Rightarrow> u64 \<Rightarrow> sb_elf64_program_header \<Rightarrow> user_view" where
  "seg_view m img bias h = pages_view m img (bias + p_virtual_address h) h (seg_pages bias h)"

lemma user_address_range: "user_address a \<longleftrightarrow> 2 ^ 39 \<le> unat a \<and> unat a < 2 ^ 40"
proof -
  have p: "unat (pml4_index a) = unat a div 2 ^ 39 mod 512"
  proof -
    have "(0x1FF :: u64) = mask 9" by (simp add: mask_eq_exp_minus_1)
    then have "unat (drop_bit 39 a AND 0x1FF) = unat a div 2 ^ 39 mod 512"
      using unat_and_mask [of "drop_bit 39 a" 9] by (simp add: drop_bit_eq_div unat_div_distrib)
    then show ?thesis by (simp add: pml4_index_def unat_ucast_small)
  qed
  show ?thesis
  proof (cases "unat a < 2 ^ 47")
    case True
    then have "unat a div 2 ^ 39 mod 512 = unat a div 2 ^ 39" by simp
    moreover have "unat a div 2 ^ 39 = 1 \<longleftrightarrow> 2 ^ 39 \<le> unat a \<and> unat a < 2 ^ 40" by auto
    ultimately show ?thesis using True p by (simp add: user_address_def SB_USER_LIMIT_def word_less_nat_alt word_unat_eq_iff)
  qed (simp add: user_address_def SB_USER_LIMIT_def word_less_nat_alt)
qed

lemma elf_align_down_eq: "elf_align_down v = page_of v"
  by (simp add: elf_align_down_def page_of_def SB_PAGE_MASK_def)

lemma align_up_checked_eq:
  assumes "unat v \<le> 2 ^ 47"
  shows "\<exists>hi. align_up_checked v 0 = (0, hi) \<and> unat hi = (unat v + 4095) div 4096 * 4096"
proof -
  have "\<not> v > - 1 - (SB_PAGE_SIZE - 1)" using assms by (simp add: SB_PAGE_SIZE_def word_less_nat_alt)
  moreover have "unat (v + (SB_PAGE_SIZE - 1)) = unat v + 4095"
    using assms by (subst unat_add_small) (simp_all add: SB_PAGE_SIZE_def)
  ultimately show ?thesis
    using unat_and_not_mask_mult [of "v + (SB_PAGE_SIZE - 1)" 12]
    by (simp add: align_up_checked_def SB_PAGE_MASK_def page_mask_eq)
qed

lemma seg_page_set:
  assumes "unat vs + len \<le> 2 ^ 47" "0 < len" "unat hi = (unat vs + len + 4095) div 4096 * 4096"
  shows "p \<in> page_set (page_of vs) hi \<longleftrightarrow> page_aligned p \<and> unat p < unat vs + len \<and> unat vs < unat p + 4096"
    and "page_set (page_of vs) hi = page_of ` {a. vs \<le> a \<and> unat a < unat vs + len}"
    and "unat (page_of vs) + 4096 * ((unat vs mod 4096 + len + 4095) div 4096) = unat hi" "unat hi \<le> 2 ^ 47"
proof -
  obtain q r where qr: "unat vs = 4096 * q + r" "r < 4096" by (metis mod_less_divisor mult_div_mod_eq zero_less_numeral)
  have lo: "unat (page_of vs) = 4096 * q" using qr by (simp add: unat_page_of)
  have hi: "unat hi = 4096 * (q + (r + len + 4095) div 4096)"
    using assms(3) qr by (simp add: add.assoc)
  then show "unat (page_of vs) + 4096 * ((unat vs mod 4096 + len + 4095) div 4096) = unat hi" using lo qr by simp
  have "(unat vs + len + 4095) div 4096 < Suc (2 ^ 35)" using assms(1) by (subst div_less_iff_less_mult) simp_all
  then show "unat hi \<le> 2 ^ 47" using assms(3) by simp
  have mem: "p \<in> page_set (page_of vs) hi \<longleftrightarrow> page_aligned p \<and> unat p < unat vs + len \<and> unat vs < unat p + 4096" for p
  proof (cases "page_aligned p")
    case True
    then obtain s where s: "unat p = 4096 * s" by (auto simp: page_aligned_dvd dvd_def)
    have "p < hi \<longleftrightarrow> s < (unat vs + len + 4095) div 4096"
      using s assms(3) by (simp add: word_less_nat_alt mult.commute)
    also have "\<dots> \<longleftrightarrow> Suc s * 4096 \<le> unat vs + len + 4095" by (simp add: less_eq_div_iff_mult_less_eq Suc_le_eq [symmetric])
    also have "\<dots> \<longleftrightarrow> unat p < unat vs + len" using s by auto
    finally have h: "p < hi \<longleftrightarrow> unat p < unat vs + len" .
    have "page_of vs \<le> p \<longleftrightarrow> unat vs < unat p + 4096" using lo s qr by (auto simp: word_le_nat_alt)
    with h True show ?thesis by (auto simp: page_set_def)
  qed (simp add: page_set_def)
  then show "p \<in> page_set (page_of vs) hi \<longleftrightarrow> page_aligned p \<and> unat p < unat vs + len \<and> unat vs < unat p + 4096" .
  show "page_set (page_of vs) hi = page_of ` {a. vs \<le> a \<and> unat a < unat vs + len}"
  proof (intro set_eqI iffI)
    fix p assume "p \<in> page_set (page_of vs) hi"
    then have p: "page_aligned p" "unat p < unat vs + len" "unat vs < unat p + 4096" using mem by blast+
    have "page_of (max p vs) = p"
    proof (cases "p \<le> vs")
      case True
      then have "unat (vs - p) < 4096" using p(3) unat_sub [OF True] by simp
      then show ?thesis using page_of_diff [OF p(1)] True by (simp add: max_def)
    qed (use page_of_id [OF p(1)] in \<open>simp add: max_def\<close>)
    moreover have "unat (max p vs) < unat vs + len" using p(2) assms(2) by (auto simp: max_def)
    ultimately show "p \<in> page_of ` {a. vs \<le> a \<and> unat a < unat vs + len}"
      by (intro image_eqI [of _ _ "max p vs"]) simp_all
  next
    fix p assume "p \<in> page_of ` {a. vs \<le> a \<and> unat a < unat vs + len}"
    then obtain a where a: "p = page_of a" "unat vs \<le> unat a" "unat a < unat vs + len" by (auto simp: word_le_nat_alt)
    have "unat p \<le> unat a" "unat a < unat p + 4096"
      using a(1) div_mult_mod_eq [of "unat a" 4096] mod_less_divisor [of 4096 "unat a"] by (simp_all add: unat_page_of)
    then show "p \<in> page_set (page_of vs) hi" using a mem by simp
  qed
qed

lemma image_headers:
  assumes "elf_valid m0 img (unat n)" "same_bytes m0 m img (unat n)"
  shows "elf64_header_at m img = elf64_header_at m0 img"
    and "i < unat (e_phnum (elf64_header_at m0 img)) \<Longrightarrow> program_header m img i = program_header m0 img i"
proof -
  have v: "64 \<le> unat n" "56 \<le> e_phentsize (elf64_header_at m0 img)"
    "e_phnum (elf64_header_at m0 img) = 0 \<or> unat (e_phoff (elf64_header_at m0 img)) +
       unat (e_phentsize (elf64_header_at m0 img)) * unat (e_phnum (elf64_header_at m0 img)) \<le> unat n"
    using assms(1) by (simp_all add: elf_valid_def Let_def header_valid_def)
  show "elf64_header_at m img = elf64_header_at m0 img" by (rule same_bytes_header [OF assms(2) v(1)])
  assume i: "i < unat (e_phnum (elf64_header_at m0 img))"
  then have "e_phnum (elf64_header_at m0 img) \<noteq> 0" by auto
  then show "program_header m img i = program_header m0 img i"
    using same_bytes_program_header [OF assms(2) v(1) i v(2)] v(3) by blast
qed

lemma load_segment_unfold:
  "load_segment sp img n bias i em M =
     (let h = program_header (mem M) img i; H = elf64_header_at (mem M) img;
          vs = bias + p_virtual_address h; ve = vs + p_memory_size h in
      if \<not> loadable h then Some (0, em, M)
      else if 2 ^ 64 \<le> unat bias + unat (p_virtual_address h) \<or> 2 ^ 64 \<le> unat vs + unat (p_memory_size h) \<or>
              vs < SB_USER_BASE \<or> ve > SB_USER_LIMIT \<or> ve \<le> vs then Some (-1, em, M)
      else
        let (o3, hi) = align_up_checked ve 0 in
        if o3 \<noteq> 0 then Some (-1, em, M)
        else page_loop sp img n bias (img + (e_phoff H + of_nat i * ucast (e_phentsize H))) vs ve hi
               (segment_flags h) (page_of vs) em M)"
proof -
  define h where "h = program_header (mem M) img i"
  have hh: "elf64_program_header_at (mem M)
      (img + (e_phoff (elf64_header_at (mem M) img) + of_nat i * ucast (e_phentsize (elf64_header_at (mem M) img)))) = h"
    by (simp add: h_def program_header_def Let_def)
  show ?thesis
    unfolding load_segment_def Let_def hh h_def [symmetric] elf_align_down_eq loadable_def SB_ELF_PT_LOAD_def
    by (cases "unat bias + unat (p_virtual_address h) < 2 ^ 64";
        cases "unat (bias + p_virtual_address h) + unat (p_memory_size h) < 2 ^ 64") (simp_all add: range_end_eq)
qed

lemma load_segment_outcome:
  assumes "elf_valid m0 img (unat n)" "i < unat (e_phnum (elf64_header_at m0 img))"
    and "space_ok sp M" "image_apart sp img (unat n) M" "same_bytes m0 (mem M) img (unat n)"
  defines "h \<equiv> program_header m0 img i"
  assumes "loadable h"
  shows "\<exists>r em' M'. load_segment sp img n bias i em M = Some (r, em', M') \<and>
    load_outcome sp M (seg_page_count bias h) (seg_view m0 img bias h) (seg_fits bias h) r M' \<and>
    (r = 0 \<longrightarrow> em' = (em \<or> page_of (bias + e_entry (elf64_header_at m0 img)) \<in> seg_pages bias h))"
proof -
  let ?H = "elf64_header_at m0 img" and ?vs = "bias + p_virtual_address h" and ?len = "unat (p_memory_size h)"
  let ?ve = "?vs + p_memory_size h" and ?ph = "img + (e_phoff ?H + of_nat i * ucast (e_phentsize ?H))"
  note hs = image_headers [OF assms(1)]
  have len: "0 < ?len" using assms(7) by (simp add: loadable_def unat_gt_0)
  have seg: "p_file_size h \<le> p_memory_size h" "unat (p_offset h) + unat (p_file_size h) \<le> unat n"
    using assms(1,2,7) unfolding h_def by (auto simp: elf_valid_def Let_def segment_valid_def loadable_def)
  have head: "elf64_program_header_at m ?ph = h \<and> elf64_header_at m img = ?H" if "same_bytes m0 m img (unat n)" for m
    using hs(1) [OF that] hs(2) [OF that assms(2)] by (simp add: program_header_def Let_def h_def)
  have unf: "load_segment sp img n bias i em M =
     (if 2 ^ 64 \<le> unat bias + unat (p_virtual_address h) \<or> 2 ^ 64 \<le> unat ?vs + ?len \<or>
         ?vs < SB_USER_BASE \<or> ?ve > SB_USER_LIMIT \<or> ?ve \<le> ?vs then Some (-1, em, M)
      else let (o3, hi) = align_up_checked ?ve 0 in
        if o3 \<noteq> 0 then Some (-1, em, M)
        else page_loop sp img n bias ?ph ?vs ?ve hi (segment_flags h) (page_of ?vs) em M)"
    using hs(1) [OF assms(5)] hs(2) [OF assms(5,2)] assms(7)
    by (simp add: load_segment_unfold Let_def flip: h_def)
  show ?thesis
  proof (cases "2 ^ 64 \<le> unat bias + unat (p_virtual_address h) \<or> 2 ^ 64 \<le> unat ?vs + ?len \<or>
         ?vs < SB_USER_BASE \<or> ?ve > SB_USER_LIMIT \<or> ?ve \<le> ?vs")
    case True
    have "\<not> seg_fits bias h"
    proof
      assume f: "seg_fits bias h"
      then have vs: "unat ?vs = unat bias + unat (p_virtual_address h)" by (simp add: seg_fits_def unat_add_small)
      then have "unat ?ve = unat ?vs + ?len" using f by (simp add: seg_fits_def unat_add_small)
      then show False using True f vs len
        by (auto simp: seg_fits_def SB_USER_BASE_def SB_USER_LIMIT_def word_less_nat_alt word_le_nat_alt)
    qed
    then have "load_outcome sp M (seg_page_count bias h) (seg_view m0 img bias h) (seg_fits bias h) (-1) M"
      using space_grow_refl [OF assms(3)] by (simp add: load_outcome_def)
    then show ?thesis using unf True by auto
  next
    case False
    then have vs: "unat ?vs = unat bias + unat (p_virtual_address h)" by (simp add: unat_add_small not_le)
    have ve: "unat ?ve = unat ?vs + ?len" using False by (intro unat_add_small) (simp add: not_le)
    have lim: "2 ^ 39 \<le> unat ?vs" "unat ?vs + ?len \<le> 2 ^ 47"
      using False ve by (simp_all add: SB_USER_BASE_def SB_USER_LIMIT_def word_less_nat_alt not_less)
    obtain hi where hi: "align_up_checked ?ve 0 = (0, hi)" "unat hi = (unat ?vs + ?len + 4095) div 4096 * 4096"
      using align_up_checked_eq [of ?ve] lim(2) ve by auto
    note ps = seg_page_set [OF lim(2) len hi(2)]
    have pages: "page_set (page_of ?vs) hi = seg_pages bias h" using ps(2) by (simp add: seg_pages_def Let_def)
    have al: "page_aligned hi" using hi(2) by (simp add: page_aligned_dvd)
    have sp: "seg_page h (unat n) ?vs p" if pm: "p \<in> page_set (page_of ?vs) hi" for p
    proof -
      note pi = ps(1) [THEN iffD1, OF pm]
      obtain q where "unat p = 4096 * q" using pi by (auto simp: page_aligned_dvd dvd_def)
      then have "unat p + 4096 \<le> 2 ^ 47" using pi lim(2) by auto
      then show ?thesis using pi seg lim(2) by (simp add: seg_page_def)
    qed
    have st: "unat (page_of ?vs) + 4096 * seg_page_count bias h = unat hi" using ps(3) by (simp add: seg_page_count_def)
    note pl = page_loop_outcome [OF head ve al ps(4) assms(3-5) page_of_aligned st sp, of bias em,
        unfolded pages, folded seg_view_def]
    have "(\<forall>p \<in> seg_pages bias h. user_address p) \<longleftrightarrow> seg_fits bias h"
    proof
      assume u: "\<forall>p \<in> seg_pages bias h. user_address p"
      have "unat (?ve - 1) = unat ?ve - 1" using ve len by (subst unat_sub) (simp_all add: word_le_nat_alt)
      then have "?vs \<le> ?ve - 1" "unat (?ve - 1) < unat ?vs + ?len" using ve len by (simp_all add: word_le_nat_alt)
      then have "user_address (?ve - 1)" using u user_address_page_of by (auto simp: seg_pages_def Let_def)
      then show "seg_fits bias h" using lim vs ve len \<open>unat (?ve - 1) = unat ?ve - 1\<close>
        by (simp add: user_address_range seg_fits_def) linarith
    next
      assume f: "seg_fits bias h"
      have "user_address a" if "?vs \<le> a" "unat a < unat ?vs + ?len" for a
        using that f vs by (simp add: user_address_range seg_fits_def word_le_nat_alt)
      then show "\<forall>p \<in> seg_pages bias h. user_address p" by (auto simp: seg_pages_def Let_def)
    qed
    then show ?thesis using pl unf False hi(1) by simp
  qed
qed

text \<open>
  The loader on views: segments are added in order; one that does not fit or that needs an address
  of the view that is taken makes the whole load fail.
\<close>

fun load_segments :: "memory \<Rightarrow> u64 \<Rightarrow> u64 \<Rightarrow> sb_elf64_program_header list \<Rightarrow> user_view \<Rightarrow> user_view option" where
  "load_segments m img bias [] v = Some v"
| "load_segments m img bias (h # hs) v =
     (if \<not> loadable h then load_segments m img bias hs v
      else if seg_fits bias h \<and> dom (seg_view m img bias h) \<inter> dom v = {}
      then load_segments m img bias hs (v ++ seg_view m img bias h)
      else None)"

definition segments :: "memory \<Rightarrow> u64 \<Rightarrow> sb_elf64_program_header list" where
  "segments m img = map (program_header m img) [0..<unat (e_phnum (elf64_header_at m img))]"

definition in_segment :: "u64 \<Rightarrow> u64 \<Rightarrow> sb_elf64_program_header list \<Rightarrow> bool" where
  "in_segment bias a hs \<longleftrightarrow> (\<exists>h \<in> set hs. loadable h \<and> page_of a \<in> seg_pages bias h)"

definition pages_needed :: "u64 \<Rightarrow> sb_elf64_program_header list \<Rightarrow> nat" where
  "pages_needed bias hs = sum_list (map (seg_page_count bias) (filter loadable hs))"

definition elf_load_spec :: "memory \<Rightarrow> u64 \<Rightarrow> nat \<Rightarrow> user_view \<Rightarrow> (user_view \<times> u64) option" where
  "elf_load_spec m img n v =
     (let bias = load_bias (elf64_header_at m img); entry = bias + e_entry (elf64_header_at m img) in
      if elf_valid m img n \<and> in_segment bias entry (segments m img)
      then map_option (\<lambda>v'. (v', entry)) (load_segments m img bias (segments m img) v)
      else None)"

lemma segment_loop_outcome:
  assumes "elf_valid m0 img (unat n)"
  defines "N \<equiv> unat (e_phnum (elf64_header_at m0 img))" and "H \<equiv> elf64_header_at m0 img"
  assumes "space_ok sp M" "image_apart sp img (unat n) M" "same_bytes m0 (mem M) img (unat n)" "i + d = N"
  defines "hs \<equiv> \<lambda>i. map (program_header m0 img) [i..<N]"
  shows "\<exists>r em' M'. segment_loop sp img n bias i em M = Some (r, em', M') \<and> space_grow sp M M' \<and> (r = 0 \<or> r = -1) \<and>
    (r = 0 \<longrightarrow> load_segments m0 img bias (hs i) (user_view sp M) = Some (user_view sp M') \<and>
      em' = (em \<or> in_segment bias (bias + e_entry H) (hs i)) \<and>
      card (kpmm_avail (kpmm M)) \<le> card (kpmm_avail (kpmm M')) + 4 * pages_needed bias (hs i)) \<and>
    (r = -1 \<longrightarrow> load_segments m0 img bias (hs i) (user_view sp M) = None \<or>
      card (kpmm_avail (kpmm M)) < 4 * pages_needed bias (hs i))"
  using assms(4-7)
proof (induction d arbitrary: i em M)
  case 0
  then have "segment_loop sp img n bias i em M = Some (0, em, M)"
    using image_headers(1) [OF assms(1) 0(3)] by (subst segment_loop.simps) (simp add: N_def)
  then show ?case using 0 space_grow_refl [OF 0(1)] by (simp add: hs_def in_segment_def)
next
  case (Suc d)
  then have i: "i < N" by simp
  let ?h = "program_header m0 img i"
  have hs: "hs i = ?h # hs (Suc i)" using i by (simp add: hs_def upt_conv_Cons)
  have hd: "elf64_header_at (mem M) img = elf64_header_at m0 img" "program_header (mem M) img i = ?h"
    using image_headers [OF assms(1) Suc.prems(3)] i by (simp_all add: N_def)
  show ?case
  proof (cases "loadable ?h")
    case False
    then have "segment_loop sp img n bias i em M = segment_loop sp img n bias (Suc i) em M"
      using i hd by (subst segment_loop.simps) (simp add: load_segment_unfold N_def)
    with Suc.IH [OF Suc.prems(1-3), of "Suc i" em] Suc.prems(4) False hs show ?thesis
      by (simp add: in_segment_def pages_needed_def)
  next
    case True
    let ?V = "seg_view m0 img bias ?h"
    obtain r1 em1 M1 where ls: "load_segment sp img n bias i em M = Some (r1, em1, M1)"
      and lo: "load_outcome sp M (seg_page_count bias ?h) ?V (seg_fits bias ?h) r1 M1"
      and em1: "r1 = 0 \<longrightarrow> em1 = (em \<or> page_of (bias + e_entry H) \<in> seg_pages bias ?h)"
      using load_segment_outcome [OF assms(1) i [unfolded N_def] Suc.prems(1-3) True, of bias em] H_def by blast
    have step: "segment_loop sp img n bias i em M =
        (if r1 \<noteq> 0 then Some (r1, em1, M1) else segment_loop sp img n bias (Suc i) em1 M1)"
      using i hd ls by (subst segment_loop.simps) (simp add: N_def)
    show ?thesis
    proof (cases "r1 = 0")
      case False
      then show ?thesis using step lo True hs by (auto simp: load_outcome_def pages_needed_def)
    next
      case r1: True
      have g: "space_grow sp M M1" using lo by (simp add: load_outcome_def)
      note im = image_apart_grow [OF Suc.prems(2) g]
      have sb: "same_bytes m0 (mem M1) img (unat n)" by (rule same_bytes_trans [OF Suc.prems(3) im(2)])
      have v: "seg_fits bias ?h" "dom ?V \<inter> dom (user_view sp M) = {}" "user_view sp M1 = user_view sp M ++ ?V"
        "card (kpmm_avail (kpmm M)) \<le> card (kpmm_avail (kpmm M1)) + 4 * seg_page_count bias ?h"
        using lo r1 by (simp_all add: load_outcome_def)
      have ls2: "load_segments m0 img bias (hs i) (user_view sp M) = load_segments m0 img bias (hs (Suc i)) (user_view sp M1)"
        using v True hs by simp
      have em2: "(em1 \<or> in_segment bias (bias + e_entry H) (hs (Suc i))) = (em \<or> in_segment bias (bias + e_entry H) (hs i))"
        using em1 r1 hs True by (simp add: in_segment_def)
      have pn: "pages_needed bias (hs i) = seg_page_count bias ?h + pages_needed bias (hs (Suc i))"
        using hs True by (simp add: pages_needed_def)
      obtain r em' M' where ih: "segment_loop sp img n bias (Suc i) em1 M1 = Some (r, em', M')" "space_grow sp M1 M'"
        "r = 0 \<or> r = -1"
        "r = 0 \<longrightarrow> load_segments m0 img bias (hs (Suc i)) (user_view sp M1) = Some (user_view sp M') \<and>
          em' = (em1 \<or> in_segment bias (bias + e_entry H) (hs (Suc i))) \<and>
          card (kpmm_avail (kpmm M1)) \<le> card (kpmm_avail (kpmm M')) + 4 * pages_needed bias (hs (Suc i))"
        "r = -1 \<longrightarrow> load_segments m0 img bias (hs (Suc i)) (user_view sp M1) = None \<or>
          card (kpmm_avail (kpmm M1)) < 4 * pages_needed bias (hs (Suc i))"
        using Suc.IH [OF space_growD(1) [OF g] im(1) sb, of "Suc i" em1] Suc.prems(4) by auto
      then show ?thesis
        using step r1 space_grow_trans [OF g ih(2)] ls2 em2 v(4) pn
        by (intro exI [of _ r] exI [of _ em'] exI [of _ M']) auto
    qed
  qed
qed

lemma elf_load_outcome:
  assumes "space_ok sp M" "image_apart sp img (unat n) M"
  shows "\<exists>r e M'. elf64_load_image (Some sp) img n (Some e0) M = Some (r, e, M') \<and> space_grow sp M M' \<and>
    (r = 0 \<longrightarrow> e \<noteq> None \<and> elf_load_spec (mem M) img (unat n) (user_view sp M) = Some (user_view sp M', the e) \<and>
      card (kpmm_avail (kpmm M)) \<le> card (kpmm_avail (kpmm M')) +
        4 * pages_needed (load_bias (elf64_header_at (mem M) img)) (segments (mem M) img)) \<and>
    (r \<noteq> 0 \<longrightarrow> r = -1 \<and> e = Some e0 \<and>
      (elf_load_spec (mem M) img (unat n) (user_view sp M) = None \<or>
       card (kpmm_avail (kpmm M)) < 4 * pages_needed (load_bias (elf64_header_at (mem M) img)) (segments (mem M) img)))"
proof (cases "elf_valid (mem M) img (unat n)")
  case False
  then show ?thesis
    using space_grow_refl [OF assms(1)] by (simp add: elf64_load_image_def validate_cases elf_load_spec_def)
next
  case True
  let ?b = "load_bias (elf64_header_at (mem M) img)" and ?e = "e_entry (elf64_header_at (mem M) img)"
  obtain r em M' where sl: "segment_loop sp img n ?b 0 False M = Some (r, em, M')" and g: "space_grow sp M M'"
    and r: "r = 0 \<or> r = -1"
    and r0: "r = 0 \<longrightarrow> load_segments (mem M) img ?b (segments (mem M) img) (user_view sp M) = Some (user_view sp M') \<and>
      em = in_segment ?b (?b + ?e) (segments (mem M) img) \<and>
      card (kpmm_avail (kpmm M)) \<le> card (kpmm_avail (kpmm M')) + 4 * pages_needed ?b (segments (mem M) img)"
    and r1: "r = -1 \<longrightarrow> load_segments (mem M) img ?b (segments (mem M) img) (user_view sp M) = None \<or>
      card (kpmm_avail (kpmm M)) < 4 * pages_needed ?b (segments (mem M) img)"
    using segment_loop_outcome [OF True assms same_bytes_refl, of 0 _ ?b False] by (auto simp: segments_def)
  have hd: "elf64_header_at (mem M') img = elf64_header_at (mem M) img"
    by (rule image_headers(1) [OF True image_apart_grow(2) [OF assms(2) g]])
  show ?thesis
    using True sl g r r0 r1 hd by (auto simp: elf64_load_image_def validate_cases elf_load_spec_def Let_def)
qed

section \<open>Properties\<close>


text \<open>The sample image in memory below the sample address space.\<close>

definition sample_image_machine :: machine where
  "sample_image_machine = (snd sample_space)
     \<lparr>mem := \<lambda>a. if unat (a - 0x2000) < 124 then sample_elf_memory a else mem (snd sample_space) a\<rparr>"

lemma sample_image_page: "unat (a - 0x2000) < 124 \<Longrightarrow> page_of a = 0x2000"
  using page_of_diff [of "0x2000" a] by (simp add: page_aligned_def SB_PAGE_SIZE_def)

lemma sample_low_page: "0x2000 \<notin> page_address ` {4096..<16384}"
proof -
  have "\<not> (4096 \<le> i \<and> i < 16384 \<and> page_address i = 0x2000)" for i
    using unat_page_address [of i] by (auto simp: word_unat_eq_iff)
  then show ?thesis by force
qed

lemma sample_space_pages: "footprint (fst sample_space) (snd sample_space) \<subseteq> page_address ` {4096..<16384}"
proof -
  obtain M where c: "address_space_create (Some \<lparr>pml4_physical = 0\<rparr>) sample_machine = (0, Some (fst sample_space), M)"
    and M: "snd sample_space = M" by (rule sample_create)
  have ok: "kpmm_ok (kpmm sample_machine)" by (simp add: sample_machine_def sample_pmm)
  have "space_tables (fst sample_space) M = {pml4_physical (fst sample_space)}"
    "pml4_physical (fst sample_space) \<in> kpmm_avail (kpmm sample_machine)"
    using create_space [OF ok c] by blast+
  then show ?thesis
    using M sample_space_facts(2) by (auto simp: footprint_def user_frames_def sample_machine_def sample_pmm)
qed

lemma sample_image_facts:
  "space_ok (fst sample_space) sample_image_machine" "user_view (fst sample_space) sample_image_machine = Map.empty"
  "image_apart (fst sample_space) 0x2000 124 sample_image_machine"
  "same_bytes sample_elf_memory (mem sample_image_machine) 0x2000 124"
  "12287 \<le> card (kpmm_avail (kpmm sample_image_machine))"
proof -
  let ?sp = "fst sample_space" and ?M = "snd sample_space"
  have ok: "space_ok ?sp ?M" using sample_space_facts(1,2) by (simp add: space_ok_def user_frames_def)
  have low: "0x2000 \<notin> footprint ?sp ?M" using sample_space_pages sample_low_page by blast
  then have "\<forall>b. page_of b \<in> footprint ?sp ?M \<longrightarrow> mem sample_image_machine b = mem ?M b"
    using sample_image_page by (auto simp: sample_image_machine_def)
  from other_space_kept [OF ok _ _ this] have k: "space_ok ?sp sample_image_machine"
    "footprint ?sp sample_image_machine = footprint ?sp ?M" "user_map ?sp sample_image_machine = user_map ?sp ?M"
    using sample_space_facts(5) by (simp_all add: sample_image_machine_def)
  then show "space_ok ?sp sample_image_machine" by simp
  show "user_view ?sp sample_image_machine = Map.empty"
    using k(1,3) sample_space_facts(2) by (auto simp: space_ok_def user_view_eq)
  have "page_of (0x2000 + of_nat i) = 0x2000" if "i < 124" for i
    using that by (intro sample_image_page) (simp add: unat_of_nat_small)
  moreover have "0x2000 \<notin> kpmm_avail (kpmm sample_image_machine)"
    using sample_low_page sample_space_facts(3) by (auto simp: sample_image_machine_def)
  ultimately show "image_apart ?sp 0x2000 124 sample_image_machine"
    using low k(2) by (auto simp: image_apart_def footprint_def)
  show "same_bytes sample_elf_memory (mem sample_image_machine) 0x2000 124"
    by (simp add: same_bytes_def sample_image_machine_def unat_of_nat_small)
  show "12287 \<le> card (kpmm_avail (kpmm sample_image_machine))"
    using sample_space_card by (simp add: sample_image_machine_def)
qed

lemma sample_load_spec:
  fixes m and h
  defines "m \<equiv> mem sample_image_machine" and "h \<equiv> program_header sample_elf_memory 0x2000 0"
  shows "elf_load_spec m 0x2000 124 (user_view (fst sample_space) sample_image_machine) =
      Some (seg_view m 0x2000 0 h, 0x8000000078)"
    and "pages_needed (load_bias (elf64_header_at m 0x2000)) (segments m 0x2000) = 2"
    and "seg_view m 0x2000 0 h 0x8000000078 = Some (0xCD, False, True)"
proof -
  note f = sample_image_facts
  have v: "elf_valid m 0x2000 124" using same_bytes_valid [OF f(4)] sample_elf_valid by (simp add: m_def)
  have n: "unat (124 :: u64) = 124" by simp
  note hs = image_headers [OF _ f(4) [folded n], unfolded n, OF sample_elf_valid, folded m_def]
  have bias: "load_bias (elf64_header_at m 0x2000) = 0" "e_entry (elf64_header_at m 0x2000) = 0x8000000078"
    using hs(1) by (simp_all add: load_bias_def sample_elf_header SB_ELF_TYPE_DYN_def)
  have segs: "segments m 0x2000 = [h]" using hs sample_elf_header(1) by (simp add: segments_def h_def)
  have ld: "loadable h" "seg_fits 0 h" by (simp_all add: loadable_def seg_fits_def sample_elf_segment h_def)
  show "pages_needed (load_bias (elf64_header_at m 0x2000)) (segments m 0x2000) = 2"
    using ld(1) by (simp add: pages_needed_def seg_page_count_def bias segs sample_elf_segment h_def)
  have page: "page_of 0x8000000078 \<in> seg_pages 0 h"
    unfolding seg_pages_def Let_def by (rule imageI) (simp add: sample_elf_segment h_def)
  show "elf_load_spec m 0x2000 124 (user_view (fst sample_space) sample_image_machine) =
      Some (seg_view m 0x2000 0 h, 0x8000000078)"
    using v ld page by (simp add: elf_load_spec_def bias segs in_segment_def f(2))
  have "m (0x2000 + 0x78) = 0xCD" using f(4) [unfolded same_bytes_def, rule_format, of "0x78"]
    by (simp add: sample_elf_memory_def bytes_at_def sample_elf_def m_def)
  then show "seg_view m 0x2000 0 h 0x8000000078 = Some (0xCD, False, True)"
    using page by (simp add: seg_view_def pages_view_def seg_byte_def sample_elf_segment segment_flags_def PF_W_def PF_X_def h_def)
qed


end
