(* ===== verification/Multiboot_Modules.thy ===== *)
theory Multiboot_Modules
  imports Pmm_Multiboot
begin

text \<open>
  The search for a boot module by name, \<^verbatim>\<open>kernel/mm/multiboot_modules.c\<close>, over a byte memory. A
  C string is the address of its first byte. The loops follow the bytes they find, so each of
  them is a function whose value \<open>None\<close> means that it never ends. The offset of a tag is a 32-bit
  number whose sums wrap, except for the bound of the loop, which the code computes in 64 bits.
\<close>

section \<open>Operations\<close>

record sb_multiboot_module =
  m_start :: u64
  m_end :: u64
  m_name :: u64

partial_function (option) str_equal_loop :: "memory \<Rightarrow> u64 \<Rightarrow> u64 \<Rightarrow> int option" where
  "str_equal_loop m a b =
     (if m a \<noteq> 0 \<and> m b \<noteq> 0 then
        if m a \<noteq> m b then Some 0 else str_equal_loop m (a + 1) (b + 1)
      else Some (if m a = m b then 1 else 0))"

definition str_equal :: "memory \<Rightarrow> u64 \<Rightarrow> u64 \<Rightarrow> int option" where
  "str_equal m a b = (if a = 0 \<or> b = 0 then Some 0 else str_equal_loop m a b)"

partial_function (option) name_scan :: "memory \<Rightarrow> u64 \<Rightarrow> u64 option" where
  "name_scan m p = (if m p \<noteq> 0 \<and> m p \<noteq> 0x20 then name_scan m (p + 1) else Some p)"

definition mb_module_name :: "memory \<Rightarrow> u64 \<Rightarrow> u64 option" where
  "mb_module_name m cmdline = (case name_scan m cmdline of None \<Rightarrow> None | Some p \<Rightarrow> Some cmdline)"

text \<open>Does the tag describe a module of this name?\<close>

definition module_match :: "memory \<Rightarrow> u64 \<Rightarrow> u64 \<Rightarrow> bool option" where
  "module_match m tag name =
     (if tag_type m tag = MULTIBOOT2_TAG_TYPE_MODULE \<and> tag_size m tag \<ge> 16 \<and> mod_end m tag > mod_start m tag then
        (case mb_module_name m (tag + 16) of None \<Rightarrow> None
         | Some s \<Rightarrow> map_option (\<lambda>e. e \<noteq> 0) (str_equal m s name))
      else Some False)"

partial_function (option) module_walk ::
    "memory \<Rightarrow> u64 \<Rightarrow> u32 \<Rightarrow> u64 \<Rightarrow> u32 \<Rightarrow> sb_multiboot_module \<Rightarrow> (int \<times> sb_multiboot_module) option" where
  "module_walk m info total_size name offset out =
     (if unat offset + 8 \<le> unat total_size then
        if tag_type m (info + ucast offset) = MULTIBOOT2_TAG_TYPE_END then Some (-1, out)
        else if tag_size m (info + ucast offset) < 8 \<or> offset + tag_size m (info + ucast offset) > total_size
        then Some (-1, out)
        else
          (case module_match m (info + ucast offset) name of
             None \<Rightarrow> None
           | Some found \<Rightarrow>
               if found then
                 Some (0, \<lparr>m_start = ucast (mod_start m (info + ucast offset)),
                           m_end = ucast (mod_end m (info + ucast offset)), m_name = info + ucast offset + 16\<rparr>)
               else
                 module_walk m info total_size name
                   (offset + ((tag_size m (info + ucast offset) + 7) AND NOT 7)) out)
      else Some (-1, out))"

definition multiboot_find_module ::
    "memory \<Rightarrow> u64 \<Rightarrow> u64 \<Rightarrow> sb_multiboot_module option \<Rightarrow> (int \<times> sb_multiboot_module option) option" where
  "multiboot_find_module m info name out =
     (case out of None \<Rightarrow> Some (-1, None)
      | Some md \<Rightarrow>
          if info = 0 \<or> name = 0 then Some (-1, out)
          else
            let total_size = load32 m info in
            if total_size < 16 then Some (-1, out)
            else map_option (\<lambda>(r, md). (r, Some md)) (module_walk m info total_size name 8 md))"

section \<open>Strings\<close>

definition cstring :: "memory \<Rightarrow> u64 \<Rightarrow> u8 list \<Rightarrow> bool" where
  "cstring m a s \<longleftrightarrow> 0 \<notin> set s \<and> (\<forall>i < length s. m (a + of_nat i) = s ! i) \<and> m (a + of_nat (length s)) = 0"

lemma cstring_Nil [simp]: "cstring m a [] \<longleftrightarrow> m a = 0"
  by (simp add: cstring_def)

lemma cstring_Cons [simp]: "cstring m a (c # s) \<longleftrightarrow> c \<noteq> 0 \<and> m a = c \<and> cstring m (a + 1) s"
  by (auto simp: cstring_def All_less_Suc2 add.assoc)

lemma str_equal_loop_cstring:
  "cstring m a s \<Longrightarrow> cstring m b t \<Longrightarrow> str_equal_loop m a b = Some (if s = t then 1 else 0)"
proof (induction s arbitrary: a b t)
  case Nil
  then show ?case by (cases t) (simp_all add: str_equal_loop.simps)
next
  case (Cons c s)
  show ?case
  proof (cases t)
    case (Cons d u)
    then show ?thesis
      using Cons.prems Cons.IH [of "a + 1" "b + 1" u] by (simp add: str_equal_loop.simps [of m a b])
  qed (use Cons.prems in \<open>simp add: str_equal_loop.simps\<close>)
qed

lemma name_scan_ends: "cstring m a s \<Longrightarrow> \<exists>p. name_scan m a = Some p"
proof (induction s arbitrary: a)
  case Nil
  then show ?case by (simp add: name_scan.simps)
next
  case (Cons c s)
  then show ?case using Cons.IH [of "a + 1"] by (simp add: name_scan.simps [of m a])
qed

section \<open>The search\<close>

text \<open>
  A well-formed block: the offsets of its tags, which end at an end tag or at the end of the block.
\<close>

inductive tags_at :: "memory \<Rightarrow> u64 \<Rightarrow> nat \<Rightarrow> nat \<Rightarrow> nat list \<Rightarrow> bool" for m info total_size where
  tags_end: "total_size < off + 8 \<or> tag_type m (info + of_nat off) = 0 \<Longrightarrow> tags_at m info total_size off []"
| tags_tag: "off + 8 \<le> total_size \<Longrightarrow> tag_type m (info + of_nat off) \<noteq> 0 \<Longrightarrow>
    8 \<le> unat (tag_size m (info + of_nat off)) \<Longrightarrow> off + unat (tag_size m (info + of_nat off)) \<le> total_size \<Longrightarrow>
    tags_at m info total_size (off + (unat (tag_size m (info + of_nat off)) + 7) div 8 * 8) offs \<Longrightarrow>
    tags_at m info total_size off (off # offs)"

text \<open>The tag at the offset is a module, not empty, whose string is \<open>s\<close>.\<close>

definition names_module :: "memory \<Rightarrow> u64 \<Rightarrow> u8 list \<Rightarrow> nat \<Rightarrow> bool" where
  "names_module m info s off \<longleftrightarrow>
     (let tag = info + of_nat off in
      tag_type m tag = 3 \<and> 16 \<le> unat (tag_size m tag) \<and> mod_start m tag < mod_end m tag \<and> cstring m (tag + 16) s)"

definition module_at :: "memory \<Rightarrow> u64 \<Rightarrow> nat \<Rightarrow> sb_multiboot_module" where
  "module_at m info off =
     (let tag = info + of_nat off in
      \<lparr>m_start = ucast (mod_start m tag), m_end = ucast (mod_end m tag), m_name = tag + 16\<rparr>)"

text \<open>Every module tag carries a terminated string at an address that is not null.\<close>

definition strings_ok :: "memory \<Rightarrow> u64 \<Rightarrow> nat list \<Rightarrow> bool" where
  "strings_ok m info offs \<longleftrightarrow>
     (\<forall>off \<in> set offs. tag_type m (info + of_nat off) = 3 \<longrightarrow> info + of_nat off + 16 \<noteq> 0 \<and>
        (\<exists>s. cstring m (info + of_nat off + 16) s))"

lemma cstring_unique: "cstring m a s \<Longrightarrow> cstring m a t \<Longrightarrow> s = t"
proof (induction s arbitrary: a t)
  case Nil
  then show ?case by (cases t) auto
next
  case (Cons c s)
  then show ?case by (cases t) auto
qed

lemma module_match_eq:
  assumes "name \<noteq> 0" "cstring m name s" "strings_ok m info [off]"
  shows "module_match m (info + of_nat off) name = Some (names_module m info s off)"
proof (cases "tag_type m (info + of_nat off) = 3 \<and> 16 \<le> tag_size m (info + of_nat off) \<and>
    mod_start m (info + of_nat off) < mod_end m (info + of_nat off)")
  case True
  then obtain t where t: "cstring m (info + of_nat off + 16) t" "info + of_nat off + 16 \<noteq> 0"
    using assms(3) by (auto simp: strings_ok_def)
  obtain p where "name_scan m (info + of_nat off + 16) = Some p" using name_scan_ends [OF t(1)] by blast
  moreover have "s = t \<longleftrightarrow> cstring m (info + of_nat off + 16) s" using cstring_unique t(1) by blast
  ultimately show ?thesis
    using True t assms(1) str_equal_loop_cstring [OF t(1) assms(2)]
    by (auto simp: module_match_def mb_module_name_def str_equal_def names_module_def Let_def
        MULTIBOOT2_TAG_TYPE_MODULE_def word_le_nat_alt)
qed (auto simp: module_match_def names_module_def Let_def MULTIBOOT2_TAG_TYPE_MODULE_def word_le_nat_alt)

lemma round8: "unat x + 7 < 2 ^ 32 \<Longrightarrow> unat ((x + 7) AND NOT 7) = (unat x + 7) div 8 * 8" for x :: u32
proof -
  assume s: "unat x + 7 < 2 ^ 32"
  have "unat (x + 7) = unat x + 7" using s by (subst unat_add_small) simp_all
  moreover have "(7 :: u32) = mask 3" by (simp add: mask_eq_exp_minus_1)
  ultimately show ?thesis using unat_and_not_mask_mult [of "x + 7" 3] by simp
qed

lemma module_walk_first:
  assumes "tags_at m info (unat total_size) off offs" "unat total_size + 16 < 2 ^ 32" "off < 2 ^ 32"
    and "name \<noteq> 0" "cstring m name s" "strings_ok m info offs"
  shows "module_walk m info total_size name (of_nat off) out =
    Some (case find (names_module m info s) offs of None \<Rightarrow> (-1, out) | Some k \<Rightarrow> (0, module_at m info k))"
  using assms(1,3,6)
proof (induction rule: tags_at.induct)
  case (tags_end off)
  have u: "unat (of_nat off :: u32) = off" using tags_end(2) by (intro unat_of_nat_small) simp
  then have c: "ucast (of_nat off :: u32) = (of_nat off :: u64)" using tags_end(2) by (simp add: word_unat_eq_iff unat_of_nat_small)
  show ?case
    using tags_end(1) u c by (subst module_walk.simps) (auto simp: MULTIBOOT2_TAG_TYPE_END_def)
next
  case (tags_tag off offs)
  let ?tag = "info + of_nat off" and ?o = "of_nat off :: u32"
  let ?n = "off + (unat (tag_size m ?tag) + 7) div 8 * 8"
  have u: "unat ?o = off" using tags_tag(7) by (intro unat_of_nat_small) simp
  then have c: "ucast ?o = (of_nat off :: u64)" using tags_tag(7) by (simp add: word_unat_eq_iff unat_of_nat_small)
  have sum: "unat (?o + tag_size m ?tag) = off + unat (tag_size m ?tag)"
    using tags_tag(4) assms(2) u by (subst unat_add_small) simp_all
  have r8: "unat ((tag_size m ?tag + 7) AND NOT 7) = (unat (tag_size m ?tag) + 7) div 8 * 8"
    using tags_tag(4) assms(2) by (intro round8) simp
  have nl: "?n < 2 ^ 32" using tags_tag(4) assms(2) by linarith
  have "unat (?o + ((tag_size m ?tag + 7) AND NOT 7)) = ?n"
    by (subst unat_add_small) (use nl u r8 in simp_all)
  from arg_cong [OF this, of "of_nat :: nat \<Rightarrow> u32"] have nx: "?o + ((tag_size m ?tag + 7) AND NOT 7) = of_nat ?n"
    by (simp only: of_nat_unat ucast_id)
  have mm: "module_match m ?tag name = Some (names_module m info s off)"
    using tags_tag(8) by (intro module_match_eq assms(4,5)) (simp add: strings_ok_def)
  have "module_walk m info total_size name ?o out =
      (if names_module m info s off then Some (0, module_at m info off)
       else module_walk m info total_size name (of_nat ?n) out)"
    using tags_tag(1-4) u c sum mm nx
    by (subst module_walk.simps)
       (simp add: MULTIBOOT2_TAG_TYPE_END_def word_less_nat_alt module_at_def Let_def)
  then show ?case using tags_tag(6) [OF nl] tags_tag(8) by (simp add: strings_ok_def)
qed

definition stuck_block :: "memory \<Rightarrow> u64 \<Rightarrow> u32 \<Rightarrow> bool" where
  "stuck_block m info total_size \<longleftrightarrow>
     16 \<le> total_size \<and> tag_type m (info + 8) \<noteq> 0 \<and> tag_type m (info + 8) \<noteq> 3 \<and> 0xFFFFFFF9 \<le> tag_size m (info + 8)"

lemma stuck_step:
  assumes "stuck_block m info total_size"
  shows "16 \<le> unat total_size" "\<not> tag_size m (info + 8) < 8" "\<not> 8 + tag_size m (info + 8) > total_size"
    "(tag_size m (info + 8) + 7) AND NOT 7 = 0" "module_match m (info + 8) name = Some False"
proof -
  let ?s = "tag_size m (info + 8)"
  have s: "4294967289 \<le> unat ?s" "unat ?s < 4294967296"
    using assms unat_u32_less [of ?s] by (simp_all add: stuck_block_def word_le_nat_alt)
  show t: "16 \<le> unat total_size" using assms by (simp add: stuck_block_def word_le_nat_alt)
  have "(8 + unat ?s) mod 4294967296 = unat ?s - 4294967288" "(unat ?s + 7) mod 4294967296 = unat ?s - 4294967289"
    using s by (simp_all add: le_mod_geq)
  then have u: "unat (8 + ?s) = unat ?s - 4294967288" "unat (?s + 7) = unat ?s - 4294967289"
    by (simp_all add: unat_word_ariths(1))
  show "\<not> ?s < 8" "\<not> 8 + ?s > total_size" using s t u by (simp_all add: word_less_nat_alt)
  have "(7 :: u32) = mask 3" by (simp add: mask_eq_exp_minus_1)
  then have "unat ((?s + 7) AND NOT 7) = 0" using s u(2) unat_and_not_mask_mult [of "?s + 7" 3] by simp
  then show "(?s + 7) AND NOT 7 = 0" by (simp add: word_unat_eq_iff)
  show "module_match m (info + 8) name = Some False"
    using assms by (simp add: stuck_block_def module_match_def MULTIBOOT2_TAG_TYPE_MODULE_def)
qed

lemma module_walk_diverges:
  assumes "stuck_block m info total_size"
  shows "module_walk m info total_size name 8 out = None"
proof (rule ccontr)
  assume "module_walk m info total_size name 8 out \<noteq> None"
  then obtain y where y: "module_walk m info total_size name 8 out = Some y" by blast
  have "offset = 8 \<longrightarrow> \<not> stuck_block m info total_size"
    if "module_walk m info total_size name offset out = Some y" for m info total_size name offset out y
  proof (rule module_walk.raw_induct [where P = "\<lambda>m info total_size name offset out y.
        offset = 8 \<longrightarrow> \<not> stuck_block m info total_size", OF _ that], intro impI notI)
    fix walk m info total_size name offset out y
    assume hyp: "\<And>m info total_size name offset out y. walk m info total_size name offset out = Some y \<Longrightarrow>
        offset = 8 \<longrightarrow> \<not> stuck_block m info total_size"
      and body: "(if unat offset + 8 \<le> unat total_size then
        if tag_type m (info + ucast offset) = MULTIBOOT2_TAG_TYPE_END then Some (-1, out)
        else if tag_size m (info + ucast offset) < 8 \<or> offset + tag_size m (info + ucast offset) > total_size
        then Some (-1, out)
        else
          (case module_match m (info + ucast offset) name of
             None \<Rightarrow> None
           | Some found \<Rightarrow>
               if found then
                 Some (0, \<lparr>m_start = ucast (mod_start m (info + ucast offset)),
                           m_end = ucast (mod_end m (info + ucast offset)), m_name = info + ucast offset + 16\<rparr>)
               else
                 walk m info total_size name
                   (offset + ((tag_size m (info + ucast offset) + 7) AND NOT 7)) out)
      else Some (-1, out)) = Some y"
      and eight: "offset = 8" and st: "stuck_block m info total_size"
    have "walk m info total_size name 8 out = Some y"
      using body eight stuck_step [OF st] st by (simp add: MULTIBOOT2_TAG_TYPE_END_def stuck_block_def)
    with hyp st show False by blast
  qed
  with y assms show False by blast
qed

section \<open>Properties\<close>

text \<open>
  C37. On a well-formed information block whose module tags carry terminated
  strings, the search returns, and its result is the first tag that is a module with a non-empty range whose whole
  string equals the name; without such a tag the result is -1 and the output is left alone.
\<close>

theorem find_module_first:
  assumes "info \<noteq> 0" "name \<noteq> 0" "16 \<le> load32 m info" "unat (load32 m info) + 16 < 2 ^ 32"
    and "tags_at m info (unat (load32 m info)) 8 offs" "cstring m name s" "strings_ok m info offs"
  shows "multiboot_find_module m info name (Some out) =
    Some (case find (names_module m info s) offs of None \<Rightarrow> (-1, Some out) | Some k \<Rightarrow> (0, Some (module_at m info k)))"
  using assms(1-3) module_walk_first [OF assms(5,4) _ assms(2,6,7), of out]
  by (auto simp: multiboot_find_module_def Let_def not_less split: option.split)

text \<open>A block with one module called user-hello, and the name it is searched by behind it.\<close>

definition sample_modules :: memory where
  "sample_modules = bytes_at 0x9000 [48, 0, 0, 0, 0, 0, 0, 0, 3, 0, 0, 0, 27, 0, 0, 0, 0, 32, 0, 0, 124, 32, 0, 0, 117, 115, 101, 114, 45, 104, 101, 108, 108, 111, 0, 0, 0, 0, 0, 0, 0, 0, 0, 0, 8, 0, 0, 0, 117, 115, 101, 114, 45, 104, 101, 108, 108, 111, 0]"

lemma sample_modules_name: "cstring sample_modules 0x9030 [117, 115, 101, 114, 45, 104, 101, 108, 108, 111]" "cstring sample_modules 0x9018 [117, 115, 101, 114, 45, 104, 101, 108, 108, 111]"
  by (simp_all add: sample_modules_def bytes_at_def)

lemma sample_modules_tags: "tags_at sample_modules 0x9000 48 8 [8]"
  by (rule tags_at.intros(2); (rule tags_at.intros(1))?)
     (simp_all add: tag_type_def tag_size_def load32_bytes sample_modules_def bytes_at_def)

theorem find_module_first_witness:
  "multiboot_find_module sample_modules 0x9000 0x9030 (Some \<lparr>m_start = 0, m_end = 0, m_name = 0\<rparr>) =
     Some (0, Some \<lparr>m_start = 0x2000, m_end = 0x207C, m_name = 0x9018\<rparr>)"
proof -
  let ?b = sample_modules
  have sz: "load32 ?b 0x9000 = 48" by (simp add: load32_bytes sample_modules_def bytes_at_def)
  have f: "tag_type ?b 0x9008 = 3" "tag_size ?b 0x9008 = 27" "mod_start ?b 0x9008 = 0x2000" "mod_end ?b 0x9008 = 0x207C"
    by (simp_all add: tag_type_def tag_size_def mod_start_def mod_end_def load32_bytes sample_modules_def bytes_at_def)
  have "Ex (cstring ?b 0x9018)" using sample_modules_name(2) by (rule exI)
  then have st: "strings_ok ?b 0x9000 [8]" by (simp add: strings_ok_def)
  have "names_module ?b 0x9000 [117, 115, 101, 114, 45, 104, 101, 108, 108, 111] 8"
    using f sample_modules_name(2) by (simp add: names_module_def Let_def)
  moreover have "module_at ?b 0x9000 8 = \<lparr>m_start = 0x2000, m_end = 0x207C, m_name = 0x9018\<rparr>"
    using f by (simp add: module_at_def Let_def)
  ultimately show ?thesis
    using find_module_first [of "0x9000" "0x9030" ?b "[8]" "[117, 115, 101, 114, 45, 104, 101, 108, 108, 111]" "\<lparr>m_start = 0, m_end = 0, m_name = 0\<rparr>"]
      sz st sample_modules_tags sample_modules_name(1) by simp
qed

text \<open>
  A block whose first tag claims a size of at least \<open>2\<^sup>3\<^sup>2 - 7\<close> passes the bound check, because the sum wraps,
  and then moves the offset by zero: the search never returns.
\<close>

lemma find_module_diverges:
  assumes "info \<noteq> 0" "name \<noteq> 0" "stuck_block m info (load32 m info)"
  shows "multiboot_find_module m info name (Some out) = None"
  using assms module_walk_diverges [OF assms(3)] by (simp add: multiboot_find_module_def Let_def stuck_block_def not_less)

lemma find_module_diverges_instance:
  "multiboot_find_module (bytes_at 0x9000 [16, 0, 0, 0, 0, 0, 0, 0, 1, 0, 0, 0, 0xFF, 0xFF, 0xFF, 0xFF]) 0x9000 0x9030
     (Some \<lparr>m_start = 0, m_end = 0, m_name = 0\<rparr>) = None"
  by (rule find_module_diverges) (simp_all add: stuck_block_def tag_type_def tag_size_def load32_bytes bytes_at_def)

end
