(* ===== verification/Process_Exec.thy ===== *)
theory Process_Exec
  imports Process Elf_Loader Multiboot_Modules
begin

text \<open>
  Preparing a process for execution, \<^verbatim>\<open>kernel/process_exec.c\<close>: load the ELF image into the
  process's address space, map a zeroed stack below the fixed stack top, and record the entry
  point. The image may come from a boot module. The result \<open>None\<close> stands for a call that never
  returns.
\<close>

section \<open>Operations\<close>

definition SB_USER_STACK_PAGES :: u64 where
  "SB_USER_STACK_PAGES = 4"

record sb_process_image =
  im_entry_point :: u64
  im_user_stack_top :: u64
  im_user_stack_bottom :: u64

text \<open>The body of the stack loop.\<close>

definition stack_page :: "address_space \<Rightarrow> u64 \<Rightarrow> machine \<Rightarrow> int \<times> machine" where
  "stack_page sp va M =
     (let (page, p) = kpmm_alloc_page (kpmm M); M = M\<lparr>kpmm := p\<rparr> in
      if page = 0 then (-1, M)
      else
        let M = M\<lparr>mem := zero_bytes page (mem M)\<rparr>;
            (r, M) = address_space_map_user (Some sp) va page (SB_VMM_WRITABLE OR SB_VMM_NX) M in
        if r \<noteq> 0 then (-1, M\<lparr>kpmm := kpmm_free_page page (kpmm M)\<rparr>) else (0, M))"

partial_function (option) stack_loop :: "address_space \<Rightarrow> u64 \<Rightarrow> u64 \<Rightarrow> machine \<Rightarrow> (int \<times> machine) option" where
  "stack_loop sp stack_top va M =
     (if va < stack_top then
        (case stack_page sp va M of (r, M) \<Rightarrow>
           if r \<noteq> 0 then Some (r, M) else stack_loop sp stack_top (va + SB_PAGE_SIZE) M)
      else Some (0, M))"

definition map_user_stack :: "address_space option \<Rightarrow> u64 \<Rightarrow> u64 \<Rightarrow> machine \<Rightarrow> (int \<times> machine) option" where
  "map_user_stack space bottom stack_top M =
     (case space of None \<Rightarrow> Some (-1, M)
      | Some sp \<Rightarrow>
          if stack_top \<le> bottom \<or> (stack_top - bottom) mod SB_PAGE_SIZE \<noteq> 0 then Some (-1, M)
          else stack_loop sp stack_top bottom M)"

text \<open>The part of \<open>process_prepare_elf\<close> that makes sure there is an address space.\<close>

definition ensure_space :: "nat \<Rightarrow> process_table \<Rightarrow> machine \<Rightarrow> int \<times> process_table \<times> machine" where
  "ensure_space i T M =
     (let p = processes T ! i in
      if pml4_physical (pr_space p) = 0 then
        let (r, space, M) = address_space_create (Some (pr_space p)) M in
        (if r \<noteq> 0 then -1 else 0, T\<lparr>processes := (processes T)[i := p\<lparr>pr_space := the space\<rparr>]\<rparr>, M)
      else (0, T, M))"

definition process_prepare_elf ::
    "nat option \<Rightarrow> u64 \<Rightarrow> u64 \<Rightarrow> sb_process_image option \<Rightarrow> process_table \<Rightarrow> machine \<Rightarrow>
     (int \<times> sb_process_image option \<times> process_table \<times> machine) option" where
  "process_prepare_elf process img img_size image_info T M =
     (case (process, image_info) of
        (Some i, Some info) \<Rightarrow>
          if img = 0 \<or> img_size = 0 then Some (-1, image_info, T, M)
          else
            let (r, T, M) = ensure_space i T M in
            if r \<noteq> 0 then Some (-1, image_info, T, M)
            else
              (case elf64_load_image (Some (pr_space (processes T ! i))) img img_size (Some 0) M of
                 None \<Rightarrow> None
               | Some (r, entry, M) \<Rightarrow>
                   if r \<noteq> 0 then Some (-1, image_info, T, M)
                   else
                     let stack_top = SB_USER_STACK_TOP;
                         stack_bottom = stack_top - SB_USER_STACK_PAGES * SB_PAGE_SIZE in
                     (case map_user_stack (Some (pr_space (processes T ! i))) stack_bottom stack_top M of
                        None \<Rightarrow> None
                      | Some (r, M) \<Rightarrow>
                          if r \<noteq> 0 then Some (-1, image_info, T, M)
                          else
                            let p = (processes T ! i)\<lparr>pr_state := SB_PROCESS_CREATED, pr_entry_point := the entry,
                                                     pr_user_stack_top := stack_top\<rparr> in
                            Some (0, Some (info\<lparr>im_entry_point := the entry, im_user_stack_top := stack_top,
                                               im_user_stack_bottom := stack_bottom\<rparr>),
                                  T\<lparr>processes := (processes T)[i := p]\<rparr>, M)))
      | _ \<Rightarrow> Some (-1, image_info, T, M))"

definition process_prepare_boot_module ::
    "nat option \<Rightarrow> u64 \<Rightarrow> u64 \<Rightarrow> sb_process_image option \<Rightarrow> process_table \<Rightarrow> machine \<Rightarrow>
     (int \<times> sb_process_image option \<times> process_table \<times> machine) option" where
  "process_prepare_boot_module process info name image_info T M =
     (case multiboot_find_module (mem M) info name (Some \<lparr>m_start = 0, m_end = 0, m_name = 0\<rparr>) of
        None \<Rightarrow> None
      | Some (r, md) \<Rightarrow>
          if r \<noteq> 0 then Some (-1, image_info, T, M)
          else if m_end (the md) \<le> m_start (the md) then Some (-1, image_info, T, M)
          else process_prepare_elf process (m_start (the md)) (m_end (the md) - m_start (the md)) image_info T M)"

section \<open>The stack\<close>

definition user_stack_bottom :: u64 where
  "user_stack_bottom = 0x80000FC000"

text \<open>Zeros, writable and not executable.\<close>

definition stack_view :: user_view where
  "stack_view a = (if page_of a \<in> page_set user_stack_bottom SB_USER_STACK_TOP then Some (0, True, False) else None)"

definition zero_view :: "u64 set \<Rightarrow> user_view" where
  "zero_view P a = (if page_of a \<in> P then Some (0, True, False) else None)"

lemma stack_page_fresh: "stack_page sp va M = fresh_page sp va (SB_VMM_WRITABLE OR SB_VMM_NX) zero_bytes M"
  unfolding stack_page_def fresh_page_def Let_def by (simp split: prod.split)

lemma zero_bytes_fills: "fills_page zero_bytes"
  by (simp add: fills_page_def zero_bytes_apply page_of_diff)

lemma stack_flags: "bit (SB_VMM_WRITABLE OR SB_VMM_NX) 1" "bit (SB_VMM_WRITABLE OR SB_VMM_NX) 63"
  by (simp_all add: bit_or_iff)

lemma stack_page_outcome:
  assumes "space_ok sp M" "page_aligned va" "user_address va" "stack_page sp va M = (r, M')"
  shows "load_outcome sp M 1 (zero_view {va}) True r M'"
proof -
  note f = assms(4) [unfolded stack_page_fresh]
  note e = fresh_page_effect [OF assms(1) zero_bytes_fills f]
  have wf: "space_wf sp M" using assms(1) by (simp add: space_ok_def)
  have dom: "dom (zero_view {va}) \<inter> dom (user_view sp M) = {} \<longleftrightarrow> va \<notin> dom (user_map sp M)"
  proof -
    have "dom (zero_view {va}) = {a. page_of a = va}" by (auto simp: zero_view_def split: if_splits)
    moreover have "a \<in> dom (user_view sp M) \<longleftrightarrow> va \<in> dom (user_map sp M)" if "page_of a = va" for a
      using user_view_dom [OF wf, of a] that by simp
    ultimately show ?thesis using page_of_id [OF assms(2)] by blast
  qed
  have "user_view sp M' = user_view sp M ++ zero_view {va}" if "r = 0"
  proof -
    have "zero_bytes c m (c + (a AND PAGE_OFFSET_MASK)) = 0" for c a m
    proof -
      have "unat (a AND PAGE_OFFSET_MASK) < 4096"
        using unat_and_mask [of a 12] by (simp add: PAGE_OFFSET_MASK_def mask_eq_exp_minus_1)
      then show ?thesis by (simp add: zero_bytes_apply)
    qed
    with fresh_page_view(2) [OF assms(1) zero_bytes_fills f that] stack_flags show ?thesis
      by (auto simp: map_add_def zero_view_def fun_eq_iff)
  qed
  with e dom assms(2,3) show ?thesis by (auto simp: load_outcome_def)
qed

lemma stack_loop_outcome:
  assumes "page_aligned hi" "unat hi \<le> 2 ^ 40" "space_ok sp M" "page_aligned va" "2 ^ 39 \<le> unat va" "unat va + 4096 * k = unat hi"
  shows "\<exists>r M'. stack_loop sp hi va M = Some (r, M') \<and> load_outcome sp M k (zero_view (page_set va hi)) True r M'"
  using assms(3-6)
proof (induction k arbitrary: va M)
  case 0
  then have "va = hi" by (simp add: word_unat_eq_iff)
  then have "page_set va hi = {}" "\<not> va < hi" by (auto simp: page_set_def)
  moreover have "zero_view {} = Map.empty" by (simp add: zero_view_def fun_eq_iff)
  ultimately show ?case using load_outcome_refl [OF 0(1)] by (simp add: stack_loop.simps)
next
  case (Suc k)
  have lt: "va < hi" using Suc.prems(4) by (simp add: word_less_nat_alt)
  have hi47: "unat hi \<le> 2 ^ 47" using assms(2) by simp
  note nx = aligned_next [OF Suc.prems(2) assms(1) lt hi47]
  obtain r M1 where sp: "stack_page sp va M = (r, M1)" by fastforce
  have "user_address va" using Suc.prems(3,4) assms(2) by (simp add: user_address_range)
  note o1 = stack_page_outcome [OF Suc.prems(1,2) this sp]
  let ?V = "zero_view {va}" and ?W = "zero_view (page_set (va + SB_PAGE_SIZE) hi)"
  have sum: "zero_view (page_set va hi) = ?V ++ ?W" "dom ?V \<inter> dom ?W = {}"
    using nx(4,5) by (auto simp: zero_view_def map_add_def fun_eq_iff split: if_splits)
  show ?case
  proof (cases "r = 0")
    case False
    then have "load_outcome sp M (Suc k) (?V ++ ?W) True r M1" using o1 by (auto simp: load_outcome_def)
    then show ?thesis using False lt sp sum(1) by (subst stack_loop.simps) auto
  next
    case True
    have ok1: "space_ok sp M1" using o1 space_growD(1) by (auto simp: load_outcome_def)
    obtain r2 M2 where ih: "stack_loop sp hi (va + SB_PAGE_SIZE) M1 = Some (r2, M2)" "load_outcome sp M1 k ?W True r2 M2"
      using Suc.IH [OF ok1 nx(2)] Suc.prems(3,4) nx(1) by auto
    have "stack_loop sp hi va M = Some (r2, M2)" using ih(1) lt sp True by (subst stack_loop.simps) simp
    then show ?thesis using load_outcome_trans [OF o1 [unfolded True] ih(2) sum(2)] sum(1) by simp
  qed
qed

lemma stack_bounds:
  "SB_USER_STACK_TOP - SB_USER_STACK_PAGES * SB_PAGE_SIZE = user_stack_bottom"
  "(SB_USER_STACK_TOP - user_stack_bottom) mod SB_PAGE_SIZE = 0" "\<not> SB_USER_STACK_TOP \<le> user_stack_bottom"
  "page_aligned user_stack_bottom" "page_aligned SB_USER_STACK_TOP" "unat SB_USER_STACK_TOP \<le> 2 ^ 40"
  "2 ^ 39 \<le> unat user_stack_bottom" "unat user_stack_bottom + 4096 * 4 = unat SB_USER_STACK_TOP"
  by (simp_all add: SB_USER_STACK_TOP_def SB_USER_STACK_PAGES_def SB_PAGE_SIZE_def user_stack_bottom_def page_aligned_def)

lemma stack_view_zero: "stack_view = zero_view (page_set user_stack_bottom SB_USER_STACK_TOP)"
  by (simp add: stack_view_def zero_view_def fun_eq_iff)

lemma map_user_stack_outcome:
  assumes "space_ok sp M"
  shows "\<exists>r M'. map_user_stack (Some sp) user_stack_bottom SB_USER_STACK_TOP M = Some (r, M') \<and>
    load_outcome sp M 4 stack_view True r M'"
  using stack_loop_outcome [OF stack_bounds(5,6) assms stack_bounds(4,7,8)]
  by (simp add: map_user_stack_def stack_bounds(2,3) stack_view_zero)

section \<open>The abstract preparation\<close>

definition exec_spec :: "memory \<Rightarrow> u64 \<Rightarrow> nat \<Rightarrow> user_view \<Rightarrow> (user_view \<times> u64) option" where
  "exec_spec m img n v =
     (case elf_load_spec m img n v of
        None \<Rightarrow> None
      | Some (v', entry) \<Rightarrow> if dom stack_view \<inter> dom v' = {} then Some (v' ++ stack_view, entry) else None)"

definition exec_pages :: "memory \<Rightarrow> u64 \<Rightarrow> nat" where
  "exec_pages m img = pages_needed (load_bias (elf64_header_at m img)) (segments m img) + 4"

lemma procs_grow:
  assumes "spaces_inv T M" "proc_used T i" "space_grow (proc_space T i) M M'"
  shows "spaces_inv T M'" "proc_used T j \<Longrightarrow> j \<noteq> i \<Longrightarrow> user_view (proc_space T j) M' = user_view (proc_space T j) M"
proof -
  have ok: "space_ok (proc_space T k) M" if "proc_used T k" for k using assms(1) that by (simp add: spaces_inv_def)
  have dis: "footprint (proc_space T k) M \<inter> footprint (proc_space T l) M = {}" if "proc_used T k" "proc_used T l" "k \<noteq> l" for k l
    using assms(1) that by (simp add: spaces_inv_def)
  have g: "space_ok (proc_space T k) M' \<and> footprint (proc_space T k) M' = footprint (proc_space T k) M \<and>
      footprint (proc_space T i) M' \<inter> footprint (proc_space T k) M' = {}" if "proc_used T k" "k \<noteq> i" for k
    using grow_other [OF ok [OF assms(2)] ok [OF that(1)] dis [OF assms(2) that(1)] assms(3)] that(2) by blast
  have gi: "space_ok (proc_space T i) M'" using space_growD(1) [OF assms(3)] .
  have "footprint (proc_space T k) M' \<inter> footprint (proc_space T l) M' = {}" if "proc_used T k" "proc_used T l" "k \<noteq> l" for k l
    using that g [of k] g [of l] dis [OF that] by (cases "k = i"; cases "l = i") auto
  moreover have "space_ok (proc_space T k) M'" if "proc_used T k" for k using g [of k] gi that by (cases "k = i") auto
  ultimately show "spaces_inv T M'" using space_ok_pmm [OF gi] by (simp add: spaces_inv_def)
  show "user_view (proc_space T j) M' = user_view (proc_space T j) M" if "proc_used T j" "j \<noteq> i"
    using grow_other_view [OF ok [OF assms(2)] ok [OF that(1)] dis [OF assms(2) that(1)] assms(3)] that(2) by blast
qed

text \<open>Loading the image and mapping the stack, on the level of one address space.\<close>

lemma exec_space_outcome:
  assumes "space_ok sp M" "image_apart sp img (unat n) M"
  obtains r e M1 r2 M2 where
    "elf64_load_image (Some sp) img n (Some 0) M = Some (r, e, M1)" "space_grow sp M M1"
    "r \<noteq> 0 \<Longrightarrow> exec_spec (mem M) img (unat n) (user_view sp M) = None \<or>
      card (kpmm_avail (kpmm M)) < 4 * exec_pages (mem M) img"
    "map_user_stack (Some sp) user_stack_bottom SB_USER_STACK_TOP M1 = Some (r2, M2)" "space_grow sp M M2"
    "r = 0 \<Longrightarrow> r2 = 0 \<Longrightarrow> exec_spec (mem M) img (unat n) (user_view sp M) = Some (user_view sp M2, the e)"
    "r = 0 \<Longrightarrow> r2 \<noteq> 0 \<Longrightarrow> exec_spec (mem M) img (unat n) (user_view sp M) = None \<or>
      card (kpmm_avail (kpmm M)) < 4 * exec_pages (mem M) img"
proof -
  let ?p = "pages_needed (load_bias (elf64_header_at (mem M) img)) (segments (mem M) img)"
  obtain r e M1 where l: "elf64_load_image (Some sp) img n (Some 0) M = Some (r, e, M1)" "space_grow sp M M1"
    "r = 0 \<longrightarrow> e \<noteq> None \<and> elf_load_spec (mem M) img (unat n) (user_view sp M) = Some (user_view sp M1, the e) \<and>
      card (kpmm_avail (kpmm M)) \<le> card (kpmm_avail (kpmm M1)) + 4 * ?p"
    "r \<noteq> 0 \<longrightarrow> elf_load_spec (mem M) img (unat n) (user_view sp M) = None \<or> card (kpmm_avail (kpmm M)) < 4 * ?p"
    using elf_load_outcome [OF assms, of 0] by blast
  obtain r2 M2 where s: "map_user_stack (Some sp) user_stack_bottom SB_USER_STACK_TOP M1 = Some (r2, M2)"
    "load_outcome sp M1 4 stack_view True r2 M2"
    using map_user_stack_outcome [OF space_growD(1) [OF l(2)]] by blast
  have g: "space_grow sp M M2" using l(2) s(2) space_grow_trans by (auto simp: load_outcome_def)
  show ?thesis
    by (rule that [OF l(1,2) _ s(1) g]) (use l(3,4) s(2) in \<open>auto simp: exec_spec_def exec_pages_def load_outcome_def\<close>)
qed

lemma prepare_table:
  assumes "procs_ok T M" "proc_used T i" "space_grow (proc_space T i) M M'"
    and "T' = T\<lparr>processes := (processes T)[i := (processes T ! i)\<lparr>pr_state := SB_PROCESS_CREATED,
      pr_entry_point := e, pr_user_stack_top := t\<rparr>]\<rparr>"
  shows "procs_ok T' M' \<and> others_kept i T M T' M' \<and> proc_space T' i = proc_space T i"
proof -
  let ?q = "(processes T ! i)\<lparr>pr_state := SB_PROCESS_CREATED, pr_entry_point := e, pr_user_stack_top := t\<rparr>"
  have inv: "table_inv T" "spaces_inv T M" "length (processes T) = SB_MAX_PROCESSES"
    using assms(1) by (simp_all add: procs_ok_def table_inv_def)
  have i: "i < 32" by (rule proc_used_bound [OF assms(2)])
  have pr: "processes T' = (processes T)[i := ?q]" by (simp add: assms(4))
  have q: "processes T' ! i = ?q" using pr i inv(3) by (simp add: SB_MAX_PROCESSES_def)
  have "0 < unat (process_count_value T)"
  proof -
    have "0 < card {j. proc_used T j}" using assms(2) by (auto simp: card_gt_0_iff)
    then show ?thesis using inv(1) by (simp add: table_inv_def)
  qed
  then have ti: "table_inv T'"
    using inv(1) i assms(2) by (intro table_inv_update [OF inv(1) i pr]) (simp_all add: table_inv_def SB_MAX_PROCESSES_def assms(4))
  have used: "proc_used T' j \<longleftrightarrow> proc_used T j" for j using used_update [OF i inv(3) pr, of j] assms(2) by auto
  have ps: "proc_space T' j = proc_space T j" for j using q pr by (cases "j = i") (simp_all add: proc_space_def)
  note g = procs_grow [OF inv(2) assms(2,3)]
  have "spaces_inv T' M'" using g(1) used ps by (simp add: spaces_inv_def)
  then show ?thesis using ti ps g(2) pr by (simp add: procs_ok_def others_kept_def)
qed

lemma space_root:
  assumes "space_ok sp M"
  shows "pml4_physical sp \<noteq> 0"
proof -
  have "pml4_physical sp \<in> footprint sp M"
    by (simp add: footprint_def space_tables_def tree_pages_def) (metis slot_path_Nil tab.simps(1))
  then show ?thesis
    using footprint_owned [OF assms] kp.owned_page [OF space_ok_pmm [OF assms], of "pml4_physical sp"] by blast
qed

lemma process_prepare_outcome:
  assumes "procs_ok T M" "proc_used T i" "image_apart (proc_space T i) img (unat n) M" "img \<noteq> 0" "n \<noteq> 0"
  shows "\<exists>r info' T' M'. process_prepare_elf (Some i) img n (Some info) T M = Some (r, info', T', M') \<and>
    procs_ok T' M' \<and> others_kept i T M T' M' \<and>
    (r = 0 \<longrightarrow> (\<exists>e. exec_spec (mem M) img (unat n) (user_view (proc_space T i) M) = Some (user_view (proc_space T' i) M', e) \<and>
       info' = Some (info\<lparr>im_entry_point := e, im_user_stack_top := SB_USER_STACK_TOP, im_user_stack_bottom := user_stack_bottom\<rparr>) \<and>
       pr_entry_point (processes T' ! i) = e \<and> pr_user_stack_top (processes T' ! i) = SB_USER_STACK_TOP \<and>
       pr_state (processes T' ! i) = SB_PROCESS_CREATED)) \<and>
    (r \<noteq> 0 \<longrightarrow> r = -1 \<and> T' = T \<and> info' = Some info \<and>
       (exec_spec (mem M) img (unat n) (user_view (proc_space T i) M) = None \<or>
        card (kpmm_avail (kpmm M)) < 4 * exec_pages (mem M) img))"
proof -
  let ?sp = "proc_space T i"
  have inv: "spaces_inv T M" "table_inv T" using assms(1) by (simp_all add: procs_ok_def)
  have ok: "space_ok ?sp M" using inv(1) assms(2) by (simp add: spaces_inv_def)
  have en: "ensure_space i T M = (0, T, M)" using space_root [OF ok] by (simp add: ensure_space_def proc_space_def Let_def)
  obtain r e M1 r2 M2 where x: "elf64_load_image (Some ?sp) img n (Some 0) M = Some (r, e, M1)" "space_grow ?sp M M1"
    "r \<noteq> 0 \<Longrightarrow> exec_spec (mem M) img (unat n) (user_view ?sp M) = None \<or> card (kpmm_avail (kpmm M)) < 4 * exec_pages (mem M) img"
    "map_user_stack (Some ?sp) user_stack_bottom SB_USER_STACK_TOP M1 = Some (r2, M2)" "space_grow ?sp M M2"
    "r = 0 \<Longrightarrow> r2 = 0 \<Longrightarrow> exec_spec (mem M) img (unat n) (user_view ?sp M) = Some (user_view ?sp M2, the e)"
    "r = 0 \<Longrightarrow> r2 \<noteq> 0 \<Longrightarrow> exec_spec (mem M) img (unat n) (user_view ?sp M) = None \<or>
      card (kpmm_avail (kpmm M)) < 4 * exec_pages (mem M) img"
    using exec_space_outcome [OF ok assms(3)] by blast
  let ?q = "(processes T ! i)\<lparr>pr_state := SB_PROCESS_CREATED, pr_entry_point := the e, pr_user_stack_top := SB_USER_STACK_TOP\<rparr>"
  let ?T = "T\<lparr>processes := (processes T)[i := ?q]\<rparr>"
  let ?info = "info\<lparr>im_entry_point := the e, im_user_stack_top := SB_USER_STACK_TOP, im_user_stack_bottom := user_stack_bottom\<rparr>"
  have call: "process_prepare_elf (Some i) img n (Some info) T M =
      (if r \<noteq> 0 then Some (-1, Some info, T, M1) else if r2 \<noteq> 0 then Some (-1, Some info, T, M2)
       else Some (0, Some ?info, ?T, M2))"
    using assms(4,5) en x(1,4) by (simp add: process_prepare_elf_def Let_def proc_space_def stack_bounds(1))
  have same: "procs_ok T M' \<and> others_kept i T M T M'" if "space_grow ?sp M M'" for M'
    using procs_grow [OF inv(1) assms(2) that] inv(2) by (simp add: procs_ok_def others_kept_def)
  have i: "processes ?T ! i = ?q" using proc_used_bound [OF assms(2)] inv(2) by (simp add: table_inv_def SB_MAX_PROCESSES_def)
  consider "r \<noteq> 0" | "r = 0" "r2 \<noteq> 0" | "r = 0" "r2 = 0" by blast
  then show ?thesis
  proof cases
    case 1
    then show ?thesis using call same [OF x(2)] x(3) by auto
  next
    case 2
    then show ?thesis using call same [OF x(5)] x(7) by auto
  next
    case 3
    then show ?thesis using call prepare_table [OF assms(1,2) x(5) refl, where e = "the e" and t = SB_USER_STACK_TOP] x(6) i by simp
  qed
qed

section \<open>Sequences of operations\<close>

text \<open>The image of a program lies in reserved pages, which the allocator never hands out.\<close>

definition image_reserved :: "u64 \<Rightarrow> nat \<Rightarrow> machine \<Rightarrow> bool" where
  "image_reserved img n M \<longleftrightarrow> (\<forall>k < n. page_of (img + of_nat k) \<notin> kpmm_avail (kpmm M) \<union> kpmm_owned (kpmm M))"

inductive proc_step :: "process_table \<times> machine \<Rightarrow> process_table \<times> machine \<Rightarrow> bool" where
  step_create: "process_create pid T M = (res, T', M') \<Longrightarrow> proc_step (T, M) (T', M')"
| step_thread: "i < SB_MAX_PROCESSES \<Longrightarrow> process_create_thread (Some i) tid priority T = (thr, T') \<Longrightarrow>
    proc_step (T, M) (T', M)"
| step_activate: "i < SB_MAX_PROCESSES \<Longrightarrow> process_activate (Some i) T M = (r, M') \<Longrightarrow> proc_step (T, M) (T, M')"
| step_prepare: "proc_used T i \<Longrightarrow> image_reserved img (unat n) M \<Longrightarrow>
    process_prepare_elf (Some i) img n (Some info) T M = Some (r, info', T', M') \<Longrightarrow> proc_step (T, M) (T', M')"
| step_destroy: "i < SB_MAX_PROCESSES \<Longrightarrow> process_destroy (Some i) T M = (T', M') \<Longrightarrow> proc_step (T, M) (T', M')"

inductive_cases proc_stepE: "proc_step (T, M) S"

lemma image_reserved_apart: "space_ok sp M \<Longrightarrow> image_reserved img n M \<Longrightarrow> image_apart sp img n M"
  using footprint_owned [of sp M] by (auto simp: image_reserved_def image_apart_def footprint_def)

lemma procs_ok_cr3: "procs_ok T M \<Longrightarrow> procs_ok T (M\<lparr>cr3 := c\<rparr>)"
proof -
  assume "procs_ok T M"
  have m: "mem (M\<lparr>cr3 := c\<rparr>) = mem M" by simp
  note \<open>procs_ok T M\<close>
  moreover have "space_ok sp (M\<lparr>cr3 := c\<rparr>) \<longleftrightarrow> space_ok sp M" for sp
    by (simp add: space_ok_def space_wf_def tree_wf_def view_mem(2) [OF m] user_map_mem [OF m])
  moreover have "footprint sp (M\<lparr>cr3 := c\<rparr>) = footprint sp M" for sp by (rule view_mem(3) [OF m])
  ultimately show ?thesis by (simp add: procs_ok_def spaces_inv_def)
qed

lemma proc_step_inv:
  assumes "procs_ok T M" "proc_step (T, M) (T', M')"
  shows "procs_ok T' M'"
  using assms(2)
proof (cases rule: proc_step.cases)
  case (step_create pid res)
  then show ?thesis using process_create_effect [OF assms(1)] by blast
next
  case (step_thread i tid priority thr)
  then show ?thesis using process_create_thread_effect [OF assms(1)] by (auto simp: SB_MAX_PROCESSES_def)
next
  case (step_activate i r)
  then show ?thesis using assms(1) procs_ok_cr3 [OF assms(1)]
    by (auto simp: process_activate_def address_space_activate_def split: if_splits)
next
  case (step_prepare i img n info r info')
  show ?thesis
  proof (cases "img = 0 \<or> n = 0")
    case True
    then show ?thesis using step_prepare(3) assms(1) by (auto simp: process_prepare_elf_def)
  next
    case False
    have "space_ok (proc_space T i) M" using assms(1) step_prepare(1) by (simp add: procs_ok_def spaces_inv_def)
    from process_prepare_outcome [OF assms(1) step_prepare(1) image_reserved_apart [OF this step_prepare(2)], of info]
      False step_prepare(3) show ?thesis by auto
  qed
next
  case (step_destroy i)
  then show ?thesis using process_destroy_effect [OF assms(1)] by (auto simp: SB_MAX_PROCESSES_def)
qed

lemma process_init_ok: "kpmm_ok (kpmm M) \<Longrightarrow> procs_ok (process_init T) M"
proof -
  have z: "processes (process_init T) ! i = zero_process" if "i < 32" for i
    using that by (simp add: process_init_def SB_MAX_PROCESSES_def zero_process_def)
  then have "\<not> proc_used (process_init T) i" for i
    by (auto simp: proc_used_def SB_MAX_PROCESSES_def zero_process_def)
  then show "kpmm_ok (kpmm M) \<Longrightarrow> procs_ok (process_init T) M"
    using z by (auto simp: procs_ok_def table_inv_def spaces_inv_def SB_MAX_PROCESSES_def zero_process_def
        SB_MAX_THREADS_PER_PROCESS_def) (simp_all add: process_init_def SB_MAX_PROCESSES_def)
qed

text \<open>
  Destroying a process gives back the root table only: every other page of its address space, table or frame, stays
  owned although no process uses it any more.
\<close>

lemma destroy_keeps_pages_owned:
  assumes "procs_ok T M" "proc_used T i" "process_destroy (Some i) T M = (T', M')"
  shows "footprint (proc_space T i) M - {pml4_physical (proc_space T i)} \<subseteq> kpmm_owned (kpmm M')"
proof -
  have "space_ok (proc_space T i) M" using assms(1,2) by (simp add: procs_ok_def spaces_inv_def)
  then show ?thesis
    using process_destroy_effect [OF assms(1) proc_used_bound [OF assms(2)] assms(3)] footprint_owned assms(2) by auto
qed

section \<open>Properties\<close>

text \<open>
  C8. Preparing a process returns, and it implements the abstract
  preparation: on success the program sees its old view with the segments of the image and four
  zeroed, writable, non-executable stack pages added, and the process and the caller's record hold
  the entry point and the stack bounds; on failure the result is -1, the table is unchanged, and
  the abstract preparation is impossible or fewer than four pages per page to map are available.
  Either way the table invariant is kept and every other process keeps its slot and every
  byte and permission of its address space.
\<close>

theorem process_prepare_refines:
  assumes "procs_ok T M" "proc_used T i" "image_apart (proc_space T i) img (unat n) M" "img \<noteq> 0" "n \<noteq> 0"
  shows "\<exists>r info' T' M'. process_prepare_elf (Some i) img n (Some info) T M = Some (r, info', T', M') \<and>
    procs_ok T' M' \<and> others_kept i T M T' M' \<and>
    (r = 0 \<longrightarrow> (\<exists>e. exec_spec (mem M) img (unat n) (user_view (proc_space T i) M) = Some (user_view (proc_space T' i) M', e) \<and>
       info' = Some (info\<lparr>im_entry_point := e, im_user_stack_top := SB_USER_STACK_TOP, im_user_stack_bottom := user_stack_bottom\<rparr>) \<and>
       pr_entry_point (processes T' ! i) = e \<and> pr_user_stack_top (processes T' ! i) = SB_USER_STACK_TOP \<and>
       pr_state (processes T' ! i) = SB_PROCESS_CREATED)) \<and>
    (r \<noteq> 0 \<longrightarrow> r = -1 \<and> T' = T \<and> info' = Some info \<and>
       (exec_spec (mem M) img (unat n) (user_view (proc_space T i) M) = None \<or>
        card (kpmm_avail (kpmm M)) < 4 * exec_pages (mem M) img))"
  by (rule process_prepare_outcome [OF assms])

text \<open>The sample process: slot 0 with the sample address space, beside the sample image.\<close>

definition sample_procs :: process_table where
  "sample_procs = \<lparr>processes = zero_process\<lparr>pr_pid := 1, pr_state := SB_PROCESS_CREATED, pr_space := fst sample_space\<rparr> #
     replicate 31 zero_process, process_count_value = 1\<rparr>"

lemma sample_procs_used: "proc_used sample_procs i \<longleftrightarrow> i = 0"
  by (cases i) (auto simp: proc_used_def sample_procs_def zero_process_def SB_MAX_PROCESSES_def)

lemma sample_procs_ok: "procs_ok sample_procs sample_image_machine"
proof -
  have sp: "proc_space sample_procs 0 = fst sample_space" by (simp add: proc_space_def sample_procs_def)
  have "length (pr_threads (processes sample_procs ! i)) = 16 \<and> unat (pr_thread_count (processes sample_procs ! i)) \<le> 16 \<and>
      (pr_pid (processes sample_procs ! i) = 0 \<longleftrightarrow> i \<noteq> 0)" if "i < 32" for i
    using that by (cases i) (simp_all add: sample_procs_def zero_process_def SB_MAX_THREADS_PER_PROCESS_def)
  then have "table_inv sample_procs"
    by (simp add: table_inv_def sample_procs_used SB_MAX_PROCESSES_def SB_MAX_THREADS_PER_PROCESS_def)
       (simp add: sample_procs_def)
  moreover have "spaces_inv sample_procs sample_image_machine"
    using sample_image_facts(1) space_ok_pmm [OF sample_image_facts(1)] by (simp add: spaces_inv_def sample_procs_used sp)
  ultimately show ?thesis by (simp add: procs_ok_def)
qed

lemma sample_exec_spec:
  "exec_spec (mem sample_image_machine) 0x2000 124 (user_view (fst sample_space) sample_image_machine) \<noteq> None"
proof -
  let ?h = "program_header sample_elf_memory 0x2000 0"
  have "p \<notin> page_set user_stack_bottom SB_USER_STACK_TOP" if pm: "p \<in> seg_pages 0 ?h" for p
  proof -
    obtain a where a: "p = page_of a" "unat a < 0x8000001100"
      using pm by (auto simp: seg_pages_def Let_def sample_elf_segment)
    have "unat p \<le> unat a" using a(1) by (simp add: unat_page_of)
    with a(2) show ?thesis by (auto simp: page_set_def user_stack_bottom_def word_le_nat_alt)
  qed
  then have "dom stack_view \<inter> dom (seg_view (mem sample_image_machine) 0x2000 0 ?h) = {}"
    by (auto simp: stack_view_def seg_view_def pages_view_def split: if_splits)
  then show ?thesis using sample_load_spec(1) by (simp add: exec_spec_def)
qed

theorem process_prepare_refines_witness:
  "\<exists>info' T' M'. process_prepare_elf (Some 0) 0x2000 124
       (Some \<lparr>im_entry_point = 0, im_user_stack_top = 0, im_user_stack_bottom = 0\<rparr>) sample_procs sample_image_machine =
       Some (0, info', T', M') \<and> procs_ok T' M'"
proof -
  have sp: "proc_space sample_procs 0 = fst sample_space" by (simp add: proc_space_def sample_procs_def)
  have ap: "image_apart (proc_space sample_procs 0) 0x2000 (unat (124 :: u64)) sample_image_machine"
    using sample_image_facts(3) sp by simp
  have "\<not> card (kpmm_avail (kpmm sample_image_machine)) < 4 * exec_pages (mem sample_image_machine) 0x2000"
    using sample_image_facts(5) sample_load_spec(2) by (simp add: exec_pages_def)
  with process_prepare_refines [OF sample_procs_ok _ ap, of "\<lparr>im_entry_point = 0, im_user_stack_top = 0, im_user_stack_bottom = 0\<rparr>"]
    sample_exec_spec sp show ?thesis by (auto simp: sample_procs_used)
qed



end
