(* ===== verification/Framebuffer.thy ===== *)
theory Framebuffer
  imports Vmm Pmm_Multiboot
begin

text \<open>
  The linear framebuffer, \<^verbatim>\<open>kernel/framebuffer.c\<close>. The static variables \<open>current\<close> and
  \<open>available\<close> are one record. Drawing works on the memory that the kernel addresses; mapping the
  buffer goes through the kernel's page tables.
\<close>

section \<open>State and constants\<close>

record framebuffer =
  fb_address :: u64
  fb_pitch :: u32
  fb_width :: u32
  fb_height :: u32
  bits_per_pixel :: u8
  fb_type :: u8
  red_position :: u8
  red_mask_size :: u8
  green_position :: u8
  green_mask_size :: u8
  blue_position :: u8
  blue_mask_size :: u8
  mapped_address :: u64
  mapped_size :: u64
  available :: bool

definition SB_IDENTITY_MAP_LIMIT :: u64 where
  "SB_IDENTITY_MAP_LIMIT = push_bit 30 1"

definition SB_MB2_TAG_FRAMEBUFFER :: u32 where
  "SB_MB2_TAG_FRAMEBUFFER = 8"

definition SB_FB_DIRECT :: u8 where
  "SB_FB_DIRECT = 1"

definition SB_FB_MAX_BPP :: u8 where
  "SB_FB_MAX_BPP = 32"

definition SB_FRAMEBUFFER_VIRTUAL_BASE :: u64 where
  "SB_FRAMEBUFFER_VIRTUAL_BASE = 0x0000005000000000"

definition fb_zero :: framebuffer where
  "fb_zero = \<lparr>fb_address = 0, fb_pitch = 0, fb_width = 0, fb_height = 0, bits_per_pixel = 0, fb_type = 0,
     red_position = 0, red_mask_size = 0, green_position = 0, green_mask_size = 0, blue_position = 0,
     blue_mask_size = 0, mapped_address = 0, mapped_size = 0, available = False\<rparr>"

section \<open>Pixels\<close>

definition align8 :: "u64 \<Rightarrow> u64" where
  "align8 v = (if v > - 1 - 7 then - 1 else (v + 7) AND NOT 7)"

definition component_mask :: "u8 \<Rightarrow> u32" where
  "component_mask bits = (if bits = 0 then 0 else if bits \<ge> 32 then - 1 else push_bit (unat bits) 1 - 1)"

definition scale_component :: "u8 \<Rightarrow> u8 \<Rightarrow> u32" where
  "scale_component v bits =
     (let max_value = component_mask bits in
      if max_value = 0 then 0 else (ucast v * max_value + 127) div 255)"

definition bytes_per_pixel :: "framebuffer \<Rightarrow> u64" where
  "bytes_per_pixel fb = (ucast (bits_per_pixel fb) + 7) div 8"

definition fb_span :: "framebuffer \<Rightarrow> u64" where
  "fb_span fb = ucast (fb_pitch fb) * ucast (fb_height fb)"

definition framebuffer_geometry_ok :: "framebuffer \<Rightarrow> bool" where
  "framebuffer_geometry_ok fb =
     (if \<not> available fb \<or> fb_type fb \<noteq> SB_FB_DIRECT \<or> bytes_per_pixel fb = 0 \<or> bytes_per_pixel fb > 4 \<or>
         bits_per_pixel fb > SB_FB_MAX_BPP \<or> fb_address fb = 0 \<or> fb_span fb = 0 \<or> fb_span fb > - 1 - fb_address fb
      then False
      else if red_position fb \<ge> 32 \<or> green_position fb \<ge> 32 \<or> blue_position fb \<ge> 32 \<or>
         red_mask_size fb > 32 \<or> green_mask_size fb > 32 \<or> blue_mask_size fb > 32 \<or>
         unat (red_position fb) + unat (red_mask_size fb) > unat (bits_per_pixel fb) \<or>
         unat (green_position fb) + unat (green_mask_size fb) > unat (bits_per_pixel fb) \<or>
         unat (blue_position fb) + unat (blue_mask_size fb) > unat (bits_per_pixel fb)
      then False
      else True)"

definition framebuffer_target :: "framebuffer \<Rightarrow> u64 option \<Rightarrow> int \<times> u64 option" where
  "framebuffer_target fb target_address =
     (if target_address = None \<or> \<not> framebuffer_geometry_ok fb then (-1, target_address)
      else if mapped_address fb \<noteq> 0 then
        if mapped_size fb = 0 then (-2, target_address) else (0, Some (mapped_address fb))
      else if fb_address fb \<ge> SB_IDENTITY_MAP_LIMIT \<or> fb_address fb + fb_span fb > SB_IDENTITY_MAP_LIMIT
      then (-3, target_address)
      else (0, Some (fb_address fb)))"

definition pack_pixel :: "framebuffer \<Rightarrow> u8 \<Rightarrow> u8 \<Rightarrow> u8 \<Rightarrow> u32" where
  "pack_pixel fb red green blue =
     (let pixel = push_bit (unat (red_position fb)) (scale_component red (red_mask_size fb));
          pixel = pixel OR push_bit (unat (green_position fb)) (scale_component green (green_mask_size fb)) in
      pixel OR push_bit (unat (blue_position fb)) (scale_component blue (blue_mask_size fb)))"

definition store_pixel :: "u64 \<Rightarrow> u64 \<Rightarrow> u32 \<Rightarrow> memory \<Rightarrow> memory" where
  "store_pixel dst bpp pixel m =
     fold (\<lambda>byte m. m(dst + of_nat byte := ucast (drop_bit (byte * 8) pixel))) [0..<unat bpp] m"

section \<open>Initialisation\<close>

text \<open>The fields of the framebuffer tag are accepted.\<close>

definition fb_tag_ok :: "memory \<Rightarrow> u64 \<Rightarrow> bool" where
  "fb_tag_ok m tag \<longleftrightarrow>
     load64 m (tag + 8) \<noteq> 0 \<and> load32 m (tag + 16) \<noteq> 0 \<and> load32 m (tag + 20) \<noteq> 0 \<and> load32 m (tag + 24) \<noteq> 0 \<and>
     m (tag + 28) \<noteq> 0 \<and> m (tag + 28) \<le> SB_FB_MAX_BPP \<and> (ucast (m (tag + 28)) + 7 :: u64) div 8 \<le> 4 \<and>
     ucast (load32 m (tag + 16)) * ucast (load32 m (tag + 24)) \<le> - 1 - load64 m (tag + 8)"

definition fb_tag :: "memory \<Rightarrow> u64 \<Rightarrow> framebuffer \<Rightarrow> framebuffer" where
  "fb_tag m tag fb =
     (if tag_type m tag = SB_MB2_TAG_FRAMEBUFFER \<and> tag_size m tag \<ge> 32 \<and> fb_tag_ok m tag then
        let fb = fb\<lparr>fb_address := load64 m (tag + 8), fb_pitch := load32 m (tag + 16), fb_width := load32 m (tag + 20),
                    fb_height := load32 m (tag + 24), bits_per_pixel := m (tag + 28), fb_type := m (tag + 29)\<rparr> in
        if m (tag + 29) = SB_FB_DIRECT \<and> tag_size m tag \<ge> 38 then
          let fb = fb\<lparr>red_position := m (tag + 32), red_mask_size := m (tag + 33), green_position := m (tag + 34),
                      green_mask_size := m (tag + 35), blue_position := m (tag + 36), blue_mask_size := m (tag + 37)\<rparr> in
          fb\<lparr>available := framebuffer_geometry_ok fb\<rparr>
        else fb
      else fb)"

fun fb_walk :: "memory \<Rightarrow> u64 \<Rightarrow> u32 \<Rightarrow> nat \<Rightarrow> u32 \<Rightarrow> framebuffer \<Rightarrow> bool \<times> framebuffer" where
  "fb_walk m info total_size 0 offset fb = (available fb, fb)"
| "fb_walk m info total_size (Suc n) offset fb =
     (if offset \<le> total_size - 8 then
        let tag = info + ucast offset in
        if tag_size m tag < 8 \<or> tag_size m tag > total_size - offset then (False, fb)
        else if tag_type m tag = MULTIBOOT2_TAG_TYPE_END then (available fb, fb)
        else
          let fb = fb_tag m tag fb;
              step = align8 (ucast (tag_size m tag)) in
          if step > 0xFFFFFFFF \<or> step > ucast (total_size - offset) then (False, fb)
          else fb_walk m info total_size n (offset + ucast step) fb
      else (available fb, fb))"

definition sb_framebuffer_init :: "memory \<Rightarrow> u64 \<Rightarrow> framebuffer \<Rightarrow> bool \<times> framebuffer" where
  "sb_framebuffer_init m info fb =
     (let fb = fb_zero in
      if info = 0 \<or> info \<ge> 0x40000000 then (False, fb)
      else
        let total_size = load32 m info in
        if total_size < 16 \<or> unat total_size > unat SB_MB2_MAX_INFO_SIZE \<or> total_size AND 7 \<noteq> 0 \<or>
           ucast total_size > - 1 - info then (False, fb)
        else fb_walk m info total_size (unat SB_MB2_MAX_TAGS) 8 fb)"

definition sb_framebuffer_available :: "framebuffer \<Rightarrow> bool" where
  "sb_framebuffer_available fb = available fb"

definition sb_framebuffer_info :: "framebuffer \<Rightarrow> framebuffer option" where
  "sb_framebuffer_info fb = (if available fb then Some fb else None)"

section \<open>Mapping\<close>

text \<open>Pages \<open>i\<close> to \<open>i + n\<close>; after a failure the pages below \<open>i\<close> are unmapped again.\<close>

fun fb_map_loop :: "vmm_layout \<Rightarrow> u64 \<Rightarrow> u64 \<Rightarrow> nat \<Rightarrow> nat \<Rightarrow> machine \<Rightarrow> bool \<times> machine" where
  "fb_map_loop L virtual_start physical_start i 0 M = (True, M)"
| "fb_map_loop L virtual_start physical_start i (Suc n) M =
     (let (r, M) = vmm_map_page L (virtual_start + of_nat i * SB_PAGE_SIZE) (physical_start + of_nat i * SB_PAGE_SIZE)
                     SB_VMM_WRITABLE M in
      if r \<noteq> 0 then
        (False, fold (\<lambda>rollback M. snd (snd (vmm_unmap_page L (virtual_start + of_nat rollback * SB_PAGE_SIZE) None M)))
                  [0..<i] M)
      else fb_map_loop L virtual_start physical_start (Suc i) n M)"

definition sb_framebuffer_map :: "vmm_layout \<Rightarrow> framebuffer \<Rightarrow> machine \<Rightarrow> bool \<times> framebuffer \<times> machine" where
  "sb_framebuffer_map L fb M =
     (if \<not> framebuffer_geometry_ok fb \<or> mapped_address fb \<noteq> 0 then (mapped_address fb \<noteq> 0, fb, M)
      else
        let physical_start = fb_address fb AND PAGE_MASK;
            physical_end = fb_address fb + fb_span fb in
        if physical_end > - 1 - (SB_PAGE_SIZE - 1) then (False, fb, M)
        else
          let physical_end = (physical_end + SB_PAGE_SIZE - 1) AND PAGE_MASK in
          if physical_end \<le> physical_start then (False, fb, M)
          else
            let page_count = (physical_end - physical_start) div SB_PAGE_SIZE in
            if page_count > (- 1 - SB_FRAMEBUFFER_VIRTUAL_BASE) div SB_PAGE_SIZE then (False, fb, M)
            else
              let virtual_start = SB_FRAMEBUFFER_VIRTUAL_BASE;
                  (ok, M) = fb_map_loop L virtual_start physical_start 0 (unat page_count) M in
              if \<not> ok then (False, fb, M)
              else (True, fb\<lparr>mapped_address := virtual_start + (fb_address fb - physical_start),
                             mapped_size := physical_end - physical_start\<rparr>, M))"

section \<open>Drawing\<close>

definition sb_framebuffer_clear :: "framebuffer \<Rightarrow> u8 \<Rightarrow> u8 \<Rightarrow> u8 \<Rightarrow> memory \<Rightarrow> int \<times> memory" where
  "sb_framebuffer_clear fb red green blue m =
     (case framebuffer_target fb (Some 0) of (r, target) \<Rightarrow>
        if r \<noteq> 0 then (-1, m)
        else
          let bpp = bytes_per_pixel fb;
              pixel = pack_pixel fb red green blue in
          (0, fold (\<lambda>y m.
                let row = the target + of_nat y * ucast (fb_pitch fb) in
                fold (\<lambda>x m. store_pixel (row + of_nat x * bpp) bpp pixel m) [0..<unat (fb_width fb)] m)
              [0..<unat (fb_height fb)] m))"

definition sb_framebuffer_draw_pixel :: "framebuffer \<Rightarrow> u32 \<Rightarrow> u32 \<Rightarrow> u8 \<Rightarrow> u8 \<Rightarrow> u8 \<Rightarrow> memory \<Rightarrow> int \<times> memory" where
  "sb_framebuffer_draw_pixel fb x y red green blue m =
     (if x \<ge> fb_width fb \<or> y \<ge> fb_height fb then (-1, m)
      else
        (case framebuffer_target fb (Some 0) of (r, target) \<Rightarrow>
           if r \<noteq> 0 then (-2, m)
           else
             let bpp = bytes_per_pixel fb in
             if ucast y * ucast (fb_pitch fb) > - 1 - ucast x * bpp then (-3, m)
             else (0, store_pixel (the target + ucast y * ucast (fb_pitch fb) + ucast x * bpp) bpp
                        (pack_pixel fb red green blue) m)))"

definition sb_framebuffer_fill_rect ::
    "framebuffer \<Rightarrow> u32 \<Rightarrow> u32 \<Rightarrow> u32 \<Rightarrow> u32 \<Rightarrow> u8 \<Rightarrow> u8 \<Rightarrow> u8 \<Rightarrow> memory \<Rightarrow> int \<times> memory" where
  "sb_framebuffer_fill_rect fb x y width height red green blue m =
     (if width = 0 \<or> height = 0 then (0, m)
      else if x \<ge> fb_width fb \<or> y \<ge> fb_height fb then (-1, m)
      else
        let width = (if width > fb_width fb - x then fb_width fb - x else width);
            height = (if height > fb_height fb - y then fb_height fb - y else height) in
        (case framebuffer_target fb (Some 0) of (r, target) \<Rightarrow>
           if r \<noteq> 0 then (-2, m)
           else
             let bpp = bytes_per_pixel fb;
                 pixel = pack_pixel fb red green blue in
             (0, fold (\<lambda>row_index m.
                   let row_offset = of_nat row_index * ucast (fb_pitch fb) + ucast x * bpp;
                       row = the target + row_offset in
                   fold (\<lambda>column m. store_pixel (row + of_nat column * bpp) bpp pixel m) [0..<unat width] m)
                 [unat y..<unat (y + height)] m)))"

section \<open>The framebuffer never becomes available\<close>

lemma fb_tag_available: "\<not> available fb \<Longrightarrow> \<not> available (fb_tag m tag fb)"
  by (simp add: fb_tag_def Let_def framebuffer_geometry_ok_def)

lemma fb_walk_available: "\<not> available fb \<Longrightarrow> fb_walk m info total_size n offset fb = (r, fb') \<Longrightarrow> \<not> r \<and> \<not> available fb'"
proof (induction n arbitrary: offset fb)
  case (Suc n)
  let ?tag = "info + ucast offset"
  have "\<not> available (fb_tag m ?tag fb)" by (rule fb_tag_available [OF Suc.prems(1)])
  from Suc.IH [OF this] this Suc.prems show ?case by (auto simp: Let_def split: if_splits)
qed simp

lemma init_never_available: "sb_framebuffer_init m info fb = (r, fb') \<Longrightarrow> \<not> r \<and> \<not> available fb'"
proof -
  have na: "\<not> available fb_zero" by (simp add: fb_zero_def)
  show "sb_framebuffer_init m info fb = (r, fb') \<Longrightarrow> \<not> r \<and> \<not> available fb'"
    using na by (auto simp: sb_framebuffer_init_def Let_def split: if_splits dest!: fb_walk_available [OF na])
qed

lemma unavailable_fails:
  assumes "\<not> available fb"
  shows "framebuffer_target fb (Some 0) = (-1, Some 0)" by (simp add: assms framebuffer_target_def framebuffer_geometry_ok_def)

section \<open>What drawing writes\<close>

lemma buffer_inj: "i < 2 ^ 64 \<Longrightarrow> j < 2 ^ 64 \<Longrightarrow> t + of_nat i = t + of_nat j \<longleftrightarrow> i = j" for t :: u64
proof -
  assume "i < 2 ^ 64" "j < 2 ^ 64"
  then have "unat (of_nat i :: u64) = i" "unat (of_nat j :: u64) = j" by (simp_all add: unat_of_nat_small)
  then show ?thesis by (metis add_left_cancel)
qed

lemma store_pixel_at:
  assumes "d + unat bpp \<le> S" "S \<le> 2 ^ 64" "k < S"
  shows "store_pixel (t + of_nat d) bpp px m (t + of_nat k) =
    (if d \<le> k \<and> k < d + unat bpp then ucast (drop_bit ((k - d) * 8) px) else m (t + of_nat k))"
proof -
  have "fold (\<lambda>byte m. m(t + of_nat d + of_nat byte := ucast (drop_bit (byte * 8) px))) [0..<n] m (t + of_nat k) =
      (if d \<le> k \<and> k < d + n then ucast (drop_bit ((k - d) * 8) px) else m (t + of_nat k))" if "n \<le> unat bpp" for n
    using that
  proof (induction n)
    case (Suc n)
    have "d + n < 2 ^ 64" "k < 2 ^ 64" using Suc.prems assms by linarith+
    then have eq: "t + of_nat k = t + of_nat d + of_nat n \<longleftrightarrow> k = d + n"
      using buffer_inj [of k "d + n" t] by (simp only: of_nat_add add.assoc)
    have range: "d \<le> k \<and> k < d + Suc n \<longleftrightarrow> (d \<le> k \<and> k < d + n) \<or> k = d + n" by linarith
    show ?case using Suc.IH Suc.prems by (simp add: fun_upd_apply eq range)
  qed auto
  then show ?thesis by (simp add: store_pixel_def)
qed

lemma store_pixel_outside:
  assumes "d + unat bpp \<le> S" "\<forall>k < S. a \<noteq> t + of_nat k"
  shows "store_pixel (t + of_nat d) bpp px m a = m a"
proof -
  have "fold (\<lambda>byte m. m(t + of_nat d + of_nat byte := ucast (drop_bit (byte * 8) px))) [0..<n] m a = m a"
    if "n \<le> unat bpp" for n
    using that
  proof (induction n)
    case (Suc n)
    have "a \<noteq> t + of_nat d + of_nat n" using assms(2) [rule_format, of "d + n"] Suc.prems assms(1) by (simp add: add.assoc)
    then show ?case using Suc by simp
  qed simp
  then show ?thesis by (simp add: store_pixel_def)
qed

definition draw_row :: "u64 \<Rightarrow> u64 \<Rightarrow> u32 \<Rightarrow> nat \<Rightarrow> nat \<Rightarrow> memory \<Rightarrow> memory" where
  "draw_row t bpp px d n = fold (\<lambda>c. store_pixel (t + of_nat (d + c * unat bpp)) bpp px) [0..<n]"

lemma draw_row_at:
  assumes "S \<le> 2 ^ 64" "k < S" "d + n * unat bpp \<le> S"
  shows "draw_row t bpp px d n m (t + of_nat k) =
    (if d \<le> k \<and> k < d + n * unat bpp then ucast (drop_bit ((k - d) mod unat bpp * 8) px) else m (t + of_nat k))"
  using assms(3)
proof (induction n)
  case (Suc n)
  let ?e = "d + n * unat bpp"
  have step: "draw_row t bpp px d (Suc n) m = store_pixel (t + of_nat ?e) bpp px (draw_row t bpp px d n m)"
    by (simp add: draw_row_def)
  have md: "(k - d) mod unat bpp = k - ?e" if "?e \<le> k" "k < ?e + unat bpp"
  proof -
    define i where "i = k - ?e"
    then have i: "k = ?e + i" using that(1) by simp
    then have "k - d = i + n * unat bpp" "i < unat bpp" using that(2) by linarith+
    then show ?thesis using i by simp
  qed
  have fit: "?e + unat bpp \<le> S" "d + n * unat bpp \<le> S" using Suc.prems by simp_all
  have range: "d \<le> k \<and> k < d + Suc n * unat bpp \<longleftrightarrow> (d \<le> k \<and> k < ?e) \<or> (?e \<le> k \<and> k < ?e + unat bpp)"
    by (simp, linarith)
  show ?case
    unfolding step store_pixel_at [OF fit(1) assms(1,2)] range Suc.IH [OF fit(2)] by (simp add: md)
qed (auto simp: draw_row_def)

lemma draw_row_outside:
  assumes "\<forall>k < S. a \<noteq> t + of_nat k" "d + n * unat bpp \<le> S"
  shows "draw_row t bpp px d n m a = m a"
  using assms(2)
proof (induction n)
  case (Suc n)
  then show ?case
    using store_pixel_outside [of "d + n * unat bpp" bpp S a t] assms(1) by (simp add: draw_row_def)
qed (simp add: draw_row_def)

definition draw_rect :: "u64 \<Rightarrow> u64 \<Rightarrow> u32 \<Rightarrow> nat \<Rightarrow> nat \<Rightarrow> nat \<Rightarrow> nat \<Rightarrow> nat \<Rightarrow> memory \<Rightarrow> memory" where
  "draw_rect t bpp px pitch x n y h = fold (\<lambda>r. draw_row t bpp px (r * pitch + x * unat bpp) n) [y..<y + h]"

lemma draw_rect_at:
  assumes "S \<le> 2 ^ 64" "k < S" "(x + n) * unat bpp \<le> pitch" "(y + h) * pitch \<le> S" "0 < pitch"
  shows "draw_rect t bpp px pitch x n y h m (t + of_nat k) =
    (if y \<le> k div pitch \<and> k div pitch < y + h \<and> x * unat bpp \<le> k mod pitch \<and> k mod pitch < (x + n) * unat bpp
     then ucast (drop_bit ((k mod pitch - x * unat bpp) mod unat bpp * 8) px) else m (t + of_nat k))"
  using assms(4)
proof (induction h)
  case (Suc h)
  let ?r = "y + h" and ?B = "unat bpp"
  have step: "draw_rect t bpp px pitch x n y (Suc h) m =
      draw_row t bpp px (?r * pitch + x * ?B) n (draw_rect t bpp px pitch x n y h m)"
    by (simp add: draw_rect_def)
  have nB: "x * ?B + n * ?B \<le> pitch" using assms(3) by (simp add: add_mult_distrib)
  then have fit: "?r * pitch + x * ?B + n * ?B \<le> S" using Suc.prems by simp
  define q i where qi: "q = k div pitch" "i = k mod pitch"
  have k: "k = q * pitch + i" "i < pitch" using assms(5) by (simp_all add: qi)
  have inrow: "?r * pitch + x * ?B \<le> k \<and> k < ?r * pitch + x * ?B + n * ?B \<longleftrightarrow> q = ?r \<and> x * ?B \<le> i \<and> i < x * ?B + n * ?B"
  proof
    assume a: "?r * pitch + x * ?B \<le> k \<and> k < ?r * pitch + x * ?B + n * ?B"
    then have "?r * pitch \<le> k" "k < Suc ?r * pitch" using nB by simp_all
    then have "q = ?r" unfolding qi by (metis div_nat_eqI mult.commute)
    then show "q = ?r \<and> x * ?B \<le> i \<and> i < x * ?B + n * ?B" using a k by simp
  qed (use k in auto)
  have d: "k - (?r * pitch + x * ?B) = i - x * ?B" if "q = ?r" using that k by simp
  show ?case
    unfolding step draw_row_at [OF assms(1,2) fit] using Suc inrow d
    by (auto simp: add_mult_distrib simp flip: qi)
qed (auto simp: draw_rect_def)

lemma draw_rect_outside:
  assumes "\<forall>k < S. a \<noteq> t + of_nat k" "(x + n) * unat bpp \<le> pitch" "(y + h) * pitch \<le> S"
  shows "draw_rect t bpp px pitch x n y h m a = m a"
  using assms(3)
proof (induction h)
  case (Suc h)
  have "(y + h) * pitch + x * unat bpp + n * unat bpp \<le> S" using Suc.prems assms(2) by (simp add: add_mult_distrib)
  then show ?case using Suc draw_row_outside [OF assms(1)] by (simp add: draw_rect_def)
qed (simp add: draw_rect_def)

section \<open>Reading the screen back\<close>

text \<open>The bytes of the pixel in column \<open>x\<close> of row \<open>y\<close> of a buffer at \<open>t\<close>, and the bytes of a packed pixel.\<close>

definition pixel_at :: "framebuffer \<Rightarrow> u64 \<Rightarrow> memory \<Rightarrow> nat \<Rightarrow> nat \<Rightarrow> u8 list" where
  "pixel_at fb t m x y =
     map (\<lambda>b. m (t + of_nat (y * unat (fb_pitch fb) + x * unat (bytes_per_pixel fb) + b))) [0..<unat (bytes_per_pixel fb)]"

definition pixel_bytes :: "framebuffer \<Rightarrow> u32 \<Rightarrow> u8 list" where
  "pixel_bytes fb px = map (\<lambda>b. ucast (drop_bit (b * 8) px)) [0..<unat (bytes_per_pixel fb)]"

text \<open>The lines of the buffer hold all their pixels; \<open>fb_bytes\<close> is the size of the buffer.\<close>

definition fb_layout_ok :: "framebuffer \<Rightarrow> bool" where
  "fb_layout_ok fb \<longleftrightarrow>
     unat (fb_width fb) * unat (bytes_per_pixel fb) \<le> unat (fb_pitch fb)"

definition fb_bytes :: "framebuffer \<Rightarrow> nat" where
  "fb_bytes fb = unat (fb_height fb) * unat (fb_pitch fb)"

lemma fb_bytes_bound: "fb_bytes fb \<le> 2 ^ 64"
proof -
  have "unat (fb_height fb) \<le> 2 ^ 32" "unat (fb_pitch fb) \<le> 2 ^ 32" 
    using unat_u32_less [of "fb_height fb"] unat_u32_less [of "fb_pitch fb"] by simp_all
  then have "unat (fb_height fb) * unat (fb_pitch fb) \<le> 2 ^ 32 * 2 ^ 32" by (rule mult_le_mono)
  then show ?thesis by (simp add: fb_bytes_def)
qed

lemma pixel_byte_position:
  assumes "fb_layout_ok fb" "x < unat (fb_width fb)" "y < unat (fb_height fb)" "b < unat (bytes_per_pixel fb)"
  defines "k \<equiv> y * unat (fb_pitch fb) + x * unat (bytes_per_pixel fb) + b"
  shows "k < fb_bytes fb" "0 < unat (fb_pitch fb)" "k div unat (fb_pitch fb) = y" "k mod unat (fb_pitch fb) = x * unat (bytes_per_pixel fb) + b"
proof -
  let ?B = "unat (bytes_per_pixel fb)" and ?P = "unat (fb_pitch fb)"
  have "Suc x * ?B \<le> unat (fb_width fb) * ?B" using assms(2) by (intro mult_le_mono) simp_all
  then have i: "x * ?B + b < ?P" using assms(1,4) by (simp add: fb_layout_ok_def)
  have "Suc y * ?P \<le> unat (fb_height fb) * ?P" using assms(3) by (intro mult_le_mono) simp_all
  then show "k < fb_bytes fb" using i by (simp add: k_def fb_bytes_def)
  show "0 < ?P" using i by simp
  show "k div ?P = y" "k mod ?P = x * ?B + b" using i by (simp_all add: k_def add.assoc)
qed

lemma draw_rect_pixel:
  assumes "fb_layout_ok fb" "px < unat (fb_width fb)" "py < unat (fb_height fb)"
    "x + n \<le> unat (fb_width fb)" "y + h \<le> unat (fb_height fb)"
  shows "pixel_at fb t (draw_rect t (bytes_per_pixel fb) c (unat (fb_pitch fb)) x n y h m) px py =
    (if x \<le> px \<and> px < x + n \<and> y \<le> py \<and> py < y + h then pixel_bytes fb c else pixel_at fb t m px py)"
proof -
  let ?B = "unat (bytes_per_pixel fb)" and ?P = "unat (fb_pitch fb)"
  have xn: "(x + n) * ?B \<le> ?P" using mult_le_mono1 [OF assms(4), of ?B] assms(1) unfolding fb_layout_ok_def by linarith
  have yh: "(y + h) * ?P \<le> fb_bytes fb" unfolding fb_bytes_def by (rule mult_le_mono1 [OF assms(5)])
  have col: "x * ?B \<le> px * ?B + b \<longleftrightarrow> x \<le> px" "px * ?B + b < (x + n) * ?B \<longleftrightarrow> px < x + n"
    "x \<le> px \<Longrightarrow> (px * ?B + b - x * ?B) mod ?B = b" if "b < ?B" for b
  proof -
    have d: "(px * ?B + b) div ?B = px" using that by simp
    show "x * ?B \<le> px * ?B + b \<longleftrightarrow> x \<le> px" using d less_eq_div_iff_mult_less_eq [of ?B x "px * ?B + b"] that by simp
    show "px * ?B + b < (x + n) * ?B \<longleftrightarrow> px < x + n" using d div_less_iff_less_mult [of ?B "px * ?B + b" "x + n"] that by simp
    assume "x \<le> px"
    then obtain e where "px = x + e" using le_Suc_ex by blast
    then have "px * ?B + b - x * ?B = b + e * ?B" by (simp add: add_mult_distrib)
    then show "(px * ?B + b - x * ?B) mod ?B = b" using that by simp
  qed
  have at: "draw_rect t (bytes_per_pixel fb) c ?P x n y h m (t + of_nat (py * ?P + px * ?B + b)) =
      (if x \<le> px \<and> px < x + n \<and> y \<le> py \<and> py < y + h then ucast (drop_bit (b * 8) c)
       else m (t + of_nat (py * ?P + px * ?B + b)))" if b: "b < ?B" for b
    unfolding draw_rect_at [OF fb_bytes_bound pixel_byte_position(1) [OF assms(1-3) b] xn yh pixel_byte_position(2) [OF assms(1-3) b]]
      pixel_byte_position(3,4) [OF assms(1-3) b] by (simp add: col [OF b])
  show ?thesis by (auto simp: pixel_at_def pixel_bytes_def at simp del: of_nat_add of_nat_mult)
qed

lemma unat_clipped: "y < height \<Longrightarrow> h \<le> height - y \<Longrightarrow> unat (y + h) = unat y + unat h \<and> unat y + unat h \<le> unat height"
  for y h height :: u32
proof -
  assume "y < height" "h \<le> height - y"
  then have "unat h \<le> unat height - unat y" "unat y < unat height"
    by (simp_all add: word_le_nat_alt word_less_nat_alt unat_sub)
  then have "unat y + unat h \<le> unat height" by simp
  moreover have "unat height < 2 ^ 32" using unat_u32_less [of height] by simp
  ultimately show ?thesis by (simp add: unat_add_small)
qed

lemma fill_rect_draws:
  assumes "framebuffer_target fb (Some 0) = (0, Some t)" "w \<noteq> 0" "h \<noteq> 0" "x < fb_width fb" "y < fb_height fb"
  shows "sb_framebuffer_fill_rect fb x y w h red green blue m =
    (0, draw_rect t (bytes_per_pixel fb) (pack_pixel fb red green blue) (unat (fb_pitch fb))
          (unat x) (unat (min w (fb_width fb - x))) (unat y) (unat (min h (fb_height fb - y))) m)"
proof -
  have clip: "(if v > l then l else v) = min v l" for v l :: u32 by (auto simp: min_def)
  have "unat (y + min h (fb_height fb - y)) = unat y + unat (min h (fb_height fb - y))"
    using unat_clipped [of y "fb_height fb" "min h (fb_height fb - y)"] assms(5) by simp
  then show ?thesis
    using assms by (simp add: sb_framebuffer_fill_rect_def not_le clip draw_rect_def draw_row_def Let_def of_nat_unat add.assoc)
qed


definition fb_sample :: framebuffer where
  "fb_sample = fb_zero\<lparr>fb_address := 0x1000, fb_pitch := 8, fb_width := 2, fb_height := 2, bits_per_pixel := 32, fb_type := SB_FB_DIRECT,
     red_position := 16, red_mask_size := 8, green_position := 8, green_mask_size := 8, blue_mask_size := 8, available := True\<rparr>"


text \<open>C38. \<open>sb_framebuffer_init\<close> reports failure for every boot information block,
also one with a valid direct-colour tag, and leaves the framebuffer unavailable: it assigns \<open>available\<close> the value
of \<open>framebuffer_geometry_ok\<close>, which itself refuses while \<open>available\<close> is 0. After it no drawing operation writes memory
and mapping changes nothing.\<close>

theorem framebuffer_never_available:
  "case sb_framebuffer_init m info fb of (r, fb') \<Rightarrow>
     \<not> r \<and> \<not> sb_framebuffer_available fb' \<and> sb_framebuffer_info fb' = None \<and>
     snd (sb_framebuffer_clear fb' red green blue m) = m \<and>
     snd (sb_framebuffer_draw_pixel fb' x y red green blue m) = m \<and>
     snd (sb_framebuffer_fill_rect fb' x y w h red green blue m) = m \<and>
     snd (snd (sb_framebuffer_map L fb' M)) = M"
proof -
  obtain r fb' where i: "sb_framebuffer_init m info fb = (r, fb')" by fastforce
  have na: "\<not> r" "\<not> available fb'" using init_never_available [OF i] by simp_all
  have g: "\<not> framebuffer_geometry_ok fb'" using na by (simp add: framebuffer_geometry_ok_def)
  note t = unavailable_fails [OF na(2)]
  show ?thesis
    using na g t by (simp add: i sb_framebuffer_available_def sb_framebuffer_info_def sb_framebuffer_clear_def
        sb_framebuffer_draw_pixel_def sb_framebuffer_fill_rect_def sb_framebuffer_map_def Let_def)
qed

end
