(* ===== verification/Vga.thy ===== *)
theory Vga
  imports Port_Io
begin

text \<open>
  The VGA text screen at \<^verbatim>\<open>0xB8000\<close>, 80 columns by 25 rows of 16-bit cells, and the two
  routines that \<^verbatim>\<open>kernel/panic.c\<close> and \<^verbatim>\<open>kernel/setup.c\<close> each have in their own copy: clearing the
  screen and writing a string from left to right. Both work through the file's own routine for one
  cell, which is the argument \<open>put\<close> here. The locale \<open>cell_writer\<close> is what that routine promises.
\<close>

section \<open>Cells\<close>

text \<open>The 16-bit words from \<^verbatim>\<open>0xB8000\<close> on, by index.\<close>

type_synonym vga = "u32 \<Rightarrow> u16"

type_synonym put_fn = "u32 \<Rightarrow> u32 \<Rightarrow> char \<Rightarrow> u8 \<Rightarrow> vga \<Rightarrow> vga"

definition vga_word :: "u8 \<Rightarrow> char \<Rightarrow> u16" where
  "vga_word color c = push_bit 8 (ucast color) OR ucast (of_char c :: u8)"

definition vga_clear :: "put_fn \<Rightarrow> u8 \<Rightarrow> vga \<Rightarrow> vga" where
  "vga_clear put color =
     fold (\<lambda>y. fold (\<lambda>x. put (of_nat x) (of_nat y) (CHR '' '') color) [0..<80]) [0..<25]"

primrec vga_text :: "put_fn \<Rightarrow> u32 \<Rightarrow> u32 \<Rightarrow> string \<Rightarrow> u8 \<Rightarrow> vga \<Rightarrow> vga" where
  "vga_text put x y [] color v = v"
| "vga_text put x y (c # s) color v = (if x < 80 then vga_text put (x + 1) y s color (put x y c color v) else v)"

section \<open>What the screen shows\<close>

definition cell_at :: "vga \<Rightarrow> nat \<Rightarrow> nat \<Rightarrow> u16" where
  "cell_at v x y = v (of_nat (y * 80 + x))"

definition char_at :: "vga \<Rightarrow> nat \<Rightarrow> nat \<Rightarrow> char" where
  "char_at v x y = char_of (unat (cell_at v x y AND 0xFF))"

definition text_at :: "vga \<Rightarrow> nat \<Rightarrow> nat \<Rightarrow> nat \<Rightarrow> string" where
  "text_at v x y n = map (\<lambda>i. char_at v (x + i) y) [0..<n]"

lemma vga_word_char: "char_of (unat (vga_word color c AND 0xFF)) = c"
proof -
  have m: "(0xFF :: u16) = mask 8" by (simp add: mask_eq_exp_minus_1)
  have "vga_word color c AND 0xFF = ucast (of_char c :: u8)"
    unfolding vga_word_def
    by (subst m, rule bit_word_eqI) (auto simp: bit_simps bit_mask_iff dest: bit_imp_le_length)
  then show ?thesis by (simp add: char_of_byte)
qed

lemma text_at_row:
  "(\<And>i. i < length s \<Longrightarrow> cell_at v (x + i) y = vga_word color (s ! i)) \<Longrightarrow> text_at v x y (length s) = s"
  by (rule nth_equalityI) (simp_all add: text_at_def char_at_def vga_word_char)

lemma cell_index: "x < 80 \<Longrightarrow> y < 25 \<Longrightarrow> x' < 80 \<Longrightarrow> y' < 25 \<Longrightarrow>
  (of_nat (y * 80 + x) :: u32) = of_nat (y' * 80 + x') \<longleftrightarrow> x = x' \<and> y = y'"
proof -
  assume b: "x < 80" "y < 25" "x' < 80" "y' < 25"
  have "unat (of_nat (y * 80 + x) :: u32) = y * 80 + x" "unat (of_nat (y' * 80 + x') :: u32) = y' * 80 + x'"
    using b by (intro unat_of_nat_small, simp)+
  then have "(of_nat (y * 80 + x) :: u32) = of_nat (y' * 80 + x') \<longleftrightarrow> y * 80 + x = y' * 80 + x'" by metis
  then show ?thesis using b by (metis add.commute div_mult_self3 mod_mult_self3 div_less mod_less add_0 zero_neq_numeral)
qed

section \<open>Writing through a routine for one cell\<close>

locale cell_writer =
  fixes put :: put_fn
  assumes put_at: "unat x' < 80 \<Longrightarrow> unat y' < 25 \<Longrightarrow> x < 80 \<Longrightarrow> y < 25 \<Longrightarrow>
    cell_at (put x' y' c color v) x y = (if x = unat x' \<and> y = unat y' then vga_word color c else cell_at v x y)"
begin

lemma row_at:
  assumes "n \<le> 80" "y' < 25" "x < 80" "y < 25"
  shows "cell_at (fold (\<lambda>x. put (of_nat x) (of_nat y') c color) [0..<n] v) x y =
    (if x < n \<and> y = y' then vga_word color c else cell_at v x y)"
  using assms(1)
proof (induction n)
  case (Suc n)
  have "unat (of_nat n :: u32) = n" "unat (of_nat y' :: u32) = y'"
    using Suc.prems assms(2) by (simp_all add: unat_of_nat_small)
  then show ?case using Suc assms put_at [of "of_nat n" "of_nat y'" x y] by (auto simp: less_Suc_eq)
qed simp

lemma clear_at: "x < 80 \<Longrightarrow> y < 25 \<Longrightarrow> cell_at (vga_clear put color v) x y = vga_word color (CHR '' '')"
proof -
  assume b: "x < 80" "y < 25"
  have "cell_at (fold (\<lambda>y. fold (\<lambda>x. put (of_nat x) (of_nat y) (CHR '' '') color) [0..<80]) [0..<n] v) x y =
      (if y < n then vga_word color (CHR '' '') else cell_at v x y)" if "n \<le> 25" for n
    using that by (induction n) (use b in \<open>auto simp: row_at less_Suc_eq\<close>)
  from this [of 25] b show ?thesis by (simp add: vga_clear_def)
qed

lemma vga_text_at:
  assumes "unat y' < 25" "x < 80" "y < 25"
  shows "unat x' \<le> 80 \<Longrightarrow> cell_at (vga_text put x' y' s color v) x y =
    (if y = unat y' \<and> unat x' \<le> x \<and> x < unat x' + length s then vga_word color (s ! (x - unat x')) else cell_at v x y)"
proof (induction s arbitrary: x' v)
  case (Cons c s)
  show ?case
  proof (cases "x' < 80")
    case True
    then have l: "unat x' < 80" by (simp add: word_less_nat_alt)
    then have n: "unat (x' + 1) = Suc (unat x')" by (simp add: unat_add_small)
    show ?thesis
      using True Cons.IH [of "x' + 1" "put x' y' c color v"] l n assms
      by (auto simp: put_at nth_Cons' Suc_le_eq less_Suc_eq)
  next
    case False
    then show ?thesis using assms(2) by (simp add: word_less_nat_alt)
  qed
qed auto

end

end
