(* ===== verification/Setup.thy ===== *)
theory Setup
  imports Vga
begin

text \<open>
  The first-boot wizard, \<^verbatim>\<open>kernel/setup.c\<close>: a text screen, a polled keyboard behind ports
  \<^verbatim>\<open>0x64\<close> and \<^verbatim>\<open>0x60\<close>, and a loop of a fixed number of polls. The keyboard controller is
  behind the port functions that every definition takes.
\<close>

section \<open>State\<close>

definition SB_LANGUAGE_JAPANESE_setup :: u8 where "SB_LANGUAGE_JAPANESE_setup = 0"
definition SB_LANGUAGE_ENGLISH_setup :: u8 where "SB_LANGUAGE_ENGLISH_setup = 1"
definition SB_LANGUAGE_CHINESE_setup :: u8 where "SB_LANGUAGE_CHINESE_setup = 2"
definition SB_LANGUAGE_SPANISH_setup :: u8 where "SB_LANGUAGE_SPANISH_setup = 3"

definition SB_PERFORMANCE_BALANCED :: u8 where "SB_PERFORMANCE_BALANCED = 0"
definition SB_PERFORMANCE_PERFORMANCE :: u8 where "SB_PERFORMANCE_PERFORMANCE = 1"
definition SB_PERFORMANCE_LOW_RESOURCE :: u8 where "SB_PERFORMANCE_LOW_RESOURCE = 2"
definition SB_PERFORMANCE_CUSTOM :: u8 where "SB_PERFORMANCE_CUSTOM = 3"

record setup_config =
  setup_language :: u8
  setup_region :: u8
  setup_keyboard :: u8
  setup_performance :: u8
  network_later :: u8

record setup_state =
  current_config :: setup_config
  setup_screen :: vga

definition initial_config :: setup_config where
  "initial_config = \<lparr>setup_language = SB_LANGUAGE_ENGLISH_setup, setup_region = 0, setup_keyboard = 0,
     setup_performance = SB_PERFORMANCE_BALANCED, network_later = 1\<rparr>"

section \<open>Screen\<close>

definition setup_cell :: "u32 \<Rightarrow> u32 \<Rightarrow> char \<Rightarrow> u8 \<Rightarrow> vga \<Rightarrow> vga" where
  "setup_cell x y c color v = (if x < 80 \<and> y < 25 then v(y * 80 + x := vga_word color c) else v)"

definition setup_clear :: "u8 \<Rightarrow> vga \<Rightarrow> vga" where
  "setup_clear = vga_clear setup_cell"

definition setup_text :: "u32 \<Rightarrow> u32 \<Rightarrow> string \<Rightarrow> u8 \<Rightarrow> vga \<Rightarrow> vga" where
  "setup_text = vga_text setup_cell"

definition setup_box :: "u32 \<Rightarrow> u32 \<Rightarrow> u32 \<Rightarrow> u32 \<Rightarrow> u8 \<Rightarrow> vga \<Rightarrow> vga" where
  "setup_box x0 y0 x1 y1 color v =
     (let v = fold (\<lambda>x v. setup_cell (of_nat x) y1 (CHR ''-'') color (setup_cell (of_nat x) y0 (CHR ''-'') color v))
                [unat x0..<Suc (unat x1)] v;
          v = fold (\<lambda>y v. setup_cell x1 (of_nat y) (CHR ''|'') color (setup_cell x0 (of_nat y) (CHR ''|'') color v))
                [unat y0..<Suc (unat y1)] v;
          v = setup_cell x0 y0 (CHR ''+'') color v; v = setup_cell x1 y0 (CHR ''+'') color v;
          v = setup_cell x0 y1 (CHR ''+'') color v in
      setup_cell x1 y1 (CHR ''+'') color v)"

definition language_name :: "u8 \<Rightarrow> string" where
  "language_name val =
     (if val = SB_LANGUAGE_JAPANESE_setup then ''Japanese'' else if val = SB_LANGUAGE_CHINESE_setup then ''Chinese''
      else if val = SB_LANGUAGE_SPANISH_setup then ''Spanish'' else ''English'')"

definition performance_name :: "u8 \<Rightarrow> string" where
  "performance_name val =
     (if val = SB_PERFORMANCE_PERFORMANCE then ''Performance'' else if val = SB_PERFORMANCE_LOW_RESOURCE then ''Low Resource''
      else if val = SB_PERFORMANCE_CUSTOM then ''Custom'' else ''Balanced'')"

definition setup_render :: "u8 \<Rightarrow> setup_state \<Rightarrow> setup_state" where
  "setup_render selected s =
     (let v = setup_clear 0x17 (setup_screen s);
          v = setup_text 3 1 ''SUIRABOX'' 0x1F v;
          v = setup_text 3 2 ''First Setup'' 0x1F v;
          v = setup_text 3 4 ''Choose the basics now. Advanced settings can be changed later.'' 0x1F v;
          v = setup_text 3 6 (if selected = 0 then ''> Language'' else ''  Language'') 0x1F v;
          v = setup_text 28 6 (language_name (setup_language (current_config s))) 0x1F v;
          v = setup_text 3 8 (if selected = 1 then ''> Region / Time Zone'' else ''  Region / Time Zone'') 0x1F v;
          v = setup_text 28 8 ''Japan / JST'' 0x1F v;
          v = setup_text 3 10 (if selected = 2 then ''> Keyboard'' else ''  Keyboard'') 0x1F v;
          v = setup_text 28 10 ''Japanese'' 0x1F v;
          v = setup_text 3 12 (if selected = 3 then ''> Network'' else ''  Network'') 0x1F v;
          v = setup_text 28 12 ''Configure later'' 0x1F v;
          v = setup_text 3 14 (if selected = 4 then ''> Performance'' else ''  Performance'') 0x1F v;
          v = setup_text 28 14 (performance_name (setup_performance (current_config s))) 0x1F v;
          v = setup_box 25 5 55 15 0x1F v;
          v = setup_text 3 18 ''Up/Down: select   Left/Right: change   Enter: continue'' 0x1F v;
          v = setup_text 3 20 ''Press 1-4 for language. Esc keeps the defaults.'' 0x1F v;
          v = setup_text 3 22 ''This early text-mode setup is intentionally tiny and fast.'' 0x1F v in
      s\<lparr>setup_screen := v\<rparr>)"

section \<open>Keys\<close>

definition io_wait :: "'h port_io \<Rightarrow> 'h \<Rightarrow> 'h" where
  "io_wait io h = outb io 0x80 0 h"

definition read_key :: "'h port_io \<Rightarrow> 'h \<Rightarrow> u8 \<times> 'h" where
  "read_key io h = (let (status, h) = inb io 0x64 h in if status AND 1 = 0 then (0, h) else inb io 0x60 h)"

definition delay_poll :: "'h port_io \<Rightarrow> u32 \<Rightarrow> 'h \<Rightarrow> 'h" where
  "delay_poll io count h = fold (\<lambda>_. io_wait io) [0..<unat count] h"

text \<open>The new value of a field with four values, in the \<^verbatim>\<open>int\<close> arithmetic of the code.\<close>

definition rotate4 :: "u8 \<Rightarrow> int \<Rightarrow> u8" where
  "rotate4 old direction =
     (let val = uint old + direction;
          val = (if val < 0 then 3 else val);
          val = (if val > 3 then 0 else val) in
      of_int val)"

definition change_value :: "u8 \<Rightarrow> int \<Rightarrow> setup_config \<Rightarrow> setup_config" where
  "change_value selected direction c =
     (if selected = 0 then c\<lparr>setup_language := rotate4 (setup_language c) direction\<rparr>
      else if selected = 4 then c\<lparr>setup_performance := rotate4 (setup_performance c) direction\<rparr>
      else c)"

text \<open>The \<^verbatim>\<open>switch\<close> on a pressed key; \<open>None\<close> is the return after Enter or Esc.\<close>

definition setup_key :: "u8 \<Rightarrow> u8 \<Rightarrow> setup_state \<Rightarrow> (u8 \<times> setup_state) option" where
  "setup_key key selected s =
     (let show_config = (\<lambda>c. Some (selected, setup_render selected (s\<lparr>current_config := c\<rparr>))) in
      if key = 0x48 then
        let selected = (if selected > 0 then selected - 1 else selected) in Some (selected, setup_render selected s)
      else if key = 0x50 then
        let selected = (if selected < 4 then selected + 1 else selected) in Some (selected, setup_render selected s)
      else if key = 0x4B then show_config (change_value selected (- 1) (current_config s))
      else if key = 0x4D then show_config (change_value selected 1 (current_config s))
      else if key = 0x1C then None
      else if key = 0x01 then None
      else if key = 0x02 then show_config ((current_config s)\<lparr>setup_language := SB_LANGUAGE_JAPANESE_setup\<rparr>)
      else if key = 0x03 then show_config ((current_config s)\<lparr>setup_language := SB_LANGUAGE_ENGLISH_setup\<rparr>)
      else if key = 0x04 then show_config ((current_config s)\<lparr>setup_language := SB_LANGUAGE_CHINESE_setup\<rparr>)
      else if key = 0x05 then show_config ((current_config s)\<lparr>setup_language := SB_LANGUAGE_SPANISH_setup\<rparr>)
      else Some (selected, s))"

fun setup_loop :: "'h port_io \<Rightarrow> nat \<Rightarrow> u8 \<Rightarrow> u8 \<Rightarrow> setup_state \<Rightarrow> 'h \<Rightarrow> setup_state \<times> 'h" where
  "setup_loop io 0 selected keys_without_input s h = (s, h)"
| "setup_loop io (Suc n) selected keys_without_input s h =
     (let (key, h) = read_key io h in
      if key = 0 then
        setup_loop io n selected (if keys_without_input < 255 then keys_without_input + 1 else keys_without_input) s h
      else if key AND 0x80 \<noteq> 0 then setup_loop io n selected 0 s h
      else (case setup_key key selected s of
              None \<Rightarrow> (s, h)
            | Some (selected, s) \<Rightarrow> setup_loop io n selected 0 s (delay_poll io 64 h)))"

definition sb_setup_run :: "'h port_io \<Rightarrow> setup_config option \<Rightarrow> setup_state \<Rightarrow> 'h \<Rightarrow> int \<times> setup_config option \<times> setup_state \<times> 'h" where
  "sb_setup_run io config s h =
     (let s = (case config of None \<Rightarrow> s | Some c \<Rightarrow> s\<lparr>current_config := c\<rparr>);
          s = setup_render 0 s;
          (s, h) = setup_loop io 1200000 0 0 s h in
      (0, (case config of None \<Rightarrow> None | Some _ \<Rightarrow> Some (current_config s)), s, h))"

definition sb_setup_current :: "setup_state \<Rightarrow> setup_config" where
  "sb_setup_current s = current_config s"

section \<open>What the screen shows\<close>

interpretation sc: cell_writer setup_cell
proof
  fix x' y' :: u32 and x y :: nat and c color v
  assume b: "unat x' < 80" "unat y' < 25" "x < 80" "y < 25"
  have i: "y' * 80 + x' = of_nat (unat y' * 80 + unat x')" by (simp add: of_nat_unat)
  have w: "x' < 80 \<and> y' < 25" using b by (simp add: word_less_nat_alt)
  show "cell_at (setup_cell x' y' c color v) x y = (if x = unat x' \<and> y = unat y' then vga_word color c else cell_at v x y)"
    using cell_index [OF b(3,4,1,2)] by (simp only: setup_cell_def w simp_thms if_True cell_at_def fun_upd_apply i)
qed

lemma cell_other:
  "x < 80 \<Longrightarrow> y < 25 \<Longrightarrow> x \<noteq> unat x' \<or> y \<noteq> unat y' \<Longrightarrow> cell_at (setup_cell x' y' c color v) x y = cell_at v x y"
  using sc.put_at [of x' y' x y] by (auto simp: setup_cell_def word_less_nat_alt)

lemma fold_cells_other:
  "(\<And>i v. i \<in> set xs \<Longrightarrow> cell_at (f i v) x y = cell_at v x y) \<Longrightarrow> cell_at (fold f xs v) x y = cell_at v x y"
  by (induction xs arbitrary: v) simp_all

text \<open>The box only draws on its four sides.\<close>

lemma box_other:
  assumes "x < 80" "y < 25" "unat x1 < 80" "unat y1 < 25"
    "x < unat x0 \<or> x \<noteq> unat x0 \<and> x \<noteq> unat x1 \<and> y \<noteq> unat y0 \<and> y \<noteq> unat y1"
    and order: "unat x0 \<le> unat x1" "unat y0 \<le> unat y1"
  shows "cell_at (setup_box x0 y0 x1 y1 color v) x y = cell_at v x y"
proof -
  have c: "cell_at (setup_cell a b d color w) x y = cell_at w x y"
    if "a = x0 \<or> a = x1 \<or> unat x0 \<le> unat a \<and> (b = y0 \<or> b = y1)" for a b d w
    by (rule cell_other) (use assms that in auto)
  have n: "unat (of_nat i :: u32) = i" if "i \<in> set [unat x0..<Suc (unat x1)]" for i
  proof -
    have "i < 80" using that assms(3) by (auto simp: less_Suc_eq split: if_splits)
    then show ?thesis by (simp add: unat_of_nat_small)
  qed
  have "cell_at (fold (\<lambda>x v. setup_cell (of_nat x) y1 (CHR ''-'') color (setup_cell (of_nat x) y0 (CHR ''-'') color v))
      [unat x0..<Suc (unat x1)] w) x y = cell_at w x y" for w
    by (rule fold_cells_other) (use n in \<open>auto simp: c simp del: upt_Suc\<close>)
  moreover have "cell_at (fold (\<lambda>y v. setup_cell x1 (of_nat y) (CHR ''|'') color (setup_cell x0 (of_nat y) (CHR ''|'') color v))
      [unat y0..<Suc (unat y1)] w) x y = cell_at w x y" for w
    by (rule fold_cells_other) (simp add: c)
  ultimately show ?thesis unfolding setup_box_def Let_def by (simp add: c)
qed

definition setup_shows :: "u8 \<Rightarrow> setup_state \<Rightarrow> bool" where
  "setup_shows selected s \<longleftrightarrow>
     (let v = setup_screen s; l = language_name (setup_language (current_config s));
          p = performance_name (setup_performance (current_config s)) in
      text_at v 28 6 (length l) = l \<and> text_at v 28 14 (length p) = p \<and>
      (\<forall>i < 5. char_at v 3 (6 + 2 * i) = (if unat selected = i then CHR ''>'' else CHR '' '')))"

lemmas setup_at = sc.vga_text_at [folded setup_text_def] box_other

lemma name_lengths: "length (language_name l) \<le> 8" "length (performance_name p) \<le> 12"
  by (simp_all add: language_name_def performance_name_def)

lemma render_keeps [simp]: "current_config (setup_render selected s) = current_config s"
  by (simp add: setup_render_def Let_def)

lemma render_shows: "setup_shows selected (setup_render selected s)"
proof -
  let ?v = "setup_screen (setup_render selected s)"
  let ?l = "language_name (setup_language (current_config s))" and ?p = "performance_name (setup_performance (current_config s))"
  have l: "text_at ?v 28 6 (length ?l) = ?l"
    by (rule text_at_row [where color = "0x1F"])
      (use name_lengths(1) [of "setup_language (current_config s)"] in
        \<open>simp add: setup_render_def Let_def setup_at del: vga_text.simps\<close>)
  have p: "text_at ?v 28 14 (length ?p) = ?p"
    by (rule text_at_row [where color = "0x1F"])
      (use name_lengths(2) [of "setup_performance (current_config s)"] in
        \<open>simp add: setup_render_def Let_def setup_at del: vga_text.simps\<close>)
  have u: "unat selected = k \<longleftrightarrow> selected = of_nat k" if "k < 5" for k
    using that unat_of_nat_small [of k, where 'a = 8] by (auto simp: word_unat_eq_iff)
  have m: "char_at ?v 3 (6 + 2 * i) = (if unat selected = i then CHR ''>'' else CHR '' '')" if "i < 5" for i
  proof -
    have "i = 0 \<or> i = 1 \<or> i = 2 \<or> i = 3 \<or> i = 4" using that by arith
    then show ?thesis
      by (elim disjE) (simp_all add: char_at_def setup_render_def Let_def setup_at u vga_word_char del: vga_text.simps)
  qed
  show ?thesis using l p m by (simp add: setup_shows_def)
qed

section \<open>What a run can change\<close>

definition setup_keeps :: "setup_config \<Rightarrow> setup_config \<Rightarrow> bool" where
  "setup_keeps c c' \<longleftrightarrow> setup_region c' = setup_region c \<and> setup_keyboard c' = setup_keyboard c \<and>
     network_later c' = network_later c \<and>
     (setup_language c' = setup_language c \<or> setup_language c' \<le> 3) \<and>
     (setup_performance c' = setup_performance c \<or> setup_performance c' \<le> 3)"

lemma rotate4_range: "rotate4 old direction \<le> 3"
proof -
  define k where "k = (let val = uint old + direction; val = (if val < 0 then 3 else val) in if val > 3 then 0 else val)"
  have "0 \<le> k \<and> k \<le> 3" by (auto simp: k_def Let_def)
  then have "k = 0 \<or> k = 1 \<or> k = 2 \<or> k = 3" by arith
  then have "(of_int k :: u8) \<le> 3" by auto
  then show ?thesis by (simp add: rotate4_def k_def Let_def)
qed

lemma setup_key_step:
  assumes "setup_shows selected s" "selected \<le> 4" "setup_key key selected s = Some (selected', s')"
  shows "setup_shows selected' s' \<and> selected' \<le> 4 \<and> setup_keeps (current_config s) (current_config s')"
proof -
  have dec: "selected - 1 \<le> 4" if "0 < selected" using that assms(2) by (simp add: word_le_nat_alt word_less_nat_alt unat_sub)
  have inc: "selected + 1 \<le> 4" if "selected < 4" using that by (simp add: word_le_nat_alt word_less_nat_alt unat_add_small)
  show ?thesis
    using assms dec inc
    by (auto simp: setup_key_def Let_def render_shows setup_keeps_def change_value_def rotate4_range
        SB_LANGUAGE_JAPANESE_setup_def SB_LANGUAGE_ENGLISH_setup_def SB_LANGUAGE_CHINESE_setup_def SB_LANGUAGE_SPANISH_setup_def
        split: if_splits)
qed

lemma setup_loop_outcome:
  "setup_shows selected s \<Longrightarrow> selected \<le> 4 \<Longrightarrow> setup_loop io n selected k s h = (s', h') \<Longrightarrow>
   (\<exists>selected' \<le> 4. setup_shows selected' s') \<and> setup_keeps (current_config s) (current_config s')"
proof (induction n arbitrary: selected k s h)
  case 0
  then show ?case by (auto simp: setup_keeps_def)
next
  case (Suc n)
  obtain key h1 where r: "read_key io h = (key, h1)" by fastforce
  show ?case
  proof (cases "key = 0 \<or> key AND 0x80 \<noteq> 0")
    case True
    then obtain k' where "setup_loop io n selected k' s h1 = (s', h')" using Suc.prems(3) r by (auto split: if_splits)
    then show ?thesis by (rule Suc.IH [OF Suc.prems(1,2)])
  next
    case pressed: False
    show ?thesis
    proof (cases "setup_key key selected s")
      case None
      then show ?thesis using Suc.prems pressed r by (auto simp: setup_keeps_def)
    next
      case (Some q)
      obtain selected1 s1 where q: "q = (selected1, s1)" by fastforce
      note st = setup_key_step [OF Suc.prems(1,2) Some [unfolded q]]
      have "setup_loop io n selected1 0 s1 (delay_poll io 64 h1) = (s', h')" using Suc.prems(3) pressed r Some q by simp
      with Suc.IH st have "(\<exists>selected' \<le> 4. setup_shows selected' s') \<and> setup_keeps (current_config s1) (current_config s')" by blast
      then show ?thesis using st by (auto simp: setup_keeps_def)
    qed
  qed
qed

text \<open>C39. Whatever the keyboard controller returns, the wizard ends and reports success. The caller's
record is the kernel's current one; the region, the keyboard and the network flag are as they were, the language and
the performance profile are as they were or one of the four values; and the screen shows this configuration with one
of the five rows marked.\<close>

theorem setup_run_outcome:
  "case sb_setup_run io config s h of (r, config', s', h') \<Rightarrow>
     r = 0 \<and> config' = map_option (\<lambda>_. sb_setup_current s') config \<and>
     setup_keeps (case config of None \<Rightarrow> sb_setup_current s | Some c \<Rightarrow> c) (sb_setup_current s') \<and>
     (\<exists>selected. selected \<le> 4 \<and> setup_shows selected s')"
proof -
  define s0 where "s0 = (case config of None \<Rightarrow> s | Some c \<Rightarrow> s\<lparr>current_config := c\<rparr>)"
  obtain s' h' where l: "setup_loop io 1200000 0 0 (setup_render 0 s0) h = (s', h')" by fastforce
  have c0: "current_config s0 = (case config of None \<Rightarrow> sb_setup_current s | Some c \<Rightarrow> c)"
    by (simp add: s0_def sb_setup_current_def split: option.splits)
  have "(\<exists>selected. selected \<le> 4 \<and> setup_shows selected s') \<and> setup_keeps (current_config s0) (current_config s')"
    using setup_loop_outcome [OF render_shows _ l] by simp
  then show ?thesis
    unfolding sb_setup_run_def Let_def s0_def [symmetric] l
    by (simp add: c0 sb_setup_current_def split: option.splits)
qed

text \<open>With no key in the controller's buffer the configuration is the one that was passed in.\<close>

lemma setup_loop_idle:
  assumes "\<And>h. fst (inb io 0x64 h) AND 1 = 0"
  shows "fst (setup_loop io n selected k s h) = s"
proof (induction n arbitrary: k h)
  case (Suc n)
  have "fst (read_key io h) = 0" using assms [of h] by (auto simp: read_key_def split: prod.splits)
  then show ?case using Suc by (auto split: prod.splits)
qed simp

lemma setup_idle_keeps:
  assumes "\<And>h. fst (inb io 0x64 h) AND 1 = 0"
  shows "fst (snd (sb_setup_run io (Some c) s h)) = Some c"
proof -
  obtain s' h' where l: "setup_loop io 1200000 0 0 (setup_render 0 (s\<lparr>current_config := c\<rparr>)) h = (s', h')" by fastforce
  then have "s' = setup_render 0 (s\<lparr>current_config := c\<rparr>)"
    using setup_loop_idle [OF assms, of 1200000 0 0 "setup_render 0 (s\<lparr>current_config := c\<rparr>)" h] by simp
  then show ?thesis by (simp add: sb_setup_run_def l)
qed

end
