(* ===== verification/X86.thy ===== *)
theory X86
  imports Sb_Prelude
begin

text \<open>
  The x86-64 instructions that the assembly files under \<^verbatim>\<open>kernel/arch/x86_64/\<close> use in their entry
  stubs, on a processor with its general registers, a byte memory and the state \<open>kern\<close> of everything
  that is written in C or sits behind a port. A stub is a straight list of instructions. Calls to C
  functions follow the System V convention: the callee-saved registers and the memory at and above
  the stack pointer come back as they were, and everything else the convention allows a function to
  change is arbitrary, given by the fields \<open>junk_reg\<close>, \<open>junk_mem\<close> and \<open>junk_depth\<close> of the
  environment. Arithmetic instructions may change the status flags and no other.
\<close>

section \<open>Processor\<close>

datatype reg = RAX | RBX | RCX | RDX | RSI | RDI | RBP | RSP | R8 | R9 | R10 | R11 | R12 | R13 | R14 | R15

datatype c_function = Fn_sb_timer_tick | Fn_sb_syscall_dispatch_entry | Fn_sb_panic_from_exception

datatype instr =
    Pushq reg
  | Pushq_imm u64
  | Pushfq
  | Popq reg
  | Movq reg reg                 \<comment> \<open>source, destination\<close>
  | Movq_load u64 reg            \<comment> \<open>displacement from the stack pointer, destination\<close>
  | Movq_cr2 reg
  | Movw_imm u16 reg
  | Movb_imm u8 reg
  | Outb_al_dx
  | Andq_imm u64 reg
  | Addq_imm u64 reg
  | Orq_top u64                  \<comment> \<open>the word the stack pointer points to\<close>
  | Cli
  | Call c_function
  | Iretq
  | Hlt

record 's x86 =
  regs :: "reg \<Rightarrow> u64"
  xmem :: memory
  x_rflags :: u64
  x_rip :: u64
  x_cs :: u64
  x_ss :: u64
  x_cr2 :: u64
  kern :: 's
  stopped :: bool

text \<open>A C function returns a value, returns nothing, or never returns and leaves the processor halted.\<close>

datatype 's returned = Returns u64 's | Returns_void 's | Stops 's

record 's env =
  port_out :: "u16 \<Rightarrow> u8 \<Rightarrow> 's \<Rightarrow> 's"
  callee :: "c_function \<Rightarrow> (reg \<Rightarrow> u64) \<Rightarrow> 's \<Rightarrow> 's returned"
  junk_reg :: "reg \<Rightarrow> u64"
  junk_mem :: memory
  junk_depth :: nat
  alu_flags :: "u64 \<Rightarrow> u64"

definition callee_saved :: "reg \<Rightarrow> bool" where
  "callee_saved r \<longleftrightarrow> r = RBX \<or> r = RBP \<or> r = RSP \<or> r = R12 \<or> r = R13 \<or> r = R14 \<or> r = R15"

definition STATUS_FLAGS :: u64 where
  "STATUS_FLAGS = 0x8D5"

definition IF_FLAG :: u64 where
  "IF_FLAG = 0x200"

definition status :: "u64 \<Rightarrow> u64 \<Rightarrow> u64" where
  "status new flags = (flags AND NOT STATUS_FLAGS) OR (new AND STATUS_FLAGS)"

definition set_reg :: "reg \<Rightarrow> u64 \<Rightarrow> 's x86 \<Rightarrow> 's x86" where
  "set_reg r v s = s\<lparr>regs := (regs s)(r := v)\<rparr>"

definition push :: "u64 \<Rightarrow> 's x86 \<Rightarrow> 's x86" where
  "push v s = s\<lparr>regs := (regs s)(RSP := regs s RSP - 8), xmem := store64 (xmem s) (regs s RSP - 8) v\<rparr>"

definition top_word :: "'s x86 \<Rightarrow> nat \<Rightarrow> u64" where
  "top_word s i = load64 (xmem s) (regs s RSP + 8 * of_nat i)"

text \<open>What a function that was called leaves: \<open>v\<close> is its result if it has one.\<close>

definition after_call :: "'s env \<Rightarrow> u64 option \<Rightarrow> 's \<Rightarrow> 's x86 \<Rightarrow> 's x86" where
  "after_call env v k s =
     s\<lparr>regs := (\<lambda>r. if callee_saved r then regs s r else if r = RAX \<and> v \<noteq> None then the v else junk_reg env r),
       xmem := (\<lambda>a. if 0 < unat (regs s RSP - a) \<and> unat (regs s RSP - a) \<le> junk_depth env then junk_mem env a else xmem s a),
       x_rflags := status (alu_flags env 0) (x_rflags s), kern := k\<rparr>"

definition c_call :: "'s env \<Rightarrow> c_function \<Rightarrow> 's x86 \<Rightarrow> 's x86" where
  "c_call env f s =
     (case callee env f (regs s) (kern s) of
        Returns v k \<Rightarrow> after_call env (Some v) k s
      | Returns_void k \<Rightarrow> after_call env None k s
      | Stops k \<Rightarrow> s\<lparr>kern := k, stopped := True\<rparr>)"

fun exec_instr :: "'s env \<Rightarrow> instr \<Rightarrow> 's x86 \<Rightarrow> 's x86" where
  "exec_instr env (Pushq r) s = push (regs s r) s"
| "exec_instr env (Pushq_imm v) s = push v s"
| "exec_instr env Pushfq s = push (x_rflags s) s"
| "exec_instr env (Popq r) s = set_reg r (top_word s 0) (set_reg RSP (regs s RSP + 8) s)"
| "exec_instr env (Movq r q) s = set_reg q (regs s r) s"
| "exec_instr env (Movq_load d r) s = set_reg r (load64 (xmem s) (regs s RSP + d)) s"
| "exec_instr env (Movq_cr2 r) s = set_reg r (x_cr2 s) s"
| "exec_instr env (Movw_imm v r) s = set_reg r ((regs s r AND NOT 0xFFFF) OR ucast v) s"
| "exec_instr env (Movb_imm v r) s = set_reg r ((regs s r AND NOT 0xFF) OR ucast v) s"
| "exec_instr env Outb_al_dx s = s\<lparr>kern := port_out env (ucast (regs s RDX)) (ucast (regs s RAX)) (kern s)\<rparr>"
| "exec_instr env (Andq_imm v r) s = (set_reg r (regs s r AND v) s)\<lparr>x_rflags := status (alu_flags env (regs s r AND v)) (x_rflags s)\<rparr>"
| "exec_instr env (Addq_imm v r) s = (set_reg r (regs s r + v) s)\<lparr>x_rflags := status (alu_flags env (regs s r + v)) (x_rflags s)\<rparr>"
| "exec_instr env (Orq_top v) s =
     s\<lparr>xmem := store64 (xmem s) (regs s RSP) (top_word s 0 OR v), x_rflags := status (alu_flags env (top_word s 0 OR v)) (x_rflags s)\<rparr>"
| "exec_instr env Cli s = s\<lparr>x_rflags := x_rflags s AND NOT IF_FLAG\<rparr>"
| "exec_instr env (Call f) s = c_call env f s"
| "exec_instr env Iretq s =
     (set_reg RSP (top_word s 3) s)\<lparr>x_rip := top_word s 0, x_cs := top_word s 1, x_rflags := top_word s 2, x_ss := top_word s 4\<rparr>"
| "exec_instr env Hlt s = s\<lparr>stopped := True\<rparr>"

primrec exec :: "'s env \<Rightarrow> instr list \<Rightarrow> 's x86 \<Rightarrow> 's x86" where
  "exec env [] s = s"
| "exec env (i # is) s = (if stopped s then s else exec env is (exec_instr env i s))"

section \<open>The stack\<close>

text \<open>The stack pointer is aligned and the words from it on are \<open>ws\<close>.\<close>

definition stack_words :: "'s x86 \<Rightarrow> u64 list \<Rightarrow> bool" where
  "stack_words s ws \<longleftrightarrow> 8 dvd unat (regs s RSP) \<and> length ws < 2 ^ 32 \<and> (\<forall>i < length ws. top_word s i = ws ! i)"

lemma aligned_word: "8 dvd unat a \<Longrightarrow> 8 dvd unat (a + 8 * of_nat i)" for a :: u64
proof -
  assume a: "8 dvd unat a"
  have "unat (of_nat (8 * i) :: u64) = 8 * i mod 2 ^ 64" by (subst unat_of_nat) simp
  moreover have "8 dvd 8 * i mod 2 ^ 64" by (rule dvd_mod) simp_all
  ultimately have "8 dvd unat (of_nat (8 * i) :: u64)" by simp
  then have "8 dvd (unat a + unat (of_nat (8 * i) :: u64)) mod 2 ^ 64" using a by (intro dvd_mod dvd_add) simp_all
  then show ?thesis by (simp add: unat_word_ariths)
qed

lemma aligned_push: "8 dvd unat a \<Longrightarrow> 8 dvd unat (a - 8)" for a :: u64
proof -
  have "(8 :: u64) * of_nat (2 ^ 61 - 1) = - 8" by simp
  then show "8 dvd unat a \<Longrightarrow> 8 dvd unat (a - 8)" using aligned_word [of a "2 ^ 61 - 1"] by (metis add_uminus_conv_diff)
qed

lemma word_index_inj: "i < 2 ^ 61 \<Longrightarrow> j < 2 ^ 61 \<Longrightarrow> a + 8 * of_nat i = a + 8 * of_nat j \<longleftrightarrow> i = j" for a :: u64
proof -
  assume "i < 2 ^ 61" "j < 2 ^ 61"
  then have "unat (of_nat (8 * i) :: u64) = 8 * i" "unat (of_nat (8 * j) :: u64) = 8 * j"
    by (simp_all add: unat_of_nat_small del: of_nat_mult)
  then have "(of_nat (8 * i) :: u64) = of_nat (8 * j) \<longleftrightarrow> i = j" by (metis mult_cancel1 zero_neq_numeral)
  then show ?thesis by simp
qed

lemma push_simps [simp]:
  "regs (push v s) = (regs s)(RSP := regs s RSP - 8)" "x_rflags (push v s) = x_rflags s" "x_rip (push v s) = x_rip s"
  "x_cs (push v s) = x_cs s" "x_ss (push v s) = x_ss s" "x_cr2 (push v s) = x_cr2 s" "kern (push v s) = kern s"
  "stopped (push v s) = stopped s"
  by (simp_all add: push_def)

lemma set_reg_simps [simp]:
  "regs (set_reg r v s) = (regs s)(r := v)" "xmem (set_reg r v s) = xmem s" "x_rflags (set_reg r v s) = x_rflags s"
  "x_rip (set_reg r v s) = x_rip s" "x_cs (set_reg r v s) = x_cs s" "x_ss (set_reg r v s) = x_ss s"
  "x_cr2 (set_reg r v s) = x_cr2 s" "kern (set_reg r v s) = kern s" "stopped (set_reg r v s) = stopped s"
  by (simp_all add: set_reg_def)

lemma push_words:
  assumes "stack_words s ws" "Suc (length ws) < 2 ^ 32"
  shows "stack_words (push v s) (v # ws)"
proof -
  let ?p = "regs s RSP - 8"
  have al: "8 dvd unat ?p" using assms(1) by (simp add: stack_words_def aligned_push)
  have "top_word (push v s) i = (v # ws) ! i" if "i < Suc (length ws)" for i
  proof (cases i)
    case 0
    then show ?thesis by (simp add: top_word_def push_def load_store_same)
  next
    case (Suc j)
    have ne: "?p \<noteq> ?p + 8 * of_nat i" using word_index_inj [of 0 i ?p] Suc that assms(2) by simp
    have "top_word (push v s) i = load64 (xmem s) (?p + 8 * of_nat i)"
      using load_store_other [OF al aligned_word [OF al] ne] by (simp add: top_word_def push_def)
    also have "?p + 8 * of_nat i = regs s RSP + 8 * of_nat j" by (simp add: Suc)
    finally show ?thesis using assms(1) that Suc by (simp add: stack_words_def top_word_def)
  qed
  then show ?thesis using al assms(2) by (simp add: stack_words_def)
qed

lemma pop_words:
  assumes "stack_words s (v # ws)" "regs s' RSP = regs s RSP + 8" "xmem s' = xmem s"
  shows "top_word s 0 = v" "stack_words s' ws"
proof -
  have "top_word s' i = top_word s (Suc i)" for i by (simp add: assms(2,3) top_word_def add.assoc)
  then show "top_word s 0 = v" "stack_words s' ws"
    using assms aligned_word [of "regs s RSP" 1] by (auto simp: stack_words_def)
qed

section \<open>Runs of instructions\<close>

lemma exec_stopped [simp]: "stopped s \<Longrightarrow> exec env is s = s"
  by (cases "is") simp_all

lemma exec_append: "exec env (is @ js) s = exec env js (exec env is s)"
  by (induction "is" arbitrary: s) simp_all

lemma exec_pushes:
  "RSP \<notin> set rs \<Longrightarrow> stack_words s ws \<Longrightarrow> length ws + length rs < 2 ^ 32 \<Longrightarrow> \<not> stopped s \<Longrightarrow>
   \<exists>m. exec env (map Pushq rs) s = s\<lparr>regs := (regs s)(RSP := regs s RSP - 8 * of_nat (length rs)), xmem := m\<rparr> \<and>
     stack_words (exec env (map Pushq rs) s) (rev (map (regs s) rs) @ ws)"
proof (induction rs arbitrary: s ws)
  case Nil
  then show ?case by (intro exI [of _ "xmem s"]) simp
next
  case (Cons r rs)
  let ?s = "push (regs s r) s"
  have "stack_words ?s (regs s r # ws)" by (rule push_words) (use Cons.prems in auto)
  moreover have "RSP \<notin> set rs" "length (regs s r # ws) + length rs < 2 ^ 32" "\<not> stopped ?s" using Cons.prems by simp_all
  ultimately obtain m where m:
    "exec env (map Pushq rs) ?s = ?s\<lparr>regs := (regs ?s)(RSP := regs ?s RSP - 8 * of_nat (length rs)), xmem := m\<rparr>"
    "stack_words (exec env (map Pushq rs) ?s) (rev (map (regs ?s) rs) @ regs s r # ws)"
    using Cons.IH by blast
  have e: "exec env (map Pushq (r # rs)) s = exec env (map Pushq rs) ?s" using Cons.prems(4) by simp
  have k: "map (regs ?s) rs = map (regs s) rs" using Cons.prems(1) by auto
  show ?case
  proof (intro exI conjI)
    show "exec env (map Pushq (r # rs)) s = s\<lparr>regs := (regs s)(RSP := regs s RSP - 8 * of_nat (length (r # rs))), xmem := m\<rparr>"
      unfolding e m(1) by (simp add: push_def algebra_simps)
    show "stack_words (exec env (map Pushq (r # rs)) s) (rev (map (regs s) (r # rs)) @ ws)"
      unfolding e using m(2) unfolding k by simp
  qed
qed

primrec set_regs :: "(reg \<times> u64) list \<Rightarrow> (reg \<Rightarrow> u64) \<Rightarrow> reg \<Rightarrow> u64" where
  "set_regs [] f = f"
| "set_regs (p # ps) f = set_regs ps (f(fst p := snd p))"

lemma exec_pops:
  "RSP \<notin> set rs \<Longrightarrow> length vs = length rs \<Longrightarrow> stack_words s (vs @ ws) \<Longrightarrow> \<not> stopped s \<Longrightarrow>
   exec env (map Popq rs) s =
     s\<lparr>regs := set_regs (zip rs vs) ((regs s)(RSP := regs s RSP + 8 * of_nat (length rs)))\<rparr> \<and>
   stack_words (exec env (map Popq rs) s) ws"
proof (induction rs arbitrary: s vs)
  case (Cons r rs)
  obtain v vs' where vs: "vs = v # vs'" using Cons.prems(2) by (cases vs) auto
  let ?s = "set_reg r v (set_reg RSP (regs s RSP + 8) s)"
  have r: "r \<noteq> RSP" using Cons.prems(1) by auto
  have w: "stack_words s (v # vs' @ ws)" using Cons.prems(3) vs by simp
  have p: "top_word s 0 = v" "stack_words ?s (vs' @ ws)" using pop_words [OF w, of ?s] r by simp_all
  have e: "exec env (map Popq (r # rs)) s = exec env (map Popq rs) ?s" using Cons.prems(4) p(1) by simp
  have u: "(regs ?s)(RSP := regs ?s RSP + 8 * of_nat (length rs)) =
      (regs s)(RSP := regs s RSP + 8 * of_nat (length (r # rs)), r := v)" using r by (simp add: fun_eq_iff algebra_simps)
  have ih: "RSP \<notin> set rs" "length vs' = length rs" "\<not> stopped ?s" using Cons.prems vs by simp_all
  have g: "?s\<lparr>regs := f\<rparr> = s\<lparr>regs := f\<rparr>" for f by (simp add: set_reg_def)
  from Cons.IH [OF ih(1,2) p(2) ih(3)] show ?case
    unfolding e u g vs zip_Cons_Cons set_regs.simps fst_conv snd_conv .
qed simp

lemma c_call_words:
  assumes "stack_words s ws" "junk_depth env < 2 ^ 63" "regs s' RSP = regs s RSP"
    "xmem s' = xmem (after_call env v k s)"
  shows "stack_words s' ws"
proof -
  have "top_word s' i = top_word s i" if i: "i < length ws" for i
  proof -
    have "xmem s' (regs s RSP + 8 * of_nat i + of_nat j) = xmem s (regs s RSP + 8 * of_nat i + of_nat j)" if "j < 8" for j
    proof -
      have "8 * i + j < 2 ^ 36" using i that assms(1) by (simp add: stack_words_def)
      moreover have "regs s RSP - (regs s RSP + 8 * of_nat i + of_nat j) = 0 - of_nat (8 * i + j)" by simp
      ultimately have "unat (regs s RSP - (regs s RSP + 8 * of_nat i + of_nat j)) = (if 8 * i + j = 0 then 0 else 2 ^ 64 - (8 * i + j))"
        by (simp only: unat_sub_if') (simp add: unat_of_nat_small del: of_nat_add of_nat_mult)
      then show ?thesis using \<open>8 * i + j < 2 ^ 36\<close> assms(2) by (auto simp: assms(4) after_call_def split: if_splits)
    qed
    then show ?thesis unfolding top_word_def load64_def assms(3) by (intro load_le_cong) simp
  qed
  then show ?thesis using assms(1,3) by (simp add: stack_words_def)
qed

end
