(* ===== verification/Gdt.thy ===== *)
theory Gdt
  imports Port_Io
begin

text \<open>
  The segment descriptors and the task state segment, \<^verbatim>\<open>kernel/arch/x86_64/gdt.c\<close> and
  \<^verbatim>\<open>gdt.h\<close>. Addresses that the linker chooses are the argument \<open>sy\<close>. The second part
  reads descriptors the way the processor does.
\<close>

section \<open>Addresses\<close>

record symbols =
  addr_gdt :: u64
  addr_tss :: u64
  addr_stack_top :: u64
  addr_idt :: u64
  addr_sb_exception :: "nat \<Rightarrow> u64"
  addr_timer_irq_stub :: u64
  addr_syscall_int80_stub :: u64

section \<open>Tables\<close>

definition SB_KERNEL_DATA_SELECTOR :: u16 where "SB_KERNEL_DATA_SELECTOR = 0x10"
definition SB_KERNEL_CODE_SELECTOR :: u16 where "SB_KERNEL_CODE_SELECTOR = 0x18"
definition SB_USER_CODE_SELECTOR :: u16 where "SB_USER_CODE_SELECTOR = 0x23"
definition SB_USER_DATA_SELECTOR :: u16 where "SB_USER_DATA_SELECTOR = 0x2B"
definition SB_TSS_SELECTOR :: u16 where "SB_TSS_SELECTOR = 0x30"

record tss64 =
  reserved0 :: u32
  rsp0 :: u64
  rsp1 :: u64
  rsp2 :: u64
  reserved1 :: u64
  ists :: "u64 list"
  reserved2 :: u64
  reserved3 :: u16
  iomap_base :: u16

definition sizeof_tss :: u64 where
  "sizeof_tss = 104"

record table_ptr =
  table_limit :: u16
  table_base :: u64

text \<open>\<open>gdtr\<close> and \<open>tr\<close> are the processor registers that \<^verbatim>\<open>lgdt\<close> and \<^verbatim>\<open>ltr\<close> load.\<close>

record gdt_state =
  gdt :: "u64 list"
  tss :: tss64
  gdt_descriptor :: table_ptr
  gdtr :: table_ptr
  tr :: u16

definition segment_descriptor :: "u8 \<Rightarrow> u8 \<Rightarrow> u64" where
  "segment_descriptor access flags = 0xFFFF OR push_bit 40 (ucast access) OR push_bit 52 (ucast (flags AND 0x0F))"

definition tss_descriptor_low :: "u64 \<Rightarrow> u32 \<Rightarrow> u64" where
  "tss_descriptor_low base limit =
     ucast (limit AND 0xFFFF) OR push_bit 16 (base AND 0xFFFF) OR push_bit 32 (drop_bit 16 base AND 0xFF) OR push_bit 40 0x89 OR
     push_bit 48 (ucast (drop_bit 16 limit AND 0x0F)) OR push_bit 56 (drop_bit 24 base AND 0xFF)"

definition gdt_write_tss_descriptor :: "u64 \<Rightarrow> u32 \<Rightarrow> gdt_state \<Rightarrow> gdt_state" where
  "gdt_write_tss_descriptor base limit g =
     (let low = tss_descriptor_low base limit;
          high = drop_bit 32 base AND 0xFFFFFFFF in
      g\<lparr>gdt := (gdt g)[6 := low, 7 := high]\<rparr>)"

definition gdt_debug :: "'h port_io \<Rightarrow> string \<Rightarrow> 'h \<Rightarrow> 'h option" where
  "gdt_debug = serial_write"

definition gdt_init :: "'h port_io \<Rightarrow> symbols \<Rightarrow> gdt_state \<Rightarrow> 'h \<Rightarrow> (gdt_state \<times> 'h) option" where
  "gdt_init io sy g h = do {
     h \<leftarrow> gdt_debug io (''[GDT] begin'' @ crlf) h;
     let g = g\<lparr>gdt := (gdt g)[0 := 0, 1 := segment_descriptor 0x9A 0x0A, 2 := segment_descriptor 0x92 0x0C,
                 3 := segment_descriptor 0x9A 0x0A, 4 := segment_descriptor 0xFA 0x0A, 5 := segment_descriptor 0xF2 0x0C]\<rparr>;
     h \<leftarrow> gdt_debug io (''[GDT] segment descriptors ready'' @ crlf) h;
     let base = addr_tss sy;
     let limit = ucast (sizeof_tss - 1);
     let g = gdt_write_tss_descriptor base limit g;
     h \<leftarrow> gdt_debug io (''[GDT] TSS descriptor ready'' @ crlf) h;
     let g = g\<lparr>tss := (tss g)\<lparr>rsp0 := addr_stack_top sy, iomap_base := ucast sizeof_tss\<rparr>\<rparr>;
     h \<leftarrow> gdt_debug io (''[GDT] TSS state ready'' @ crlf) h;
     let g = g\<lparr>gdt_descriptor := \<lparr>table_limit = 8 * 8 - 1, table_base = addr_gdt sy\<rparr>\<rparr>;
     h \<leftarrow> gdt_debug io (''[GDT] descriptor ready'' @ crlf) h;
     h \<leftarrow> gdt_debug io (''[GDT] lgdt begin'' @ crlf) h;
     let g = g\<lparr>gdtr := gdt_descriptor g\<rparr>;
     h \<leftarrow> gdt_debug io (''[GDT] lgdt returned'' @ crlf) h;
     h \<leftarrow> gdt_debug io (''[GDT] segment caches retained'' @ crlf) h;
     h \<leftarrow> gdt_debug io (''[GDT] ltr begin'' @ crlf) h;
     let g = g\<lparr>tr := SB_TSS_SELECTOR\<rparr>;
     h \<leftarrow> gdt_debug io (''[GDT] ltr returned'' @ crlf) h;
     Some (g, h)
   }"

definition gdt_set_kernel_stack :: "u64 \<Rightarrow> gdt_state \<Rightarrow> gdt_state" where
  "gdt_set_kernel_stack stack_pointer g = g\<lparr>tss := (tss g)\<lparr>rsp0 := stack_pointer\<rparr>\<rparr>"

section \<open>What the processor reads\<close>

definition desc_present :: "u64 \<Rightarrow> bool" where "desc_present d = bit d 47"
definition desc_dpl :: "u64 \<Rightarrow> u64" where "desc_dpl d = drop_bit 45 d AND 3"
definition desc_segment :: "u64 \<Rightarrow> bool" where "desc_segment d = bit d 44"
definition desc_code :: "u64 \<Rightarrow> bool" where "desc_code d = bit d 43"
definition desc_long :: "u64 \<Rightarrow> bool" where "desc_long d = bit d 53"
definition desc_big :: "u64 \<Rightarrow> bool" where "desc_big d = bit d 54"
definition desc_writable :: "u64 \<Rightarrow> bool" where "desc_writable d = bit d 41"

text \<open>The descriptor that a selector names, if its index is inside the table.\<close>

definition selected_descriptor :: "gdt_state \<Rightarrow> u16 \<Rightarrow> u64 option" where
  "selected_descriptor g sel =
     (let i = unat (drop_bit 3 sel) in
      if i * 8 + 7 \<le> unat (table_limit (gdtr g)) \<and> i < length (gdt g) then Some (gdt g ! i) else None)"

text \<open>A selector of a present 64-bit code segment, or of a present writable data segment, whose
  requested privilege is the segment's.\<close>

definition code_selector_ok :: "gdt_state \<Rightarrow> u16 \<Rightarrow> bool" where
  "code_selector_ok g sel \<longleftrightarrow>
     (case selected_descriptor g sel of
        None \<Rightarrow> False
      | Some d \<Rightarrow> desc_present d \<and> desc_segment d \<and> desc_code d \<and> desc_long d \<and> \<not> desc_big d \<and> desc_dpl d = ucast (sel AND 3))"

definition data_selector_ok :: "gdt_state \<Rightarrow> u16 \<Rightarrow> bool" where
  "data_selector_ok g sel \<longleftrightarrow>
     (case selected_descriptor g sel of
        None \<Rightarrow> False
      | Some d \<Rightarrow> desc_present d \<and> desc_segment d \<and> \<not> desc_code d \<and> desc_writable d \<and> desc_dpl d = ucast (sel AND 3))"

definition tss_base :: "u64 \<Rightarrow> u64 \<Rightarrow> u64" where
  "tss_base low high = (drop_bit 16 low AND 0xFFFFFF) OR push_bit 24 (drop_bit 56 low) OR push_bit 32 high"

definition tss_limit :: "u64 \<Rightarrow> u64" where
  "tss_limit low = (low AND 0xFFFF) OR push_bit 16 (drop_bit 48 low AND 0xF)"

definition tss_type :: "u64 \<Rightarrow> u64" where
  "tss_type low = drop_bit 40 low AND 0x1F"

lemma bits_of_masks:
  "(0xFFFF :: 'a::len word) = mask 16" "(0xFF :: 'a word) = mask 8" "(0xFFFFFF :: 'a word) = mask 24"
  "(0xFFFFFFFF :: 'a word) = mask 32" "(0xF :: 'a word) = mask 4" "(0x1F :: 'a word) = mask 5"
  by (simp_all add: mask_eq_exp_minus_1)

lemma tss_base_roundtrip: "tss_base (tss_descriptor_low base limit) (drop_bit 32 base AND 0xFFFFFFFF) = base"
proof (rule bit_word_eqI)
  fix n assume "n < LENGTH(64)"
  then have "n < 64" by simp
  have "\<not> bit (2298478592 :: u64) n" if "n < 24" using that bit_push_bit_iff [of 24 "0x89 :: u64" n] by simp
  with \<open>n < 64\<close> consider "n < 16" "\<not> bit (2298478592 :: u64) n" | "16 \<le> n" "n < 24" "\<not> bit (2298478592 :: u64) n" | "24 \<le> n" "n < 32" | "32 \<le> n"
    by (meson not_le)
  then show "bit (tss_base (tss_descriptor_low base limit) (drop_bit 32 base AND 0xFFFFFFFF)) n = bit base n"
    using \<open>n < 64\<close>
    by cases (auto simp: tss_base_def tss_descriptor_low_def bits_of_masks bit_simps bit_mask_iff dest: bit_imp_le_length)
qed

lemma serial_write_bind:
  assumes "uart_ok io busy sent" "\<And>h'. \<exists>r. f h' = Some r \<and> P r"
  shows "\<exists>r. Option.bind (serial_write io t h) f = Some r \<and> P r"
  using serial_write_sent [OF assms(1), of t h] assms(2) by auto

definition gdt_ready :: "symbols \<Rightarrow> gdt_state \<Rightarrow> bool" where
  "gdt_ready sy g \<longleftrightarrow>
     code_selector_ok g SB_KERNEL_CODE_SELECTOR \<and> code_selector_ok g SB_USER_CODE_SELECTOR \<and>
     data_selector_ok g SB_KERNEL_DATA_SELECTOR \<and> data_selector_ok g SB_USER_DATA_SELECTOR \<and>
     table_base (gdtr g) = addr_gdt sy \<and> tr g = SB_TSS_SELECTOR \<and> rsp0 (tss g) = addr_stack_top sy \<and>
     (\<exists>low high. selected_descriptor g (tr g) = Some low \<and> gdt g ! 7 = high \<and> desc_present low \<and>
        tss_type low = 9 \<and> tss_base low high = addr_tss sy \<and> tss_limit low = sizeof_tss - 1)"

definition gdt_loaded :: "symbols \<Rightarrow> tss64 \<Rightarrow> gdt_state" where
  "gdt_loaded sy t =
     \<lparr>gdt = [0, segment_descriptor 0x9A 0x0A, segment_descriptor 0x92 0x0C, segment_descriptor 0x9A 0x0A,
             segment_descriptor 0xFA 0x0A, segment_descriptor 0xF2 0x0C,
             tss_descriptor_low (addr_tss sy) 103, drop_bit 32 (addr_tss sy) AND 0xFFFFFFFF],
      tss = t\<lparr>rsp0 := addr_stack_top sy, iomap_base := 104\<rparr>,
      gdt_descriptor = \<lparr>table_limit = 63, table_base = addr_gdt sy\<rparr>, gdtr = \<lparr>table_limit = 63, table_base = addr_gdt sy\<rparr>,
      tr = SB_TSS_SELECTOR\<rparr>"

lemma list8: "length xs = 8 \<Longrightarrow> xs[0 := a, 1 := b, 2 := c, 3 := d, 4 := e, 5 := f, 6 := g, 7 := h] = [a, b, c, d, e, f, g, h]"
  by (auto simp: eval_nat_numeral length_Suc_conv)

lemma gdt_init_loads:
  assumes "uart_ok io busy sent" "length (gdt g) = 8"
  shows "\<exists>r. gdt_init io sy g h = Some r \<and> fst r = gdt_loaded sy (tss g)"
  unfolding gdt_init_def gdt_debug_def Let_def
  by (intro serial_write_bind [OF assms(1)])
    (simp add: gdt_loaded_def gdt_write_tss_descriptor_def list8 [OF assms(2), simplified] sizeof_tss_def Let_def)

lemma tss_low_fields:
  "desc_present (tss_descriptor_low base 103)" "tss_type (tss_descriptor_low base 103) = 9"
  "tss_limit (tss_descriptor_low base 103) = 103"
proof -
  show "desc_present (tss_descriptor_low base 103)"
    by (simp add: desc_present_def tss_descriptor_low_def bits_of_masks bit_simps bit_mask_iff)
  have m: "(137 :: u64) AND mask 5 = 9" "(103 :: u64) AND mask 16 = 103" by (simp_all add: mask_eq_exp_minus_1)
  have k: "bit (9 :: u64) n \<longleftrightarrow> bit (137 :: u64) n \<and> n < 5" "bit (103 :: u64) n \<Longrightarrow> n < 16" if "n < 64" for n
    using that arg_cong [OF m(1), of "\<lambda>w. bit w n"] arg_cong [OF m(2), of "\<lambda>w. bit w n"]
    by (simp_all add: bit_and_iff bit_mask_iff)
  show "tss_type (tss_descriptor_low base 103) = 9"
  proof (rule bit_word_eqI)
    fix n assume "n < LENGTH(64)"
    then show "bit (tss_type (tss_descriptor_low base 103)) n = bit (9 :: u64) n"
      using k(1) [of n] by (auto simp: tss_type_def tss_descriptor_low_def bits_of_masks bit_simps bit_mask_iff)
  qed
  show "tss_limit (tss_descriptor_low base 103) = 103"
  proof (rule bit_word_eqI)
    fix n assume "n < LENGTH(64)"
    then have n: "n < 64" by simp
    show "bit (tss_limit (tss_descriptor_low base 103)) n = bit (103 :: u64) n"
    proof (cases "n < 16")
      case True
      then have "\<not> bit (150633093005312 :: u64) n" using bit_push_bit_iff [of 40 "0x89 :: u64" n] by simp
      then show ?thesis using True by (simp add: tss_limit_def tss_descriptor_low_def bits_of_masks bit_simps bit_mask_iff)
    next
      case False
      then have "\<not> bit (103 :: u64) n" using k(2) [OF n] by blast
      then show ?thesis using False n
        by (simp add: tss_limit_def tss_descriptor_low_def bits_of_masks bit_simps bit_mask_iff) linarith
    qed
  qed
qed

lemma gdt_loaded_ready: "gdt_ready sy (gdt_loaded sy t)"
proof -
  let ?g = "gdt_loaded sy t"
  have "code_selector_ok ?g SB_KERNEL_CODE_SELECTOR" "code_selector_ok ?g SB_USER_CODE_SELECTOR"
    "data_selector_ok ?g SB_KERNEL_DATA_SELECTOR" "data_selector_ok ?g SB_USER_DATA_SELECTOR"
    by (simp_all add: code_selector_ok_def data_selector_ok_def selected_descriptor_def gdt_loaded_def Let_def
        SB_KERNEL_CODE_SELECTOR_def SB_USER_CODE_SELECTOR_def SB_KERNEL_DATA_SELECTOR_def SB_USER_DATA_SELECTOR_def
        segment_descriptor_def desc_present_def desc_segment_def desc_code_def desc_long_def desc_big_def desc_dpl_def desc_writable_def)
  moreover have "selected_descriptor ?g SB_TSS_SELECTOR = Some (tss_descriptor_low (addr_tss sy) 103)"
    by (simp add: selected_descriptor_def gdt_loaded_def SB_TSS_SELECTOR_def)
  ultimately show ?thesis
    using tss_low_fields [of "addr_tss sy"] tss_base_roundtrip [of "addr_tss sy" 103]
    by (simp add: gdt_ready_def sizeof_tss_def) (simp add: gdt_loaded_def)
qed

text \<open>C40. On a console that works \<open>gdt_init\<close> returns, and the table it loads is what the rest of the
kernel relies on: the kernel and user code selectors name present 64-bit code segments and the data selectors present
writable segments, each of its selector's privilege; the loaded task register names an available task state segment of
the right size whose base reads back as the address of \<open>tss\<close>, and the segment's kernel stack is the boot stack.\<close>

theorem gdt_init_ready:
  assumes "uart_ok io busy sent" "length (gdt g) = 8"
  shows "\<exists>g' h'. gdt_init io sy g h = Some (g', h') \<and> gdt_ready sy g'"
  using gdt_init_loads [OF assms, of sy h] gdt_loaded_ready [of sy "tss g"] by fastforce

definition sample_symbols :: symbols where
  "sample_symbols = \<lparr>addr_gdt = 0x108000, addr_tss = 0x109040, addr_stack_top = 0x110000, addr_idt = 0x10A000,
     addr_sb_exception = (\<lambda>n. 0x101000 + 16 * of_nat n), addr_timer_irq_stub = 0x101400, addr_syscall_int80_stub = 0x101500\<rparr>"

definition gdt_static :: gdt_state where
  "gdt_static = \<lparr>gdt = replicate 8 0, tss = \<lparr>reserved0 = 0, rsp0 = 0, rsp1 = 0, rsp2 = 0, reserved1 = 0, ists = replicate 7 0,
     reserved2 = 0, reserved3 = 0, iomap_base = 0\<rparr>, gdt_descriptor = \<lparr>table_limit = 0, table_base = 0\<rparr>,
     gdtr = \<lparr>table_limit = 0, table_base = 0\<rparr>, tr = 0\<rparr>"

theorem gdt_init_ready_witness:
  "\<exists>g' h'. gdt_init sample_uart sample_symbols gdt_static (0, []) = Some (g', h') \<and> gdt_ready sample_symbols g'"
  using gdt_init_ready [OF sample_uart_ok, of gdt_static sample_symbols "(0, [])"] by (simp add: gdt_static_def)

end
