(* ===== verification/Interrupts.thy ===== *)
theory Interrupts
  imports X86 Gdt
begin

text \<open>
  The interrupt descriptor table, \<^verbatim>\<open>kernel/arch/x86_64/interrupts.c\<close>, how the processor delivers an
  interrupt through it, and the assembly entry points that the gates name: \<^verbatim>\<open>irq.S\<close>, \<^verbatim>\<open>syscall.S\<close>,
  \<^verbatim>\<open>exception.S\<close>, with \<open>arch_enter_user\<close> of \<^verbatim>\<open>user_mode.S\<close>, which leaves through the same
  \<^verbatim>\<open>iretq\<close>.
\<close>

section \<open>The table\<close>

record idt_entry =
  offset_low :: u16
  gate_selector :: u16
  ist :: u8
  type_attr :: u8
  offset_mid :: u16
  offset_high :: u32
  gate_zero :: u32

record idt_state =
  idt :: "idt_entry list"
  idt_descriptor :: table_ptr
  idtr :: table_ptr

definition zero_entry :: idt_entry where
  "zero_entry = \<lparr>offset_low = 0, gate_selector = 0, ist = 0, type_attr = 0, offset_mid = 0, offset_high = 0, gate_zero = 0\<rparr>"

definition gate_for :: "u64 \<Rightarrow> u8 \<Rightarrow> idt_entry" where
  "gate_for handler dpl =
     \<lparr>offset_low = ucast (handler AND 0xFFFF), gate_selector = 0x18, ist = 0, type_attr = 0x8E OR push_bit 5 (dpl AND 3),
      offset_mid = ucast (drop_bit 16 handler AND 0xFFFF), offset_high = ucast (drop_bit 32 handler), gate_zero = 0\<rparr>"

definition idt_set_gate :: "u8 \<Rightarrow> u64 \<Rightarrow> u8 \<Rightarrow> idt_state \<Rightarrow> idt_state" where
  "idt_set_gate vector handler dpl I = I\<lparr>idt := (idt I)[unat vector := gate_for handler dpl]\<rparr>"

definition interrupts_set_handler :: "u8 \<Rightarrow> u64 \<Rightarrow> idt_state \<Rightarrow> idt_state" where
  "interrupts_set_handler vector handler = idt_set_gate vector handler 0"

definition interrupts_set_user_handler :: "u8 \<Rightarrow> u64 \<Rightarrow> idt_state \<Rightarrow> idt_state" where
  "interrupts_set_user_handler vector handler = idt_set_gate vector handler 3"

definition interrupts_init :: "symbols \<Rightarrow> idt_state \<Rightarrow> idt_state" where
  "interrupts_init sy I =
     (let I = fold (\<lambda>i I. idt_set_gate (of_nat i) (addr_sb_exception sy 0) 0 (I\<lparr>idt := (idt I)[i := zero_entry]\<rparr>)) [0..<256] I;
          I = fold (\<lambda>i. idt_set_gate (of_nat i) (addr_sb_exception sy i) 0) [0..<32] I;
          I = I\<lparr>idt_descriptor := \<lparr>table_limit = 256 * 16 - 1, table_base = addr_idt sy\<rparr>\<rparr> in
      I\<lparr>idtr := idt_descriptor I\<rparr>)"

definition interrupts_enable :: "'s x86 \<Rightarrow> 's x86" where
  "interrupts_enable s = s\<lparr>x_rflags := x_rflags s OR IF_FLAG\<rparr>"

definition interrupts_disable :: "'s x86 \<Rightarrow> 's x86" where
  "interrupts_disable s = s\<lparr>x_rflags := x_rflags s AND NOT IF_FLAG\<rparr>"

section \<open>Delivery by the processor\<close>

definition gate_handler :: "idt_entry \<Rightarrow> u64" where
  "gate_handler e = push_bit 32 (ucast (offset_high e)) OR push_bit 16 (ucast (offset_mid e)) OR ucast (offset_low e)"

definition gate_dpl :: "idt_entry \<Rightarrow> u8" where
  "gate_dpl e = drop_bit 5 (type_attr e) AND 3"

text \<open>
  Entering a gate: from user mode the stack is the one in the task state segment. The old stack,
  flags and return address are pushed on the aligned stack, then the error code if the exception has
  one, and interrupts are off in the handler.
\<close>

definition deliver :: "u64 \<Rightarrow> idt_entry \<Rightarrow> u64 option \<Rightarrow> 's x86 \<Rightarrow> 's x86" where
  "deliver kstack e err s =
     (let sp = (if x_cs s AND 3 = 0 then regs s RSP else kstack) AND NOT 0xF;
          t = push (x_rip s) (push (x_cs s) (push (x_rflags s) (push (regs s RSP) (push (x_ss s) (set_reg RSP sp s)))));
          t = (case err of None \<Rightarrow> t | Some c \<Rightarrow> push c t) in
      t\<lparr>x_cs := ucast (gate_selector e), x_rflags := x_rflags s AND NOT 0x14300, x_rip := gate_handler e\<rparr>)"

definition interrupt ::
    "'s env \<Rightarrow> (u64 \<Rightarrow> instr list) \<Rightarrow> u64 \<Rightarrow> idt_state \<Rightarrow> nat \<Rightarrow> u64 option \<Rightarrow> 's x86 \<Rightarrow> 's x86" where
  "interrupt env code kstack I v err s =
     (let t = deliver kstack (idt I ! v) err s in exec env (code (x_rip t)) t)"

section \<open>Entry points\<close>

definition serial_mark :: "u8 \<Rightarrow> instr list" where
  "serial_mark ch = [Movw_imm 0x3F8 RDX, Movb_imm ch RAX, Outb_al_dx]"

definition sb_timer_irq_stub :: "instr list" where
  "sb_timer_irq_stub =
     [Pushq RAX, Pushq RCX, Pushq RDX, Pushq RSI, Pushq RDI, Pushq R8, Pushq R9, Pushq R10, Pushq R11] @
     serial_mark 0x45 @ [Call Fn_sb_timer_tick] @ serial_mark 0x54 @
     [Movw_imm 0x20 RDX, Movb_imm 0x20 RAX, Outb_al_dx] @ serial_mark 0x4F @
     [Popq R11, Popq R10, Popq R9, Popq R8, Popq RDI, Popq RSI, Popq RDX, Popq RCX, Popq RAX] @
     serial_mark 0x52 @ [Iretq]"

definition sb_syscall_int80_stub :: "instr list" where
  "sb_syscall_int80_stub =
     [Pushq R11, Pushq R10, Pushq R9, Pushq R8, Pushq RCX, Pushq RDX, Pushq RSI, Pushq RDI, Pushq RAX] @
     [Movq_load 64 RDI, Movq_load 56 RSI, Movq_load 48 RDX, Movq_load 40 RCX, Movq_load 8 R8, Movq_load 24 R9,
      Call Fn_sb_syscall_dispatch_entry, Addq_imm 72 RSP, Iretq]"

definition sb_exception_common :: "instr list" where
  "sb_exception_common =
     serial_mark 0x58 @
     [Cli, Movq_load 0 RDI, Movq_load 8 RSI, Movq_load 16 RDX, Movq_load 24 RCX, Movq_load 32 R8, Movq_cr2 R9,
      Call Fn_sb_panic_from_exception, Hlt]"

text \<open>The stubs of the \<^verbatim>\<open>EXC_ERR\<close> macro; all other vectors use \<^verbatim>\<open>EXC_NOERR\<close>.\<close>

definition exc_err :: "nat list" where
  "exc_err = [8, 10, 11, 12, 13, 14, 21, 30]"

definition sb_exception :: "nat \<Rightarrow> instr list" where
  "sb_exception n =
     (if n \<in> set exc_err then [Pushq_imm (of_nat n)] else [Pushq_imm 0, Pushq_imm (of_nat n)]) @ sb_exception_common"

definition arch_enter_user :: "instr list" where
  "arch_enter_user =
     [Cli, Movq RSI RSP, Andq_imm (- 16) RSP, Pushq_imm 0x2B, Pushq RSI, Pushfq, Orq_top 0x200, Pushq_imm 0x23, Pushq RDI, Iretq]"

section \<open>Gates\<close>

lemma gate_for_handler [simp]: "gate_handler (gate_for handler dpl) = handler"
proof (rule bit_word_eqI)
  fix n assume "n < LENGTH(64)"
  then have "n < 64" by simp
  then consider "n < 16" | "16 \<le> n" "n < 32" | "32 \<le> n" by linarith
  then show "bit (gate_handler (gate_for handler dpl)) n = bit handler n"
    using \<open>n < 64\<close> by cases (auto simp: gate_handler_def gate_for_def bits_of_masks bit_simps bit_mask_iff dest: bit_imp_le_length)
qed

lemma gate_for_selector [simp]: "gate_selector (gate_for handler dpl) = 0x18"
  by (simp add: gate_for_def)

lemma set_gate_nth: "v < length (idt I) \<Longrightarrow> idt (idt_set_gate u handler dpl I) ! v = (if v = unat u then gate_for handler dpl else idt I ! v)"
  by (auto simp: idt_set_gate_def)

lemma set_gate_length [simp]: "length (idt (idt_set_gate u handler dpl I)) = length (idt I)"
  by (simp add: idt_set_gate_def)

lemma interrupts_init_gates:
  assumes "length (idt I) = 256"
  shows "length (idt (interrupts_init sy I)) = 256"
    and "v < 256 \<Longrightarrow> idt (interrupts_init sy I) ! v = gate_for (addr_sb_exception sy (if v < 32 then v else 0)) 0"
proof -
  let ?clear = "\<lambda>i I. idt_set_gate (of_nat i) (addr_sb_exception sy 0) 0 (I\<lparr>idt := (idt I)[i := zero_entry]\<rparr>)"
  have u: "unat (of_nat n :: u8) = n" if "n < 256" for n using that by (simp add: unat_of_nat_small)
  have a: "length (idt (fold ?clear [0..<n] I)) = 256 \<and>
      (v < n \<longrightarrow> v < 256 \<longrightarrow> idt (fold ?clear [0..<n] I) ! v = gate_for (addr_sb_exception sy 0) 0)" if "n \<le> 256" for n v
    using that
  proof (induction n)
    case (Suc n)
    then show ?case using u [of n] by (auto simp: set_gate_nth less_Suc_eq)
  qed (simp add: assms)
  let ?I = "fold ?clear [0..<256] I"
  have b: "length (idt (fold (\<lambda>i. idt_set_gate (of_nat i) (addr_sb_exception sy i) 0) [0..<n] ?I)) = 256 \<and>
      (v < 256 \<longrightarrow> idt (fold (\<lambda>i. idt_set_gate (of_nat i) (addr_sb_exception sy i) 0) [0..<n] ?I) ! v =
         gate_for (addr_sb_exception sy (if v < n then v else 0)) 0)" if "n \<le> 32" for n v
    using that
  proof (induction n)
    case 0
    then show ?case using a [of 256 v] by simp
  next
    case (Suc n)
    then show ?case using u [of n] by (auto simp: set_gate_nth less_Suc_eq)
  qed
  show "length (idt (interrupts_init sy I)) = 256"
    and "v < 256 \<Longrightarrow> idt (interrupts_init sy I) ! v = gate_for (addr_sb_exception sy (if v < 32 then v else 0)) 0"
    using b [of 32 v] by (simp_all add: interrupts_init_def Let_def del: upt_Suc)
qed

end
