(* ===== verification/Entry_Stubs.thy ===== *)
theory Entry_Stubs
  imports Interrupts
begin

text \<open>
  What the assembly entry points do when the processor runs them on a stack that holds an interrupt
  frame: the timer stub, the system call stub, the exception stubs and the entry to user mode.
\<close>

section \<open>Running the entry points\<close>

lemma stack_words_cong: "regs t RSP = regs s RSP \<Longrightarrow> xmem t = xmem s \<Longrightarrow> stack_words t ws = stack_words s ws"
  by (simp add: stack_words_def top_word_def)

lemma low_bits [simp]:
  "ucast ((x AND NOT 0xFFFF) OR ucast v :: u64) = (v :: u16)" "ucast ((x AND NOT 0xFF) OR ucast w :: u64) = (w :: u8)"
  by (rule bit_word_eqI; auto simp: bits_of_masks bit_simps bit_mask_iff dest: bit_imp_le_length)+

definition out_seq :: "u16 \<Rightarrow> u8 \<Rightarrow> instr list" where
  "out_seq p v = [Movw_imm p RDX, Movb_imm v RAX, Outb_al_dx]"

definition out_state :: "'s env \<Rightarrow> u16 \<Rightarrow> u8 \<Rightarrow> 's x86 \<Rightarrow> 's x86" where
  "out_state env p v s =
     s\<lparr>regs := (regs s)(RDX := (regs s RDX AND NOT 0xFFFF) OR ucast p, RAX := (regs s RAX AND NOT 0xFF) OR ucast v),
       kern := port_out env p v (kern s)\<rparr>"

lemma out_state_simps [simp]:
  "regs (out_state env p v s) =
     (regs s)(RDX := (regs s RDX AND NOT 0xFFFF) OR ucast p, RAX := (regs s RAX AND NOT 0xFF) OR ucast v)"
  "kern (out_state env p v s) = port_out env p v (kern s)" "xmem (out_state env p v s) = xmem s"
  "stopped (out_state env p v s) = stopped s" "x_rflags (out_state env p v s) = x_rflags s" "x_rip (out_state env p v s) = x_rip s"
  "x_cs (out_state env p v s) = x_cs s" "x_ss (out_state env p v s) = x_ss s" "x_cr2 (out_state env p v s) = x_cr2 s"
  by (simp_all add: out_state_def)

lemma exec_out: "\<not> stopped s \<Longrightarrow> exec env (out_seq p v) s = out_state env p v s"
  using low_bits(1) [of "regs s RDX" p] low_bits(2) [of "regs s RAX" v] by (simp add: out_seq_def out_state_def set_reg_def)

lemma serial_mark_out: "serial_mark ch = out_seq 0x3F8 ch"
  by (simp add: serial_mark_def out_seq_def)

lemma out_words [simp]: "stack_words (out_state env p v s) ws = stack_words s ws"
  by (rule stack_words_cong) simp_all

lemma exec_iretq:
  assumes "stack_words s [ip, cs, fl, sp, ss]" "\<not> stopped s"
  shows "exec env [Iretq] s = s\<lparr>regs := (regs s)(RSP := sp), x_rip := ip, x_cs := cs, x_rflags := fl, x_ss := ss\<rparr>"
proof -
  have w: "top_word s i = [ip, cs, fl, sp, ss] ! i" if "i < 5" for i using assms(1) that by (simp add: stack_words_def)
  show ?thesis using w [of 0] w [of 1] w [of 2] w [of 3] w [of 4] assms(2) by (simp add: set_reg_def)
qed

lemma deliver_simps [simp]:
  "r \<noteq> RSP \<Longrightarrow> regs (deliver kstack e err s) r = regs s r" "kern (deliver kstack e err s) = kern s"
  "stopped (deliver kstack e err s) = stopped s" "x_cr2 (deliver kstack e err s) = x_cr2 s"
  "x_rip (deliver kstack e err s) = gate_handler e"
  by (simp_all add: deliver_def Let_def split: option.splits)

lemma aligned16: "8 dvd unat (a AND NOT 0xF)" for a :: u64
proof -
  have "a AND NOT 0xF = a AND NOT (mask 4)" by (simp add: mask_eq_exp_minus_1)
  then have "16 dvd unat (a AND NOT 0xF)" using unat_and_not_mask_mult [of a 4] by simp
  then show ?thesis by (rule dvd_trans [rotated]) simp
qed

lemma deliver_words:
  "stack_words (deliver kstack e err s)
     ((case err of None \<Rightarrow> [] | Some c \<Rightarrow> [c]) @ [x_rip s, x_cs s, x_rflags s, regs s RSP, x_ss s])"
proof -
  let ?sp = "(if x_cs s AND 3 = 0 then regs s RSP else kstack) AND NOT 0xF"
  let ?t = "push (x_rip s) (push (x_cs s) (push (x_rflags s) (push (regs s RSP) (push (x_ss s) (set_reg RSP ?sp s)))))"
  have "stack_words (set_reg RSP ?sp s) []" using aligned16 by (simp add: stack_words_def)
  then have t: "stack_words ?t [x_rip s, x_cs s, x_rflags s, regs s RSP, x_ss s]" by (intro push_words) simp_all
  then have "stack_words (push c ?t) [c, x_rip s, x_cs s, x_rflags s, regs s RSP, x_ss s]" for c by (rule push_words) simp
  then show ?thesis
    using t by (auto simp: deliver_def Let_def stack_words_def top_word_def split: option.splits)
qed

definition timer_marks :: "'s env \<Rightarrow> ('s \<Rightarrow> 's) \<Rightarrow> 's \<Rightarrow> 's" where
  "timer_marks env tick k =
     port_out env 0x3F8 0x52 (port_out env 0x3F8 0x4F (port_out env 0x20 0x20 (port_out env 0x3F8 0x54
       (tick (port_out env 0x3F8 0x45 k)))))"

lemma timer_stub_exec:
  assumes ns: "\<not> stopped s" and w: "stack_words s [ip, cs, fl, sp, ss]" and jd: "junk_depth env < 2 ^ 63"
    and tick: "\<And>rs k. callee env Fn_sb_timer_tick rs k = Returns_void (tick k)"
  shows "\<exists>m. exec env sb_timer_irq_stub s =
    s\<lparr>regs := (regs s)(RAX := (regs s RAX AND NOT 0xFF) OR 0x52, RDX := (regs s RDX AND NOT 0xFFFF) OR 0x3F8, RSP := sp),
      xmem := m, x_rip := ip, x_cs := cs, x_rflags := fl, x_ss := ss, kern := timer_marks env tick (kern s)\<rparr>"
proof -
  let ?saved = "[RAX, RCX, RDX, RSI, RDI, R8, R9, R10, R11]"
  let ?frame = "[ip, cs, fl, sp, ss]"
  let ?vs = "rev (map (regs s) ?saved)"
  define s1 where "s1 = exec env (map Pushq ?saved) s"
  obtain m where s1: "s1 = s\<lparr>regs := (regs s)(RSP := regs s RSP - 72), xmem := m\<rparr>" and w1: "stack_words s1 (?vs @ ?frame)"
    using exec_pushes [of ?saved s ?frame env] w ns by (auto simp: s1_def)
  let ?s2 = "out_state env 0x3F8 0x45 s1"
  let ?s3 = "after_call env None (tick (kern ?s2)) ?s2"
  have w3: "stack_words ?s3 (?vs @ ?frame)"
    using c_call_words [OF _ jd, of ?s2 _ ?s3] w1 by (simp add: after_call_def callee_saved_def)
  define s4 where "s4 = out_state env 0x3F8 0x4F (out_state env 0x20 0x20 (out_state env 0x3F8 0x54 ?s3))"
  have w4: "stack_words s4 (?vs @ ?frame)" using w3 by (simp add: s4_def)
  have s4: "callee_saved r \<Longrightarrow> regs s4 r = regs s1 r" "\<not> stopped s4" "x_cr2 s4 = x_cr2 s"
    "kern s4 = port_out env 0x3F8 0x4F (port_out env 0x20 0x20 (port_out env 0x3F8 0x54 (tick (port_out env 0x3F8 0x45 (kern s)))))" for r
    using ns by (auto simp: s4_def s1 after_call_def callee_saved_def)
  define s5 where "s5 = exec env (map Popq (rev ?saved)) s4"
  have pre: "RSP \<notin> set (rev ?saved)" "length ?vs = length (rev ?saved)" by simp_all
  note p = exec_pops [OF pre w4 s4(2), of env, folded s5_def]
  note s5 = p [THEN conjunct1] and w5 = p [THEN conjunct2]
  have r5: "regs s5 = (regs s)(RSP := regs s5 RSP)"
  proof
    fix r show "regs s5 r = ((regs s)(RSP := regs s5 RSP)) r"
      unfolding s5 using s4(1) [of r] by (cases r) (simp_all add: s1 callee_saved_def)
  qed
  have n5: "\<not> stopped s5" "kern s5 = kern s4" "x_cr2 s5 = x_cr2 s" using s4 by (simp_all add: s5)
  have stub: "sb_timer_irq_stub = map Pushq ?saved @ out_seq 0x3F8 0x45 @ [Call Fn_sb_timer_tick] @ out_seq 0x3F8 0x54 @
      out_seq 0x20 0x20 @ out_seq 0x3F8 0x4F @ map Popq (rev ?saved) @ out_seq 0x3F8 0x52 @ [Iretq]"
    by (simp add: sb_timer_irq_stub_def serial_mark_def out_seq_def)
  have "exec env (out_seq 0x3F8 0x45) s1 = ?s2" using ns by (simp add: exec_out s1)
  moreover have "exec env [Call Fn_sb_timer_tick] ?s2 = ?s3" using ns by (simp add: tick c_call_def s1)
  moreover have "exec env (out_seq 0x3F8 0x54 @ out_seq 0x20 0x20 @ out_seq 0x3F8 0x4F) ?s3 = s4"
    using ns by (simp add: exec_append exec_out s4_def s1 after_call_def)
  ultimately have "exec env sb_timer_irq_stub s = exec env [Iretq] (exec env (out_seq 0x3F8 0x52) s5)"
    unfolding stub by (simp only: exec_append s1_def [symmetric] s5_def [symmetric])
  then have "exec env sb_timer_irq_stub s = exec env [Iretq] (out_state env 0x3F8 0x52 s5)" by (simp only: exec_out [OF n5(1)])
  also have "\<dots> = (out_state env 0x3F8 0x52 s5)\<lparr>regs := (regs (out_state env 0x3F8 0x52 s5))(RSP := sp), x_rip := ip, x_cs := cs,
      x_rflags := fl, x_ss := ss\<rparr>"
    by (rule exec_iretq) (use w5 n5(1) in simp_all)
  finally have e: "exec env sb_timer_irq_stub s = \<dots>" .
  have "regs s5 r = regs s r" if "r \<noteq> RSP" for r using r5 that by (metis fun_upd_other)
  then show ?thesis
    unfolding e using n5 s4(4) ns
    by (intro exI [of _ "xmem s5"] x86.equality) (auto simp: timer_marks_def fun_eq_iff)
qed

lemma load_word: "stack_words s ws \<Longrightarrow> i < length ws \<Longrightarrow> load64 (xmem s) (regs s RSP + 8 * of_nat i) = ws ! i"
  by (simp add: stack_words_def top_word_def)

lemma drop_words:
  assumes "stack_words s (vs @ ws)" "regs t RSP = regs s RSP + 8 * of_nat (length vs)" "xmem t = xmem s"
  shows "stack_words t ws"
proof -
  have "top_word t i = top_word s (length vs + i)" for i by (simp add: top_word_def assms(2,3) algebra_simps)
  moreover have "8 dvd unat (regs s RSP + 8 * of_nat (length vs))" using assms(1) by (intro aligned_word) (simp add: stack_words_def)
  ultimately show ?thesis using assms(1,2) by (auto simp: stack_words_def nth_append)
qed

text \<open>The registers with which the system call stub calls the dispatcher.\<close>

definition syscall_args :: "(reg \<Rightarrow> u64) \<Rightarrow> reg \<Rightarrow> u64" where
  "syscall_args f = f(RDI := f R11, RSI := f R10, RDX := f R9, RCX := f R8, R8 := f RDI, R9 := f RDX)"

lemma syscall_stub_exec:
  assumes ns: "\<not> stopped s" and w: "stack_words s [ip, cs, fl, sp, ss]" and jd: "junk_depth env < 2 ^ 63"
    and dispatch: "\<And>f. callee env Fn_sb_syscall_dispatch_entry f (kern s) =
      Returns (res (f RDI) (f RSI) (f RDX) (f RCX) (f R8)) (kern s)"
  shows "\<exists>m f. exec env sb_syscall_int80_stub s =
      s\<lparr>regs := f, xmem := m, x_rip := ip, x_cs := cs, x_rflags := fl, x_ss := ss\<rparr> \<and>
    f RAX = res (regs s R11) (regs s R10) (regs s R9) (regs s R8) (regs s RDI) \<and> f RSP = sp \<and> (\<forall>r. callee_saved r \<longrightarrow> r \<noteq> RSP \<longrightarrow> f r = regs s r)"
proof -
  let ?saved = "[R11, R10, R9, R8, RCX, RDX, RSI, RDI, RAX]"
  let ?frame = "[ip, cs, fl, sp, ss]"
  let ?vs = "rev (map (regs s) ?saved)"
  define s1 where "s1 = exec env (map Pushq ?saved) s"
  obtain m where s1: "s1 = s\<lparr>regs := (regs s)(RSP := regs s RSP - 72), xmem := m\<rparr>" and w1: "stack_words s1 (?vs @ ?frame)"
    using exec_pushes [of ?saved s ?frame env] w ns by (auto simp: s1_def)
  let ?loads = "[Movq_load 64 RDI, Movq_load 56 RSI, Movq_load 48 RDX, Movq_load 40 RCX, Movq_load 8 R8, Movq_load 24 R9]"
  define s2 where "s2 = s1\<lparr>regs := (syscall_args (regs s))(RSP := regs s RSP - 72)\<rparr>"
  have ld: "load64 (xmem s1) (regs s1 RSP + 64) = regs s R11" "load64 (xmem s1) (regs s1 RSP + 56) = regs s R10"
    "load64 (xmem s1) (regs s1 RSP + 48) = regs s R9" "load64 (xmem s1) (regs s1 RSP + 40) = regs s R8"
    "load64 (xmem s1) (regs s1 RSP + 8) = regs s RDI" "load64 (xmem s1) (regs s1 RSP + 24) = regs s RDX"
    using load_word [OF w1, of 8] load_word [OF w1, of 7] load_word [OF w1, of 6] load_word [OF w1, of 5]
      load_word [OF w1, of 1] load_word [OF w1, of 3] by simp_all
  have ns1: "\<not> stopped s1" using ns by (simp add: s1)
  have e2: "exec env ?loads s1 = s2"
    using ns1 ld by (simp add: set_reg_def s2_def syscall_args_def) (simp add: s1 fun_eq_iff)
  have w2: "stack_words s2 (?vs @ ?frame)" using w1 by (simp add: s2_def s1 stack_words_def top_word_def)
  define s3 where "s3 = after_call env (Some (res (regs s R11) (regs s R10) (regs s R9) (regs s R8) (regs s RDI))) (kern s) s2"
  have e3: "exec env [Call Fn_sb_syscall_dispatch_entry] s2 = s3" using ns dispatch by (simp add: s3_def s2_def s1 c_call_def syscall_args_def)
  have w3: "stack_words s3 (?vs @ ?frame)" using c_call_words [OF w2 jd, of s3] by (simp add: s3_def after_call_def callee_saved_def)
  have r3: "regs s3 RAX = res (regs s R11) (regs s R10) (regs s R9) (regs s R8) (regs s RDI)" "callee_saved r \<Longrightarrow> regs s3 r = regs s2 r" "\<not> stopped s3" for r
    using ns by (simp_all add: s3_def after_call_def s2_def s1 callee_saved_def)
  define s4 where "s4 = exec env [Addq_imm 72 RSP] s3"
  have w4: "stack_words s4 ?frame" by (rule drop_words [OF w3]) (use r3(3) in \<open>simp_all add: s4_def\<close>)
  have stub: "sb_syscall_int80_stub = map Pushq ?saved @ ?loads @ [Call Fn_sb_syscall_dispatch_entry] @ [Addq_imm 72 RSP] @ [Iretq]"
    by (simp add: sb_syscall_int80_stub_def)
  have "exec env sb_syscall_int80_stub s = exec env [Iretq] s4"
    unfolding stub by (simp only: exec_append s1_def [symmetric] e2 e3 s4_def [symmetric])
  also have "\<dots> = s4\<lparr>regs := (regs s4)(RSP := sp), x_rip := ip, x_cs := cs, x_rflags := fl, x_ss := ss\<rparr>"
    by (rule exec_iretq [OF w4]) (use r3(3) in \<open>simp add: s4_def\<close>)
  finally have e: "exec env sb_syscall_int80_stub s = \<dots>" .
  have "regs s4 r = regs s r" if "callee_saved r" "r \<noteq> RSP" for r
    using r3(2) [OF that(1)] that r3(3) by (auto simp: s4_def s2_def syscall_args_def callee_saved_def)
  moreover have "s4 = s\<lparr>regs := regs s4, xmem := xmem s4, x_rflags := x_rflags s4\<rparr>"
    by (rule x86.equality) (use r3(3) in \<open>simp_all add: s4_def s3_def after_call_def s2_def s1\<close>)
  ultimately show ?thesis
    unfolding e using r3(1,3) by (intro exI [of _ "xmem s4"] exI [of _ "(regs s4)(RSP := sp)"] conjI x86.equality) (auto simp: s4_def)
qed

text \<open>The words an exception stub pushes: its number, and a zero where it expects no error code.\<close>

definition exc_words :: "nat \<Rightarrow> u64 list" where
  "exc_words n = (if n \<in> set exc_err then [of_nat n] else [of_nat n, 0])"

lemma exception_exec:
  assumes ns: "\<not> stopped s" and w: "stack_words s ws" and l: "5 \<le> length ws" "length ws < 1000"
    and panic: "\<And>f k. callee env Fn_sb_panic_from_exception f k = Stops (pan (f RDI) (f RSI) (f RDX) (f RCX) (f R8) (f R9) k)"
  shows "let t = exec env (sb_exception n) s; vs = exc_words n @ ws in
    stopped t \<and> kern t = pan (vs ! 0) (vs ! 1) (vs ! 2) (vs ! 3) (vs ! 4) (x_cr2 s) (port_out env 0x3F8 0x58 (kern s))"
proof -
  let ?vs = "exc_words n @ ws"
  define s1 where "s1 = (if n \<in> set exc_err then push (of_nat n) s else push (of_nat n) (push 0 s))"
  have w1: "stack_words s1 ?vs"
    using push_words [OF w, of "of_nat n"] push_words [OF push_words [OF w, of 0], of "of_nat n"] l by (simp add: s1_def exc_words_def)
  have k1: "\<not> stopped s1" "kern s1 = kern s" "x_cr2 s1 = x_cr2 s" using ns by (simp_all add: s1_def)
  have "exec env (sb_exception n) s = exec env sb_exception_common s1"
    using ns by (simp add: sb_exception_def s1_def)
  moreover have lv: "i < 5 \<Longrightarrow> i < length ?vs" for i using l by simp
  have ld: "load64 (xmem s1) (regs s1 RSP) = ?vs ! 0" "load64 (xmem s1) (regs s1 RSP + 8) = ?vs ! 1"
    "load64 (xmem s1) (regs s1 RSP + 16) = ?vs ! 2" "load64 (xmem s1) (regs s1 RSP + 24) = ?vs ! 3"
    "load64 (xmem s1) (regs s1 RSP + 32) = ?vs ! 4"
    using load_word [OF w1 lv, of 0] load_word [OF w1 lv, of 1] load_word [OF w1 lv, of 2] load_word [OF w1 lv, of 3]
      load_word [OF w1 lv, of 4] by simp_all
  have "exec env sb_exception_common s1 = exec env [Cli, Movq_load 0 RDI, Movq_load 8 RSI, Movq_load 16 RDX, Movq_load 24 RCX,
      Movq_load 32 R8, Movq_cr2 R9, Call Fn_sb_panic_from_exception, Hlt] (out_state env 0x3F8 0x58 s1)"
    unfolding sb_exception_common_def serial_mark_out exec_append exec_out [OF k1(1)] ..
  moreover have "\<not> stopped (out_state env 0x3F8 0x58 s1)" using k1 by simp
  ultimately show ?thesis using k1 ld panic by (simp add: c_call_def Let_def del: append_eq_append_conv)
qed

lemma replace_top:
  assumes "stack_words s (v # ws)" "regs t RSP = regs s RSP" "xmem t = store64 (xmem s) (regs s RSP) x"
  shows "stack_words t (x # ws)"
proof -
  let ?s = "set_reg RSP (regs s RSP + 8) s"
  have "stack_words ?s ws" by (rule pop_words(2) [OF assms(1)]) simp_all
  then have "stack_words (push x ?s) (x # ws)" by (rule push_words) (use assms(1) in \<open>simp add: stack_words_def\<close>)
  then show ?thesis by (simp add: stack_words_def top_word_def assms(2,3) push_def)
qed

lemma enter_user_exec:
  assumes ns: "\<not> stopped s"
  shows "let t = exec env arch_enter_user s in
    x_rip t = regs s RDI \<and> regs t RSP = regs s RSI \<and> x_cs t = 0x23 \<and> x_ss t = 0x2B \<and>
    x_rflags t AND IF_FLAG = IF_FLAG \<and> kern t = kern s \<and> \<not> stopped t \<and> (\<forall>r. r \<noteq> RSP \<longrightarrow> regs t r = regs s r)"
proof -
  define s1 where "s1 = exec env [Cli, Movq RSI RSP, Andq_imm (- 16) RSP] s"
  have s1: "regs s1 = (regs s)(RSP := regs s RSI AND - 16)" "kern s1 = kern s" "\<not> stopped s1"
    using ns by (simp_all add: s1_def)
  have "stack_words s1 []" using aligned16 [of "regs s RSI"] by (simp add: stack_words_def s1)
  then have w2: "stack_words (push (x_rflags s1) (push (regs s RSI) (push 0x2B s1))) [x_rflags s1, regs s RSI, 0x2B]" (is "stack_words ?s2 _")
    by (intro push_words) simp_all
  define s3 where "s3 = exec_instr env (Orq_top 0x200) ?s2"
  have w3: "stack_words s3 [x_rflags s1 OR 0x200, regs s RSI, 0x2B]"
    by (rule replace_top [OF w2]) (use w2 in \<open>simp_all add: s3_def stack_words_def\<close>)
  have s3: "regs s3 r = (if r = RSP then regs s1 RSP - 24 else regs s r)" "kern s3 = kern s" "\<not> stopped s3" for r
    using s1 by (simp_all add: s3_def)
  let ?s4 = "push (regs s RDI) (push 0x23 s3)"
  have w4: "stack_words ?s4 [regs s RDI, 0x23, x_rflags s1 OR 0x200, regs s RSI, 0x2B]" using w3 by (intro push_words) simp_all
  have "exec env arch_enter_user s = exec env [Iretq] ?s4"
    using s1 s3 ns unfolding arch_enter_user_def by (simp add: s3_def s1_def)
  also have "\<dots> = ?s4\<lparr>regs := (regs ?s4)(RSP := regs s RSI), x_rip := regs s RDI, x_cs := 0x23, x_rflags := x_rflags s1 OR 0x200, x_ss := 0x2B\<rparr>"
    by (rule exec_iretq [OF w4]) (use s3 in simp)
  finally have e: "exec env arch_enter_user s = \<dots>" .
  have "(x_rflags s1 OR 0x200) AND IF_FLAG = IF_FLAG"
    by (rule bit_word_eqI) (auto simp: bit_simps IF_FLAG_def)
  then show ?thesis unfolding e Let_def using s3 by simp
qed

end
