(* ===== verification/Timer.thy ===== *)
theory Timer
  imports Scheduler Port_Io
begin

text \<open>
  The timer, \<^verbatim>\<open>kernel/timer.c\<close>: the tick that the timer interrupt calls, the programming of the
  interrupt controllers and of the interval timer, and the debug printers. \<open>timer_init\<close>, which also
  raises an interrupt, follows once interrupts are available, in the theory \<open>Traps\<close>.
\<close>

section \<open>Ticks\<close>

definition PIT_COMMAND :: u16 where "PIT_COMMAND = 0x43"
definition PIT_CHANNEL0 :: u16 where "PIT_CHANNEL0 = 0x40"
definition PIT_BASE_HZ :: u32 where "PIT_BASE_HZ = 1193182"
definition SB_SCHED_QUANTUM_TICKS :: u64 where "SB_SCHED_QUANTUM_TICKS = 10"

record clock =
  ticks :: u64
  clock_sched :: sched

definition timer_ticks :: "clock \<Rightarrow> u64" where
  "timer_ticks c = ticks c"

definition sb_timer_tick :: "clock \<Rightarrow> clock" where
  "sb_timer_tick c =
     (let c = c\<lparr>ticks := ticks c + 1\<rparr>;
          c = c\<lparr>clock_sched := scheduler_tick (clock_sched c)\<rparr> in
      if ticks c mod SB_SCHED_QUANTUM_TICKS = 0 \<and> scheduler_task_count (clock_sched c) > 1
      then c\<lparr>clock_sched := snd (scheduler_pick_next (clock_sched c))\<rparr>
      else c)"

section \<open>Programming the devices\<close>

definition pic_remap :: "'h port_io \<Rightarrow> 'h \<Rightarrow> 'h" where
  "pic_remap io h =
     (let h = outb io 0x21 0xFF h; h = outb io 0xA1 0xFF h; h = outb io 0x20 0x11 h; h = outb io 0xA0 0x11 h;
          h = outb io 0x21 0x20 h; h = outb io 0xA1 0x28 h; h = outb io 0x21 0x04 h; h = outb io 0xA1 0x02 h;
          h = outb io 0x21 0x01 h; h = outb io 0xA0 0x01 h; h = outb io 0x21 0xFE h in
      outb io 0xA1 0xFF h)"

definition pit_divisor :: "u32 \<Rightarrow> u32" where
  "pit_divisor frequency_hz =
     (let frequency_hz = (if frequency_hz = 0 then 100 else frequency_hz);
          divisor = PIT_BASE_HZ div frequency_hz;
          divisor = (if divisor = 0 then 1 else divisor) in
      if divisor > 0xFFFF then 0xFFFF else divisor)"

definition pit_program :: "'h port_io \<Rightarrow> u32 \<Rightarrow> 'h \<Rightarrow> 'h" where
  "pit_program io divisor h =
     (let h = outb io PIT_COMMAND 0x36 h; h = outb io PIT_CHANNEL0 (ucast (divisor AND 0xFF)) h in
      outb io PIT_CHANNEL0 (ucast (drop_bit 8 divisor AND 0xFF)) h)"

definition timer_debug :: "'h port_io \<Rightarrow> string \<Rightarrow> 'h \<Rightarrow> 'h option" where
  "timer_debug = serial_write"

definition timer_debug_hex :: "'h port_io \<Rightarrow> u64 \<Rightarrow> 'h \<Rightarrow> 'h option" where
  "timer_debug_hex io v h =
     (if v = 0 then serial_write_char io (CHR ''0'') h
      else do { h \<leftarrow> timer_debug io ''0x'' h; serial_write io (debug_collect 16 v []) h })"

text \<open>The two bytes that the timer receives are the divisor, which is never zero.\<close>

lemma pit_divisor_bounds: "1 \<le> unat (pit_divisor f) \<and> unat (pit_divisor f) \<le> 65535"
proof -
  have "d = 0 \<or> 1 \<le> unat d" for d :: u32 using unat_eq_zero [of d] by (cases "unat d") auto
  then show ?thesis
    by (auto simp: pit_divisor_def Let_def word_less_nat_alt PIT_BASE_HZ_def not_less)
qed

section \<open>Sharing the processor\<close>

definition current_task :: "clock \<Rightarrow> nat" where
  "current_task c = unat (current_index (clock_sched c))"

definition live_tasks :: "clock \<Rightarrow> nat" where
  "live_tasks c = unat (task_count (clock_sched c))"

definition charged :: "clock \<Rightarrow> nat \<Rightarrow> u64" where
  "charged c i = runtime_ticks (tasks (clock_sched c) ! i)"

lemma tick_effect:
  assumes "sched_inv (clock_sched c)" "unat (ticks c) + 1 < 2 ^ 64"
  shows "sched_inv (clock_sched (sb_timer_tick c))" "unat (ticks (sb_timer_tick c)) = unat (ticks c) + 1"
    "live_tasks (sb_timer_tick c) = live_tasks c"
    "current_task (sb_timer_tick c) = (if (unat (ticks c) + 1) mod 10 = 0 then (current_task c + 1) mod live_tasks c else current_task c)"
    "i < live_tasks c \<Longrightarrow> charged (sb_timer_tick c) i = (if i = current_task c then charged c i + 1 else charged c i)"
proof -
  let ?s = "clock_sched c" and ?t = "scheduler_tick (clock_sched c)"
  note d = sched_invD [OF assms(1)] and t = tick_inv [OF assms(1)]
  have tk: "unat (ticks c + 1) = unat (ticks c) + 1" using assms(2) by (simp add: unat_add_small)
  then have q: "(ticks c + 1) mod 10 = 0 \<longleftrightarrow> (unat (ticks c) + 1) mod 10 = 0"
    by (simp add: word_unat_eq_iff unat_mod)
  define s' where "s' = (if (unat (ticks c) + 1) mod 10 = 0 \<and> task_count ?t > 1 then snd (scheduler_pick_next ?t) else ?t)"
  have eq: "sb_timer_tick c = c\<lparr>ticks := ticks c + 1, clock_sched := s'\<rparr>"
    by (simp add: sb_timer_tick_def Let_def s'_def SB_SCHED_QUANTUM_TICKS_def scheduler_task_count_def q)
  have tt: "task_count ?t = task_count ?s" "current_index ?t = current_index ?s" by (simp_all add: t(2))
  have s': "s' = (if (unat (ticks c) + 1) mod 10 = 0 \<and> task_count ?s > 1 then run_task (next_index ?s) ?t else ?t)"
    using pick_next_eq [OF t(1)] by (simp add: s'_def tt next_index_def)
  have n: "next_index ?s < unat (task_count ?s)" by (rule next_index_less [OF assms(1)])
  show "sched_inv (clock_sched (sb_timer_tick c))" using t(1) run_task_inv [OF t(1), of "next_index ?s"] n by (simp add: eq s' tt)
  show "unat (ticks (sb_timer_tick c)) = unat (ticks c) + 1" by (simp add: eq tk)
  show "live_tasks (sb_timer_tick c) = live_tasks c" by (simp add: eq live_tasks_def s' tt)
  have one: "next_index ?s = unat (current_index ?s)" if "\<not> task_count ?s > 1"
  proof -
    have "unat (task_count ?s) = 1" "unat (current_index ?s) = 0" using that d(2,4) by (simp_all add: word_less_nat_alt)
    then show ?thesis by (simp add: next_index_def)
  qed
  show "current_task (sb_timer_tick c) = (if (unat (ticks c) + 1) mod 10 = 0 then (current_task c + 1) mod live_tasks c else current_task c)"
    using one n d(3) by (auto simp: eq current_task_def live_tasks_def s' tt unat_index next_index_def)
  show "i < live_tasks c \<Longrightarrow> charged (sb_timer_tick c) i = (if i = current_task c then charged c i + 1 else charged c i)"
    using d(1,3) by (auto simp: eq charged_def current_task_def live_tasks_def s' run_task_nth t(2) set_task_nth)
qed

text \<open>A turn: ten ticks from a multiple of ten on are charged to the current task.\<close>

lemma turn_effect:
  assumes "sched_inv (clock_sched c)" "unat (ticks c) mod 10 = 0" "unat (ticks c) + 10 < 2 ^ 64"
  shows "j \<le> 10 \<Longrightarrow> let c' = (sb_timer_tick ^^ j) c in
    sched_inv (clock_sched c') \<and> unat (ticks c') = unat (ticks c) + j \<and> live_tasks c' = live_tasks c \<and>
    current_task c' = (if j = 10 then (current_task c + 1) mod live_tasks c else current_task c) \<and>
    (\<forall>i < live_tasks c. charged c' i = (if i = current_task c then charged c i + of_nat j else charged c i))"
proof (induction j)
  case 0
  then show ?case using assms by simp
next
  case (Suc j)
  define d where "d = (sb_timer_tick ^^ j) c"
  have ih: "sched_inv (clock_sched d)" "unat (ticks d) = unat (ticks c) + j" "live_tasks d = live_tasks c"
    "current_task d = current_task c"
    "\<And>i. i < live_tasks c \<Longrightarrow> charged d i = (if i = current_task c then charged c i + of_nat j else charged c i)"
    using Suc by (simp_all add: Let_def d_def)
  have "unat (ticks d) + 1 < 2 ^ 64" using ih(2) Suc.prems assms(3) by simp
  note e = tick_effect [OF ih(1) this]
  have "(unat (ticks c) + j + 1) mod 10 = (j + 1) mod 10"
    using assms(2) by (metis (no_types, lifting) add.assoc mod_add_left_eq add_0)
  moreover have "(j + 1) mod 10 = 0 \<longleftrightarrow> Suc j = 10"
    using Suc.prems mod_less [of "Suc j" 10] by (cases "Suc j = 10") simp_all
  moreover have "(sb_timer_tick ^^ Suc j) c = sb_timer_tick d" by (simp add: d_def)
  ultimately show ?case using e ih by (simp add: Let_def add.assoc)
qed

lemma turns_effect:
  assumes "sched_inv (clock_sched c)" "unat (ticks c) mod 10 = 0" "unat (ticks c) + 10 * live_tasks c < 2 ^ 64"
  shows "k \<le> live_tasks c \<Longrightarrow> let c' = (sb_timer_tick ^^ (10 * k)) c in
    sched_inv (clock_sched c') \<and> unat (ticks c') = unat (ticks c) + 10 * k \<and> live_tasks c' = live_tasks c \<and>
    current_task c' = (current_task c + k) mod live_tasks c \<and>
    (\<forall>i < live_tasks c. charged c' i = (if \<exists>j < k. i = (current_task c + j) mod live_tasks c then charged c i + 10 else charged c i))"
proof (induction k)
  case 0
  have "current_task c < live_tasks c" using sched_invD(4) [OF assms(1)] by (simp add: current_task_def live_tasks_def)
  then show ?case using assms by simp
next
  case (Suc k)
  let ?c = "(sb_timer_tick ^^ (10 * k)) c" and ?n = "live_tasks c"
  have ih: "sched_inv (clock_sched ?c)" "unat (ticks ?c) = unat (ticks c) + 10 * k" "live_tasks ?c = ?n"
    "current_task ?c = (current_task c + k) mod ?n"
    "\<And>i. i < ?n \<Longrightarrow> charged ?c i = (if \<exists>j < k. i = (current_task c + j) mod ?n then charged c i + 10 else charged c i)"
    using Suc by (simp_all add: Let_def)
  have "unat (ticks ?c) mod 10 = 0" "unat (ticks ?c) + 10 < 2 ^ 64" using ih(2) assms(2,3) Suc.prems by simp_all
  note e = turn_effect [OF ih(1) this, of 10, simplified Let_def, simplified]
  have split: "(sb_timer_tick ^^ (10 * Suc k)) c = (sb_timer_tick ^^ 10) ?c" by (simp flip: funpow_add [THEN fun_cong, unfolded o_apply])
  have fresh: "\<not> (\<exists>j < k. (current_task c + k) mod ?n = (current_task c + j) mod ?n)"
    using shift_mod_inj [of "current_task c" k ?n] Suc.prems by fastforce
  have "charged ((sb_timer_tick ^^ 10) ?c) i =
      (if \<exists>j < Suc k. i = (current_task c + j) mod ?n then charged c i + 10 else charged c i)" if "i < ?n" for i
    using e ih(3,4) ih(5) [OF that] that fresh by (auto simp: less_Suc_eq)
  then show ?case unfolding split using e ih by (simp add: Let_def mod_Suc_eq)
qed

text \<open>A round: each live task gets its ten ticks, and the current task is the same again.\<close>

lemma round_effect:
  assumes "sched_inv (clock_sched c)" "unat (ticks c) mod 10 = 0" "unat (ticks c) + 10 * live_tasks c < 2 ^ 64"
  shows "let c' = (sb_timer_tick ^^ (10 * live_tasks c)) c in
    sched_inv (clock_sched c') \<and> unat (ticks c') = unat (ticks c) + 10 * live_tasks c \<and> live_tasks c' = live_tasks c \<and>
    current_task c' = current_task c \<and> (\<forall>i < live_tasks c. charged c' i = charged c i + 10)"
proof -
  let ?n = "live_tasks c" and ?a = "current_task c"
  have cur: "?a < ?n" using sched_invD(4) [OF assms(1)] by (simp add: current_task_def live_tasks_def)
  have "\<exists>j < ?n. i = (?a + j) mod ?n" if "i < ?n" for i
  proof (cases "?a \<le> i")
    case True
    then show ?thesis using that by (intro exI [of _ "i - ?a"]) simp
  next
    case False
    then have "(?a + (?n - ?a + i)) mod ?n = i" using that cur by simp
    then show ?thesis using False that cur by (intro exI [of _ "?n - ?a + i"]) simp
  qed
  moreover have "(?a + ?n) mod ?n = ?a" using cur by simp
  ultimately show ?thesis using turns_effect [OF assms, of ?n] by (simp add: Let_def)
qed


definition clock_sample :: clock where
  "clock_sample = \<lparr>ticks = 0, clock_sched = snd (scheduler_add_kernel_task 7 1 (scheduler_init sched_static))\<rparr>"


end
