(* ===== verification/Syscall.thy ===== *)
theory Syscall
  imports Timer
begin

text \<open>
  The system call dispatcher, \<^verbatim>\<open>kernel/syscall.c\<close>. It reads the tick count and the current task and
  changes nothing.
\<close>

definition SB_SYS_GET_TICKS :: u64 where "SB_SYS_GET_TICKS = 0"
definition SB_SYS_PROCESS_ID :: u64 where "SB_SYS_PROCESS_ID = 1"
definition SB_SYS_EXIT :: u64 where "SB_SYS_EXIT = 2"

definition syscall_process_id :: "clock \<Rightarrow> u64" where
  "syscall_process_id c =
     (case scheduler_current (clock_sched c) of None \<Rightarrow> 0 | Some task \<Rightarrow> task_id (tasks (clock_sched c) ! task))"

definition syscall_dispatch :: "u64 \<Rightarrow> u64 \<Rightarrow> u64 \<Rightarrow> u64 \<Rightarrow> u64 \<Rightarrow> u64 \<Rightarrow> clock \<Rightarrow> u64" where
  "syscall_dispatch number arg0 arg1 arg2 arg3 arg4 c =
     (if number = SB_SYS_GET_TICKS then timer_ticks c
      else if number = SB_SYS_PROCESS_ID then syscall_process_id c
      else if number = SB_SYS_EXIT then 0
      else - 1)"

definition sb_syscall_dispatch_entry :: "u64 \<Rightarrow> u64 \<Rightarrow> u64 \<Rightarrow> u64 \<Rightarrow> u64 \<Rightarrow> clock \<Rightarrow> u64" where
  "sb_syscall_dispatch_entry number arg0 arg1 arg2 arg3 = syscall_dispatch number arg0 arg1 arg2 arg3 0"

definition syscall_init :: "clock \<Rightarrow> clock" where
  "syscall_init c = c"

lemma process_id_running:
  "sched_inv (clock_sched c) \<Longrightarrow> syscall_process_id c = task_id (tasks (clock_sched c) ! current_task c) \<and> syscall_process_id c \<noteq> 0"
  using sched_invD(2,4,6) [of "clock_sched c"]
  by (auto simp: syscall_process_id_def scheduler_current_def current_task_def)

end
