(* ===== verification/Panic.thy ===== *)
theory Panic
  imports Vga
begin

text \<open>
  The panic screen, \<^verbatim>\<open>kernel/panic.c\<close>. The file writes straight to the text screen and then halts;
  the endless halt loop at the end of \<open>render\<close> is not part of the value: a definition here gives the
  state in which the processor stays halted for good.
\<close>

record panic_screen =
  panic_ready :: bool
  screen :: vga

definition put_cell :: "u32 \<Rightarrow> u32 \<Rightarrow> char \<Rightarrow> u8 \<Rightarrow> vga \<Rightarrow> vga" where
  "put_cell x y c color v = v(y * 80 + x := vga_word color c)"

definition clear_screen :: "u8 \<Rightarrow> vga \<Rightarrow> vga" where
  "clear_screen = vga_clear put_cell"

definition panic_text :: "u32 \<Rightarrow> u32 \<Rightarrow> string \<Rightarrow> u8 \<Rightarrow> vga \<Rightarrow> vga" where
  "panic_text = vga_text put_cell"

definition hex64 :: "u32 \<Rightarrow> u32 \<Rightarrow> u64 \<Rightarrow> u8 \<Rightarrow> vga \<Rightarrow> vga" where
  "hex64 x y val color v =
     fold (\<lambda>i. put_cell (x + 2 + of_nat i) y (hex_digits ! unat (drop_bit ((15 - i) * 4) val AND 0xF)) color) [0..<16]
       (panic_text x y ''0x'' color v)"

definition reason :: "u8 \<Rightarrow> string" where
  "reason vector =
     (if vector = 0 then ''DIVIDE ERROR'' else if vector = 6 then ''INVALID OPCODE'' else if vector = 8 then ''DOUBLE FAULT''
      else if vector = 13 then ''GENERAL PROTECTION FAULT'' else if vector = 14 then ''PAGE FAULT''
      else if vector = 18 then ''MACHINE CHECK'' else if vector = 21 then ''CONTROL PROTECTION'' else ''KERNEL EXCEPTION'')"

definition sb_panic_init :: "panic_screen \<Rightarrow> panic_screen" where
  "sb_panic_init p = p\<lparr>panic_ready := True\<rparr>"

definition panic_render ::
    "u8 \<Rightarrow> u64 \<Rightarrow> u64 \<Rightarrow> u64 \<Rightarrow> u64 \<Rightarrow> u64 \<Rightarrow> u8 \<Rightarrow> bool \<Rightarrow> panic_screen \<Rightarrow> panic_screen" where
  "panic_render vector error_code rip cs rflags cr2 color red p =
     (let v = clear_screen color (screen p);
          v = panic_text 3 2 (if red then ''SUIRABOX RSOD - RECOVERY STOP'' else ''SUIRABOX BSOD - CRITICAL ERROR'') 0xFF v;
          v = panic_text 3 4 (reason vector) 0xFF v;
          v = panic_text 3 6 ''The kernel stopped to prevent further corruption.'' 0xFF v;
          v = hex64 11 8 (ucast vector) 0xFF (panic_text 3 8 ''Vector:'' 0xFF v);
          v = hex64 11 9 error_code 0xFF (panic_text 3 9 ''Error :'' 0xFF v);
          v = hex64 11 11 rip 0xFF (panic_text 3 11 ''RIP   :'' 0xFF v);
          v = hex64 11 12 cs 0xFF (panic_text 3 12 ''CS    :'' 0xFF v);
          v = hex64 11 13 rflags 0xFF (panic_text 3 13 ''RFLAGS:'' 0xFF v);
          v = hex64 11 14 cr2 0xFF (panic_text 3 14 ''CR2   :'' 0xFF v);
          v = panic_text 3 17 ''Status: KERNEL_HALTED'' 0xFF v;
          v = panic_text 3 19 ''Diagnostic data is available on the serial console.'' 0xFF v;
          v = panic_text 3 21 (if red then ''RSOD test mode'' else ''BSOD test mode / exception path'') 0xFF v in
      p\<lparr>panic_ready := False, screen := v\<rparr>)"

definition sb_panic_from_exception :: "u8 \<Rightarrow> u64 \<Rightarrow> u64 \<Rightarrow> u64 \<Rightarrow> u64 \<Rightarrow> u64 \<Rightarrow> panic_screen \<Rightarrow> panic_screen" where
  "sb_panic_from_exception vector error_code rip cs rflags cr2 p =
     (let p = (if \<not> panic_ready p
               then p\<lparr>screen := panic_text 3 2 ''SUIRABOX PANIC'' 0xFF (clear_screen 0x4F (screen p))\<rparr> else p) in
      panic_render vector error_code rip cs rflags cr2 0x17 False p)"

definition sb_panic_test_blue :: "panic_screen \<Rightarrow> panic_screen" where
  "sb_panic_test_blue = panic_render 0xE1 0x42534F44 0 0x18 0x202 0 0x17 False"

definition sb_panic_test_red :: "panic_screen \<Rightarrow> panic_screen" where
  "sb_panic_test_red = panic_render 0xE2 0x52534F44 0 0x18 0x202 0 0x4F True"

section \<open>What is on the screen\<close>

interpretation pc: cell_writer put_cell
proof
  fix x' y' :: u32 and x y :: nat and c color v
  assume b: "unat x' < 80" "unat y' < 25" "x < 80" "y < 25"
  have "y' * 80 + x' = of_nat (unat y' * 80 + unat x')" by (simp add: of_nat_unat)
  then show "cell_at (put_cell x' y' c color v) x y = (if x = unat x' \<and> y = unat y' then vga_word color c else cell_at v x y)"
    using cell_index [OF b(3,4,1,2)] by (simp only: put_cell_def cell_at_def fun_upd_apply)
qed

definition hex_string :: "u64 \<Rightarrow> string" where
  "hex_string val = map (\<lambda>i. hex_digits ! unat (drop_bit ((15 - i) * 4) val AND 0xF)) [0..<16]"

lemma unat_nibble: "unat (drop_bit k v AND 0xF) = unat v div 2 ^ k mod 16" for v :: u64
proof -
  have "unat (drop_bit k v) = unat v div 2 ^ k" by (subst unat_drop_bit_eq) (rule drop_bit_eq_div)
  then show ?thesis using unat_and_mask [of "drop_bit k v" 4] by (simp add: mask_eq_exp_minus_1)
qed

lemma hex_string_value: "of_hex (hex_string val) = unat val"
proof -
  have "of_hex (map (\<lambda>i. hex_digits ! unat (drop_bit ((15 - i) * 4) val AND 0xF)) [0..<n]) = unat val div 2 ^ ((16 - n) * 4)"
    if "n \<le> 16" for n
    using that
  proof (induction n)
    case 0
    then show ?case using unat_u64_less [of val] by (simp add: of_hex_def)
  next
    case (Suc n)
    define e where "e = (15 - n) * 4"
    have "(16 - n) * 4 = e + 4" "(16 - Suc n) * 4 = e" using Suc.prems by (simp_all add: e_def)
    moreover have "16 * (unat val div 2 ^ (e + 4)) + unat val div 2 ^ e mod 16 = unat val div 2 ^ e"
      by (simp add: power_add div_mult2_eq)
    ultimately show ?case
      using Suc hex_value_digit [of "unat val div 2 ^ e mod 16"] by (simp add: of_hex_def unat_nibble flip: e_def)
  qed
  from this [of 16] show ?thesis by (simp add: hex_string_def)
qed

lemma hex_string_length [simp]: "length (hex_string val) = 16"
  by (simp add: hex_string_def)

lemma hex64_at:
  assumes "unat x' + 18 \<le> 80" "unat y' < 25" "x < 80" "y < 25"
  shows "cell_at (hex64 x' y' val color v) x y =
    (if y = unat y' \<and> unat x' \<le> x \<and> x < unat x' + 18 then vga_word color ((''0x'' @ hex_string val) ! (x - unat x')) else cell_at v x y)"
proof -
  let ?d = "\<lambda>i. hex_digits ! unat (drop_bit ((15 - i) * 4) val AND 0xF)"
  have digits: "cell_at (fold (\<lambda>i. put_cell (x' + 2 + of_nat i) y' (?d i) color) [0..<n] w) x y =
      (if y = unat y' \<and> unat x' + 2 \<le> x \<and> x < unat x' + 2 + n then vga_word color (?d (x - (unat x' + 2))) else cell_at w x y)"
    if "n \<le> 16" for n w
    using that
  proof (induction n)
    case (Suc n)
    have "unat (x' + 2 + of_nat n) = unat x' + 2 + n"
      using Suc.prems assms(1) by (simp add: unat_add_small unat_of_nat_small)
    then show ?case using Suc assms pc.put_at [of "x' + 2 + of_nat n" y' x y] by (auto simp: less_Suc_eq)
  qed auto
  have prefix: "cell_at (panic_text x' y' ''0x'' color v) x y =
      (if y = unat y' \<and> unat x' \<le> x \<and> x < unat x' + 2 then vga_word color (''0x'' ! (x - unat x')) else cell_at v x y)"
    using pc.vga_text_at [of y' x y x' "''0x''"] assms by (simp add: panic_text_def del: vga_text.simps)
  have nth: "(''0x'' @ hex_string val) ! k = (if k < 2 then ''0x'' ! k else ?d (k - 2))" if "k < 18" for k
  proof (cases "k < 2")
    case False
    then obtain j where "k = j + 2" by (metis add.commute le_Suc_ex not_less)
    then show ?thesis using that by (simp add: hex_string_def)
  qed (simp add: nth_append del: append.simps)
  have "\<not> x < unat x' + 2 \<Longrightarrow> x - unat x' - 2 = x - (unat x' + 2)" by simp
  then show ?thesis unfolding hex64_def digits [OF order_refl] prefix by (auto simp: nth simp del: append.simps)
qed

lemmas panic_at = pc.vga_text_at [folded panic_text_def] hex64_at

text \<open>The rows of the panic screen that carry a number.\<close>

definition panic_number :: "vga \<Rightarrow> nat \<Rightarrow> nat" where
  "panic_number v y = of_hex (text_at v 13 y 16)"

lemma panic_render_numbers:
  "panic_number (screen (panic_render vector error_code rip cs rflags cr2 color red p)) 8 = unat vector"
  "panic_number (screen (panic_render vector error_code rip cs rflags cr2 color red p)) 9 = unat error_code"
  "panic_number (screen (panic_render vector error_code rip cs rflags cr2 color red p)) 11 = unat rip"
  "panic_number (screen (panic_render vector error_code rip cs rflags cr2 color red p)) 12 = unat cs"
  "panic_number (screen (panic_render vector error_code rip cs rflags cr2 color red p)) 13 = unat rflags"
  "panic_number (screen (panic_render vector error_code rip cs rflags cr2 color red p)) 14 = unat cr2"
proof -
  have row: "panic_number v y = unat val"
    if "\<And>i. i < 16 \<Longrightarrow> cell_at v (13 + i) y = vga_word 0xFF (hex_string val ! i)" for v y val
    using text_at_row [of "hex_string val" v 13 y "0xFF"] that hex_string_value by (simp add: panic_number_def)
  have v: "unat (ucast vector :: u64) = unat vector" by simp
  show "panic_number (screen (panic_render vector error_code rip cs rflags cr2 color red p)) 8 = unat vector"
    by (subst v [symmetric], rule row) (simp add: panic_render_def Let_def panic_at del: vga_text.simps)
  show "panic_number (screen (panic_render vector error_code rip cs rflags cr2 color red p)) 9 = unat error_code"
    by (rule row) (simp add: panic_render_def Let_def panic_at del: vga_text.simps)
  show "panic_number (screen (panic_render vector error_code rip cs rflags cr2 color red p)) 11 = unat rip"
    by (rule row) (simp add: panic_render_def Let_def panic_at del: vga_text.simps)
  show "panic_number (screen (panic_render vector error_code rip cs rflags cr2 color red p)) 12 = unat cs"
    by (rule row) (simp add: panic_render_def Let_def panic_at del: vga_text.simps)
  show "panic_number (screen (panic_render vector error_code rip cs rflags cr2 color red p)) 13 = unat rflags"
    by (rule row) (simp add: panic_render_def Let_def panic_at del: vga_text.simps)
  show "panic_number (screen (panic_render vector error_code rip cs rflags cr2 color red p)) 14 = unat cr2"
    by (rule row) (simp add: panic_render_def Let_def panic_at del: vga_text.simps)
qed

lemma reason_length: "length (reason vector) \<le> 24"
  by (simp add: reason_def)

lemma panic_render_reason:
  "text_at (screen (panic_render vector error_code rip cs rflags cr2 color red p)) 3 4 (length (reason vector)) = reason vector"
  by (rule text_at_row) (use reason_length [of vector] in \<open>simp add: panic_render_def Let_def panic_at del: vga_text.simps\<close>)

end
