(* ===== verification/Traps.thy ===== *)
theory Traps
  imports Entry_Stubs Syscall Panic
begin

text \<open>
  Traps: the entry stubs joined with the C functions they call, the interrupt table as
  \<^verbatim>\<open>kernel/kernel.c\<close> fills it, \<open>timer_init\<close> with its software interrupt, and the user side of a system
  call, \<^verbatim>\<open>userspace/syscall.h\<close> and \<^verbatim>\<open>userspace/shell.c\<close>. The linker decides where the
  stubs are: \<open>linked\<close> says that the program at the address of each symbol is the stub of that name.
\<close>

section \<open>The kernel behind the stubs\<close>

record 'h kernel =
  k_clock :: clock
  k_panic :: panic_screen
  k_io :: 'h

fun kernel_callee :: "c_function \<Rightarrow> (reg \<Rightarrow> u64) \<Rightarrow> 'h kernel \<Rightarrow> 'h kernel returned" where
  "kernel_callee Fn_sb_timer_tick f k = Returns_void (k\<lparr>k_clock := sb_timer_tick (k_clock k)\<rparr>)"
| "kernel_callee Fn_sb_syscall_dispatch_entry f k =
     Returns (sb_syscall_dispatch_entry (f RDI) (f RSI) (f RDX) (f RCX) (f R8) (k_clock k)) k"
| "kernel_callee Fn_sb_panic_from_exception f k =
     Stops (k\<lparr>k_panic := sb_panic_from_exception (ucast (f RDI)) (f RSI) (f RDX) (f RCX) (f R8) (f R9) (k_panic k)\<rparr>)"

text \<open>The environment of the stubs: \<open>base\<close> supplies what a C function may leave in scratch registers and below the stack.\<close>

definition kernel_env :: "'h port_io \<Rightarrow> 'h kernel env \<Rightarrow> 'h kernel env" where
  "kernel_env io base = base\<lparr>port_out := (\<lambda>p v k. k\<lparr>k_io := outb io p v (k_io k)\<rparr>), callee := kernel_callee\<rparr>"

definition linked :: "symbols \<Rightarrow> (u64 \<Rightarrow> instr list) \<Rightarrow> bool" where
  "linked sy code \<longleftrightarrow>
     (\<forall>n < 32. code (addr_sb_exception sy n) = sb_exception n) \<and>
     code (addr_timer_irq_stub sy) = sb_timer_irq_stub \<and> code (addr_syscall_int80_stub sy) = sb_syscall_int80_stub"

text \<open>The table after \<open>interrupts_init\<close>, the user gate that \<open>kmain\<close> installs, and the timer's gate.\<close>

definition kernel_idt :: "symbols \<Rightarrow> idt_state \<Rightarrow> idt_state" where
  "kernel_idt sy I =
     interrupts_set_handler 32 (addr_timer_irq_stub sy)
       (interrupts_set_user_handler 0x80 (addr_syscall_int80_stub sy) (interrupts_init sy I))"

text \<open>The \<^verbatim>\<open>int\<close> instruction: a gate whose privilege is too low raises a protection fault.\<close>

definition software_int ::
    "'s env \<Rightarrow> (u64 \<Rightarrow> instr list) \<Rightarrow> u64 \<Rightarrow> idt_state \<Rightarrow> nat \<Rightarrow> 's x86 \<Rightarrow> 's x86" where
  "software_int env code kstack I v s =
     (if gate_dpl (idt I ! v) < ucast (x_cs s AND 3) then interrupt env code kstack I 13 (Some (of_nat (v * 8 + 2))) s
      else interrupt env code kstack I v None s)"

section \<open>Starting the timer\<close>

definition with_io :: "('h \<Rightarrow> 'h option) \<Rightarrow> 'h kernel x86 \<Rightarrow> 'h kernel x86 option" where
  "with_io f s = map_option (\<lambda>h. s\<lparr>kern := (kern s)\<lparr>k_io := h\<rparr>\<rparr>) (f (k_io (kern s)))"

definition dump_interrupt_state :: "'h port_io \<Rightarrow> symbols \<Rightarrow> gdt_state \<Rightarrow> idt_state \<Rightarrow> u64 \<Rightarrow> 'h \<Rightarrow> 'h option" where
  "dump_interrupt_state io sy g I cs h =
     (let entry = idt I ! 32; handler = gate_handler entry in
      do {
        h \<leftarrow> timer_debug io ''[TIMER] CS='' h; h \<leftarrow> timer_debug_hex io cs h; h \<leftarrow> timer_debug io crlf h;
        h \<leftarrow> timer_debug io ''[TIMER] GDTR base='' h; h \<leftarrow> timer_debug_hex io (table_base (gdtr g)) h;
        h \<leftarrow> timer_debug io '' limit='' h; h \<leftarrow> timer_debug_hex io (ucast (table_limit (gdtr g))) h; h \<leftarrow> timer_debug io crlf h;
        h \<leftarrow> timer_debug io ''[TIMER] IDTR base='' h; h \<leftarrow> timer_debug_hex io (table_base (idtr I)) h;
        h \<leftarrow> timer_debug io '' limit='' h; h \<leftarrow> timer_debug_hex io (ucast (table_limit (idtr I))) h; h \<leftarrow> timer_debug io crlf h;
        h \<leftarrow> timer_debug io ''[TIMER] IDT32 selector='' h; h \<leftarrow> timer_debug_hex io (ucast (gate_selector entry)) h;
        h \<leftarrow> timer_debug io '' type='' h; h \<leftarrow> timer_debug_hex io (ucast (type_attr entry)) h;
        h \<leftarrow> timer_debug io '' handler='' h; h \<leftarrow> timer_debug_hex io handler h; h \<leftarrow> timer_debug io crlf h;
        h \<leftarrow> timer_debug io ''[TIMER] expected handler='' h; h \<leftarrow> timer_debug_hex io (addr_timer_irq_stub sy) h;
        timer_debug io crlf h
      })"

definition timer_init ::
    "'h port_io \<Rightarrow> 'h kernel env \<Rightarrow> (u64 \<Rightarrow> instr list) \<Rightarrow> symbols \<Rightarrow> gdt_state \<Rightarrow> u32 \<Rightarrow> idt_state \<Rightarrow> 'h kernel x86 \<Rightarrow>
     (idt_state \<times> 'h kernel x86) option" where
  "timer_init io base code sy g frequency_hz I s = do {
     s \<leftarrow> with_io (timer_debug io (''[TIMER] init begin'' @ crlf)) s;
     let s = interrupts_disable s;
     let divisor = pit_divisor frequency_hz;
     let s = s\<lparr>kern := (kern s)\<lparr>k_clock := (k_clock (kern s))\<lparr>ticks := 0\<rparr>\<rparr>\<rparr>;
     s \<leftarrow> with_io (timer_debug io (''[TIMER] PIC remap begin'' @ crlf)) s;
     s \<leftarrow> with_io (\<lambda>h. Some (pic_remap io h)) s;
     s \<leftarrow> with_io (timer_debug io (''[TIMER] PIC remap complete'' @ crlf)) s;
     s \<leftarrow> with_io (timer_debug io (''[TIMER] PIT program begin'' @ crlf)) s;
     s \<leftarrow> with_io (\<lambda>h. Some (pit_program io divisor h)) s;
     s \<leftarrow> with_io (timer_debug io (''[TIMER] PIT program complete'' @ crlf)) s;
     s \<leftarrow> with_io (timer_debug io (''[TIMER] IRQ0 handler install begin'' @ crlf)) s;
     let I = interrupts_set_handler 32 (addr_timer_irq_stub sy) I;
     s \<leftarrow> with_io (timer_debug io (''[TIMER] IRQ0 handler install complete'' @ crlf)) s;
     s \<leftarrow> with_io (dump_interrupt_state io sy g I (x_cs s)) s;
     s \<leftarrow> with_io (timer_debug io (''[TIMER] software int 0x20 begin'' @ crlf)) s;
     let s = software_int (kernel_env io base) code (rsp0 (tss g)) I 32 s;
     s \<leftarrow> with_io (timer_debug io (''[TIMER] software int 0x20 returned'' @ crlf)) s;
     s \<leftarrow> with_io (timer_debug io (''[TIMER] STI begin'' @ crlf)) s;
     let s = interrupts_enable s;
     s \<leftarrow> with_io (timer_debug io (''[TIMER] STI returned'' @ crlf)) s;
     Some (I, s)
   }"

section \<open>System calls from user space\<close>

definition sb_syscall0 ::
    "('h kernel x86 \<Rightarrow> 'h kernel x86) \<Rightarrow> u64 \<Rightarrow> 'h kernel x86 \<Rightarrow> u64 \<times> 'h kernel x86" where
  "sb_syscall0 int80 number s = (let t = int80 (set_reg RAX number s) in (regs t RAX, t))"

definition sb_get_ticks :: "('h kernel x86 \<Rightarrow> 'h kernel x86) \<Rightarrow> 'h kernel x86 \<Rightarrow> u64 \<times> 'h kernel x86" where
  "sb_get_ticks int80 = sb_syscall0 int80 SB_SYS_GET_TICKS"

definition sb_process_id :: "('h kernel x86 \<Rightarrow> 'h kernel x86) \<Rightarrow> 'h kernel x86 \<Rightarrow> u64 \<times> 'h kernel x86" where
  "sb_process_id int80 = sb_syscall0 int80 SB_SYS_PROCESS_ID"

definition cmd_ticks :: "('h kernel x86 \<Rightarrow> 'h kernel x86) \<Rightarrow> 'h kernel x86 \<Rightarrow> u64 \<times> 'h kernel x86" where
  "cmd_ticks = sb_get_ticks"

definition cmd_pid :: "('h kernel x86 \<Rightarrow> 'h kernel x86) \<Rightarrow> 'h kernel x86 \<Rightarrow> u64 \<times> 'h kernel x86" where
  "cmd_pid = sb_process_id"

definition commands :: "(string \<times> (('h kernel x86 \<Rightarrow> 'h kernel x86) \<Rightarrow> 'h kernel x86 \<Rightarrow> u64 \<times> 'h kernel x86)) list" where
  "commands = [(''ticks'', cmd_ticks), (''pid'', cmd_pid)]"

definition sb_shell_command_count :: u64 where
  "sb_shell_command_count = 2"

definition sb_shell_run_command ::
    "('h kernel x86 \<Rightarrow> 'h kernel x86) \<Rightarrow> u64 \<Rightarrow> 'h kernel x86 \<Rightarrow> u64 \<times> 'h kernel x86" where
  "sb_shell_run_command int80 index s =
     (if index \<ge> sb_shell_command_count then (- 1, s) else snd (commands ! unat index) int80 s)"

section \<open>The gates of the running kernel\<close>

lemma gate_dpl_for [simp]: "gate_dpl (gate_for handler dpl) = dpl AND 3"
proof -
  have m: "(3 :: u8) = mask 2" by (simp add: mask_eq_exp_minus_1)
  have "\<not> bit (4 :: u8) n" if "n < 2" for n using that by (auto simp: numeral_2_eq_2 less_Suc_eq)
  then show ?thesis
    unfolding gate_dpl_def gate_for_def m
    by (intro bit_word_eqI) (auto simp: bit_simps bit_mask_iff dest: bit_imp_le_length)
qed

lemma kernel_idt_gates:
  assumes "length (idt I) = 256"
  shows "idt (kernel_idt sy I) ! 32 = gate_for (addr_timer_irq_stub sy) 0"
    and "idt (kernel_idt sy I) ! 0x80 = gate_for (addr_syscall_int80_stub sy) 3"
    and "v < 32 \<Longrightarrow> idt (kernel_idt sy I) ! v = gate_for (addr_sb_exception sy v) 0"
  using interrupts_init_gates [OF assms, where sy = sy]
  by (simp_all add: kernel_idt_def interrupts_set_handler_def interrupts_set_user_handler_def set_gate_nth)

lemma kernel_env_simps [simp]:
  "callee (kernel_env io base) = kernel_callee" "junk_depth (kernel_env io base) = junk_depth base"
  "port_out (kernel_env io base) p v k = k\<lparr>k_io := outb io p v (k_io k)\<rparr>"
  by (simp_all add: kernel_env_def)

section \<open>The timer interrupt\<close>

definition timer_bytes :: "'h port_io \<Rightarrow> 'h kernel \<Rightarrow> 'h kernel" where
  "timer_bytes io k =
     k\<lparr>k_clock := sb_timer_tick (k_clock k),
       k_io := outb io 0x3F8 0x52 (outb io 0x3F8 0x4F (outb io 0x20 0x20 (outb io 0x3F8 0x54 (outb io 0x3F8 0x45 (k_io k)))))\<rparr>"

lemma timer_irq_effect:
  assumes "linked sy code" "gate_handler (idt I ! 32) = addr_timer_irq_stub sy" "\<not> stopped s" "junk_depth base < 2 ^ 63"
  shows "\<exists>m. interrupt (kernel_env io base) code kstack I 32 None s =
    s\<lparr>regs := (regs s)(RAX := (regs s RAX AND NOT 0xFF) OR 0x52, RDX := (regs s RDX AND NOT 0xFFFF) OR 0x3F8),
      xmem := m, kern := timer_bytes io (kern s)\<rparr>"
proof -
  let ?t = "deliver kstack (idt I ! 32) None s"
  have code: "code (x_rip ?t) = sb_timer_irq_stub" using assms(1,2) by (simp add: linked_def)
  have w: "stack_words ?t [x_rip s, x_cs s, x_rflags s, regs s RSP, x_ss s]" using deliver_words [of kstack "idt I ! 32" None s] by simp
  obtain m where m: "exec (kernel_env io base) sb_timer_irq_stub ?t =
    ?t\<lparr>regs := (regs ?t)(RAX := (regs ?t RAX AND NOT 0xFF) OR 0x52, RDX := (regs ?t RDX AND NOT 0xFFFF) OR 0x3F8, RSP := regs s RSP),
      xmem := m, x_rip := x_rip s, x_cs := x_cs s, x_rflags := x_rflags s, x_ss := x_ss s,
      kern := timer_marks (kernel_env io base) (\<lambda>k. k\<lparr>k_clock := sb_timer_tick (k_clock k)\<rparr>) (kern ?t)\<rparr>"
    using timer_stub_exec [OF _ w, of "kernel_env io base" "\<lambda>k. k\<lparr>k_clock := sb_timer_tick (k_clock k)\<rparr>"] assms(3,4) by auto
  show ?thesis
    unfolding interrupt_def Let_def code m
    by (intro exI [of _ m] x86.equality) (auto simp: timer_marks_def timer_bytes_def fun_eq_iff)
qed

text \<open>C10. A timer interrupt at any point of a running program, in the kernel or in user mode, runs exactly one
tick, acknowledges the interrupt at the controller, and resumes the program at the same instruction with the same flags,
segments and stack pointer. It does not resume it with the same registers: the trace byte that the stub sends after it
has restored them leaves \<open>0x52\<close> in \<open>al\<close> and \<open>0x3F8\<close> in \<open>dx\<close>. All other registers are preserved.\<close>

theorem timer_irq_outcome:
  assumes "linked sy code" "length (idt I) = 256" "\<not> stopped s" "junk_depth base < 2 ^ 63"
    and "t = interrupt (kernel_env io base) code kstack (kernel_idt sy I) 32 None s"
  shows "k_clock (kern t) = sb_timer_tick (k_clock (kern s)) \<and>
    k_io (kern t) = outb io 0x3F8 0x52 (outb io 0x3F8 0x4F (outb io 0x20 0x20 (outb io 0x3F8 0x54 (outb io 0x3F8 0x45 (k_io (kern s)))))) \<and>
    x_rip t = x_rip s \<and> x_cs t = x_cs s \<and> x_rflags t = x_rflags s \<and> x_ss t = x_ss s \<and> \<not> stopped t \<and>
    regs t = (regs s)(RAX := (regs s RAX AND NOT 0xFF) OR 0x52, RDX := (regs s RDX AND NOT 0xFFFF) OR 0x3F8)"
proof -
  have g: "gate_handler (idt (kernel_idt sy I) ! 32) = addr_timer_irq_stub sy" using kernel_idt_gates(1) [OF assms(2)] by simp
  obtain m where "t = s\<lparr>regs := (regs s)(RAX := (regs s RAX AND NOT 0xFF) OR 0x52, RDX := (regs s RDX AND NOT 0xFFFF) OR 0x3F8),
      xmem := m, kern := timer_bytes io (kern s)\<rparr>"
    using timer_irq_effect [OF assms(1) g assms(3,4), where io = io and kstack = kstack] assms(5) by blast
  then show ?thesis using assms(3) by (simp add: timer_bytes_def)
qed

text \<open>Starting the timer returns, with the gate installed, interrupts on, and one tick already counted by the trial interrupt.\<close>

lemma debug_returns:
  assumes "uart_ok io busy sent"
  shows "\<exists>h'. timer_debug io t h = Some h'" "\<exists>h'. timer_debug_hex io v h = Some h'"
  using serial_write_sent [OF assms] serial_u64_sent [OF assms, of v h]
  by (auto simp: timer_debug_def timer_debug_hex_def serial_write_u64_def)

lemma bind_returns: "\<exists>h'. x = Some h' \<Longrightarrow> (\<And>h. \<exists>h'. f h = Some h') \<Longrightarrow> \<exists>h'. Option.bind x f = Some h'"
  by auto

lemma dump_returns: "uart_ok io busy sent \<Longrightarrow> \<exists>h'. dump_interrupt_state io sy g I cs h = Some h'"
  unfolding dump_interrupt_state_def Let_def by (intro bind_returns debug_returns)

text \<open>The part of the state that console output does not touch.\<close>

definition cpu_view :: "'h kernel x86 \<Rightarrow> clock \<times> u64 \<times> u64 \<times> bool" where
  "cpu_view s = (k_clock (kern s), x_rflags s, x_cs s, stopped s)"

lemma with_io_bind:
  assumes "\<And>h. \<exists>h'. f h = Some h'" "\<And>t. cpu_view t = cpu_view s \<Longrightarrow> \<exists>r. F t = Some r \<and> P r"
  shows "\<exists>r. Option.bind (with_io f s) F = Some r \<and> P r"
  using assms(1) [of "k_io (kern s)"] assms(2) by (auto simp: with_io_def cpu_view_def)

lemma trial_interrupt:
  assumes "linked sy code" "gate_handler (idt I ! 32) = addr_timer_irq_stub sy" "junk_depth base < 2 ^ 63"
    and "\<not> stopped s" "x_cs s AND 3 = 0"
  shows "k_clock (kern (software_int (kernel_env io base) code kstack I 32 s)) = sb_timer_tick (k_clock (kern s))"
    "x_rflags (software_int (kernel_env io base) code kstack I 32 s) = x_rflags s"
    "\<not> stopped (software_int (kernel_env io base) code kstack I 32 s)"
  using timer_irq_effect [OF assms(1,2,4,3), where io = io and kstack = kstack] assms(4,5)
  by (auto simp: software_int_def timer_bytes_def)

lemma timer_init_returns:
  assumes "uart_ok io busy sent" "linked sy code" "length (idt I) = 256" "\<not> stopped s" "junk_depth base < 2 ^ 63" "x_cs s AND 3 = 0"
  shows "\<exists>r. timer_init io base code sy g frequency_hz I s = Some r \<and>
    (idt (fst r) ! 32 = gate_for (addr_timer_irq_stub sy) 0 \<and>
     k_clock (kern (snd r)) = sb_timer_tick ((k_clock (kern s))\<lparr>ticks := 0\<rparr>) \<and> bit (x_rflags (snd r)) 9 \<and> \<not> stopped (snd r))"
proof -
  let ?I = "interrupts_set_handler 32 (addr_timer_irq_stub sy) I"
  have g: "idt ?I ! 32 = gate_for (addr_timer_irq_stub sy) 0" using assms(3) by (simp add: interrupts_set_handler_def set_gate_nth)
  have gh: "gate_handler (idt ?I ! 32) = addr_timer_irq_stub sy" by (simp add: g)
  note t = trial_interrupt [OF assms(2) gh assms(5)]
  show ?thesis
    unfolding timer_init_def Let_def
    by ((rule with_io_bind, (rule debug_returns(1) [OF assms(1)] | rule dump_returns [OF assms(1)] | (rule exI, rule refl)))+)
      (use assms(4,6) in \<open>simp add: interrupts_enable_def interrupts_disable_def g t cpu_view_def IF_FLAG_def bit_simps\<close>)
qed

section \<open>System calls\<close>

lemma syscall_effect:
  assumes "linked sy code" "length (idt I) = 256" "\<not> stopped s" "junk_depth base < 2 ^ 63"
    and "t = software_int (kernel_env io base) code kstack (kernel_idt sy I) 0x80 s"
  shows "regs t RAX = syscall_dispatch (regs s R11) (regs s R10) (regs s R9) (regs s R8) (regs s RDI) 0 (k_clock (kern s)) \<and>
    kern t = kern s \<and> x_rip t = x_rip s \<and> x_cs t = x_cs s \<and> x_rflags t = x_rflags s \<and> x_ss t = x_ss s \<and> \<not> stopped t \<and>
    (\<forall>r. callee_saved r \<longrightarrow> regs t r = regs s r)"
proof -
  let ?e = "idt (kernel_idt sy I) ! 0x80"
  have e: "?e = gate_for (addr_syscall_int80_stub sy) 3" by (rule kernel_idt_gates(2) [OF assms(2)])
  let ?t = "deliver kstack ?e None s"
  have "unat (x_cs s AND 3) \<le> 3" using unat_and_mask [of "x_cs s" 2] by (simp add: mask_eq_exp_minus_1)
  then have "ucast (x_cs s AND 3) \<le> (3 :: u8)" by (simp add: word_le_nat_alt unat_ucast_small)
  then have t: "t = interrupt (kernel_env io base) code kstack (kernel_idt sy I) 0x80 None s"
    using assms(5) by (simp add: software_int_def e not_less)
  have code: "code (x_rip ?t) = sb_syscall_int80_stub" using assms(1) by (simp add: linked_def e)
  have w: "stack_words ?t [x_rip s, x_cs s, x_rflags s, regs s RSP, x_ss s]" using deliver_words [of kstack ?e None s] by simp
  obtain m f where m: "t = ?t\<lparr>regs := f, xmem := m, x_rip := x_rip s, x_cs := x_cs s, x_rflags := x_rflags s, x_ss := x_ss s\<rparr>"
    "f RAX = sb_syscall_dispatch_entry (regs s R11) (regs s R10) (regs s R9) (regs s R8) (regs s RDI) (k_clock (kern s))"
    "f RSP = regs s RSP" "\<forall>r. callee_saved r \<longrightarrow> r \<noteq> RSP \<longrightarrow> f r = regs s r"
    using syscall_stub_exec [OF _ w, of "kernel_env io base" "\<lambda>a b c d e. sb_syscall_dispatch_entry a b c d e (k_clock (kern s))"] assms(3,4)
    unfolding t interrupt_def Let_def code by auto
  then show ?thesis using assms(3) by (auto simp: sb_syscall_dispatch_entry_def)
qed

text \<open>C11. Each command of the shell returns from the kernel to the instruction after its call with
the callee-saved registers and the kernel state unchanged, and its result is what the dispatcher gives for the number in
\<open>r11\<close>: the stub loads the number from the slot of \<open>r11\<close>, not from that of \<open>rax\<close>, where the caller puts it. So
both commands give the same result in the same state, and \<open>UINT64_MAX\<close> whenever \<open>r11\<close> is above 2.\<close>

theorem shell_command_result:
  assumes "linked sy code" "length (idt I) = 256" "\<not> stopped s" "junk_depth base < 2 ^ 63"
    and "sb_shell_run_command (software_int (kernel_env io base) code kstack (kernel_idt sy I) 0x80) index s = (v, t)"
    and "index < sb_shell_command_count"
  shows "v = (if regs s R11 = SB_SYS_GET_TICKS then timer_ticks (k_clock (kern s))
              else if regs s R11 = SB_SYS_PROCESS_ID then syscall_process_id (k_clock (kern s))
              else if regs s R11 = SB_SYS_EXIT then 0 else - 1) \<and>
    kern t = kern s \<and> x_rip t = x_rip s \<and> x_cs t = x_cs s \<and> x_rflags t = x_rflags s \<and> x_ss t = x_ss s \<and>
    \<not> stopped t \<and> (\<forall>r. callee_saved r \<longrightarrow> regs t r = regs s r)"
proof -
  let ?int = "software_int (kernel_env io base) code kstack (kernel_idt sy I) 0x80"
  have "unat index < 2" using assms(6) by (simp add: sb_shell_command_count_def word_less_nat_alt)
  then have "unat index = 0 \<or> unat index = 1" by linarith
  moreover have "snd (commands ! unat index) ?int s = (v, t)" using assms(5,6) unfolding sb_shell_run_command_def by (simp split: if_splits)
  ultimately obtain number where "v = regs t RAX" "t = ?int (set_reg RAX number s)"
    by (auto simp: commands_def cmd_ticks_def cmd_pid_def sb_get_ticks_def
        sb_process_id_def sb_syscall0_def Let_def)
  moreover have "\<not> stopped (set_reg RAX number s)" using assms(3) by simp
  ultimately show ?thesis
    using syscall_effect [OF assms(1,2), of "set_reg RAX number s" base t io kstack] assms(4)
    by (simp add: syscall_dispatch_def callee_saved_def)
qed

section \<open>Exceptions\<close>

text \<open>The exceptions for which the processor pushes an error code.\<close>

definition pushes_error_code :: "nat \<Rightarrow> bool" where
  "pushes_error_code v \<longleftrightarrow> v \<in> {8, 10, 11, 12, 13, 14, 17, 21, 29, 30}"

lemma exception_effect:
  assumes "linked sy code" "length (idt I) = 256" "\<not> stopped s" "v < 32"
    and "t = interrupt (kernel_env io base) code kstack (kernel_idt sy I) v err s"
    and "ws = exc_words v @ (case err of None \<Rightarrow> [] | Some c \<Rightarrow> [c]) @ [x_rip s, x_cs s, x_rflags s, regs s RSP, x_ss s]"
  shows "stopped t \<and> k_clock (kern t) = k_clock (kern s) \<and> k_panic (kern t) =
    sb_panic_from_exception (ucast (ws ! 0)) (ws ! 1) (ws ! 2) (ws ! 3) (ws ! 4) (x_cr2 s) (k_panic (kern s))"
proof -
  have e: "idt (kernel_idt sy I) ! v = gate_for (addr_sb_exception sy v) 0" by (rule kernel_idt_gates(3) [OF assms(2,4)])
  let ?t = "deliver kstack (gate_for (addr_sb_exception sy v) 0) err s"
  have code: "code (x_rip ?t) = sb_exception v" using assms(1,4) by (simp add: linked_def)
  note w = deliver_words [of kstack "gate_for (addr_sb_exception sy v) 0" err s]
  show ?thesis
    using exception_exec [OF _ w, of "kernel_env io base" "\<lambda>a b c d e f k. k\<lparr>k_panic := sb_panic_from_exception (ucast a) b c d e f (k_panic k)\<rparr>" v]
      assms(3)
    unfolding assms(5) interrupt_def Let_def e code assms(6) by (simp split: option.split)
qed

text \<open>C12. An exception stops the machine, and the panic screen then shows the vector, the error code (0 where
the processor has none), the instruction pointer, the code segment, the flags of the interrupted program and \<open>cr2\<close>, each
in a row that reads back as the value, with the name of the exception. For vectors 17 and 29 the rows are shifted: the
processor pushes an error code that the stub does not expect, so the screen shows 0 as the error, the error code as the
instruction pointer, and the instruction pointer as the code segment.\<close>

theorem exception_screen:
  assumes "linked sy code" "length (idt I) = 256" "\<not> stopped s" "v < 32"
    and "t = interrupt (kernel_env io base) code kstack (kernel_idt sy I) v (if pushes_error_code v then Some e else None) s"
    and "scr = screen (k_panic (kern t))"
  shows "stopped t \<and> panic_number scr 8 = v \<and>
    text_at scr 3 4 (length (reason (of_nat v))) = reason (of_nat v) \<and> panic_number scr 14 = unat (x_cr2 s) \<and>
    (if v = 17 \<or> v = 29
     then panic_number scr 9 = 0 \<and> panic_number scr 11 = unat e \<and> panic_number scr 12 = unat (x_rip s) \<and>
       panic_number scr 13 = unat (x_cs s)
     else panic_number scr 9 = (if pushes_error_code v then unat e else 0) \<and> panic_number scr 11 = unat (x_rip s) \<and>
       panic_number scr 12 = unat (x_cs s) \<and> panic_number scr 13 = unat (x_rflags s))"
proof -
  let ?err = "if pushes_error_code v then Some e else None"
  define ws where "ws = exc_words v @ (case ?err of None \<Rightarrow> [] | Some c \<Rightarrow> [c]) @ [x_rip s, x_cs s, x_rflags s, regs s RSP, x_ss s]"
  note x = exception_effect [OF assms(1-5) ws_def]
  obtain p where p: "k_panic (kern t) = panic_render (ucast (ws ! 0)) (ws ! 1) (ws ! 2) (ws ! 3) (ws ! 4) (x_cr2 s) 0x17 False p"
    using x by (auto simp: sb_panic_from_exception_def Let_def)
  have u: "unat (of_nat v :: u64) = v" using assms(4) by (simp add: unat_of_nat_small)
  have u8: "unat (of_nat v :: u8) = v" using assms(4) by (simp add: unat_of_nat_small)
  have "unat (ucast (of_nat v :: u64) :: u8) = v" using assms(4) u by (simp add: unat_ucast_small)
  then have c: "ucast (of_nat v :: u64) = (of_nat v :: u8)" using u8 by (simp only: word_unat_eq_iff)
  have v: "ws ! 0 = of_nat v" by (simp add: ws_def exc_words_def)
  have w: "if v = 17 \<or> v = 29 then ws ! 1 = 0 \<and> ws ! 2 = e \<and> ws ! 3 = x_rip s \<and> ws ! 4 = x_cs s
      else ws ! 1 = (if pushes_error_code v then e else 0) \<and> ws ! 2 = x_rip s \<and> ws ! 3 = x_cs s \<and> ws ! 4 = x_rflags s"
    by (auto simp: ws_def exc_words_def exc_err_def pushes_error_code_def)
  have st: "stopped t" using x by blast
  show ?thesis
    unfolding assms(6) p panic_render_numbers v c u8 panic_render_reason using st w by (auto split: if_splits)
qed

section \<open>A machine\<close>

definition sample_code :: "u64 \<Rightarrow> instr list" where
  "sample_code a =
     (if a = 0x101400 then sb_timer_irq_stub else if a = 0x101500 then sb_syscall_int80_stub
      else sb_exception (unat ((a - 0x101000) div 16)))"

lemma sample_linked: "linked sample_symbols sample_code"
proof -
  have "sample_code (0x101000 + 16 * of_nat n) = sb_exception n" if "n < 32" for n
  proof -
    have l: "unat (of_nat (16 * n) :: u64) = 16 * n" using that by (intro unat_of_nat_small) simp
    have "16 * of_nat n \<noteq> (0x400 :: u64)" "16 * of_nat n \<noteq> (0x500 :: u64)"
      using l that by (auto simp: word_unat_eq_iff)
    moreover have "unat (16 * of_nat n div 16 :: u64) = n" using l by (simp add: unat_div)
    ultimately show ?thesis by (auto simp: sample_code_def)
  qed
  then show ?thesis by (simp add: linked_def sample_symbols_def) (simp add: sample_code_def)
qed

definition idt_static :: idt_state where
  "idt_static = \<lparr>idt = replicate 256 zero_entry, idt_descriptor = \<lparr>table_limit = 0, table_base = 0\<rparr>,
     idtr = \<lparr>table_limit = 0, table_base = 0\<rparr>\<rparr>"

definition sample_base :: "'h kernel env" where
  "sample_base = \<lparr>port_out = (\<lambda>p v k. k), callee = kernel_callee, junk_reg = (\<lambda>r. 0xDEAD), junk_mem = (\<lambda>a. 0xEE),
     junk_depth = 4096, alu_flags = (\<lambda>v. v)\<rparr>"

definition sample_user :: "(nat \<times> string) kernel x86" where
  "sample_user = \<lparr>regs = (\<lambda>r. 7), xmem = (\<lambda>a. 0), x_rflags = 0x202, x_rip = 0x8000000010, x_cs = 0x23, x_ss = 0x2B, x_cr2 = 0x1234,
     kern = \<lparr>k_clock = clock_sample, k_panic = \<lparr>panic_ready = False, screen = (\<lambda>i. 0)\<rparr>, k_io = (0, [])\<rparr>, stopped = False\<rparr>"

abbreviation sample_trap :: "nat \<Rightarrow> u64 option \<Rightarrow> (nat \<times> string) kernel x86" where
  "sample_trap v err \<equiv>
     interrupt (kernel_env sample_uart sample_base) sample_code 0x110000 (kernel_idt sample_symbols idt_static) v err sample_user"

lemma sample_facts: "length (idt idt_static) = 256" "\<not> stopped sample_user" "junk_depth sample_base < 2 ^ 63"
  by (simp_all add: idt_static_def sample_user_def sample_base_def)

theorem timer_irq_outcome_witness:
  "k_clock (kern (sample_trap 32 None)) = sb_timer_tick clock_sample \<and> x_rip (sample_trap 32 None) = 0x8000000010 \<and>
   regs (sample_trap 32 None) RAX = 0x52 \<and> regs (sample_trap 32 None) RBX = 7"
  using timer_irq_outcome [OF sample_linked sample_facts refl, of sample_uart "0x110000"] by (simp add: sample_user_def)

theorem shell_command_result_witness:
  "fst (sb_shell_run_command (software_int (kernel_env sample_uart sample_base) sample_code 0x110000
     (kernel_idt sample_symbols idt_static) 0x80) 0 sample_user) = - 1"
  using shell_command_result [OF sample_linked sample_facts prod.collapse [symmetric], of 0 sample_uart "0x110000"]
  by (simp add: sample_user_def sb_shell_command_count_def SB_SYS_GET_TICKS_def SB_SYS_PROCESS_ID_def SB_SYS_EXIT_def)

theorem exception_screen_witness:
  "panic_number (screen (k_panic (kern (sample_trap 14 (Some 6))))) 14 = 0x1234 \<and>
   panic_number (screen (k_panic (kern (sample_trap 14 (Some 6))))) 9 = 6"
proof -
  have e: "pushes_error_code 14" by (simp add: pushes_error_code_def)
  show ?thesis
    using exception_screen [OF sample_linked sample_facts(1,2) _ refl refl, of 14 sample_uart sample_base "0x110000" 6] e
    by (simp add: sample_user_def)
qed

end
