(* ===== verification/Boot.thy ===== *)
theory Boot
  imports Vmm
begin

text \<open>
  The page tables that \<^verbatim>\<open>boot/boot.S\<close> builds before it enters long mode: three zeroed tables, one
  entry in each of the upper two, and 512 entries of two megabytes each, all written with 32-bit stores.
\<close>

section \<open>Building the tables\<close>

definition store32 :: "memory \<Rightarrow> u64 \<Rightarrow> u32 \<Rightarrow> memory" where
  "store32 m a v = store_le m a v 4"

text \<open>\<^verbatim>\<open>rep stosl\<close> over the three tables, which follow each other.\<close>

definition boot_clear :: "u64 \<Rightarrow> memory \<Rightarrow> memory" where
  "boot_clear pml4 m = fold (\<lambda>i m. store32 m (pml4 + 4 * of_nat i) 0) [0..<1024 * 3] m"

definition boot_tables :: "u64 \<Rightarrow> u64 \<Rightarrow> u64 \<Rightarrow> memory \<Rightarrow> memory" where
  "boot_tables pml4 pdpt pd m =
     (let m = boot_clear pml4 m;
          m = store32 m pml4 (ucast pdpt OR 0x3);
          m = store32 m pdpt (ucast pd OR 0x3) in
      fold (\<lambda>i m. store32 m (pd + 8 * of_nat i) (0x83 + of_nat i * 0x200000)) [0..<512] m)"

section \<open>32-bit stores\<close>

lemma store32_at: "store32 m a v b = (if unat (b - a) < 4 then ucast (drop_bit (8 * unat (b - a)) v) else m b)"
  by (simp add: store32_def store_le_apply)

lemma load64_store32_same:
  assumes "\<And>i. i < 8 \<Longrightarrow> m (a + of_nat i) = 0"
  shows "load64 (store32 m a v) a = ucast v"
proof (rule bit_word_eqI)
  fix n assume "n < LENGTH(64)"
  then have n: "n < 64" "n div 8 < 8" by simp_all
  have u: "unat (of_nat (n div 8) :: u64) = n div 8" using n by (simp add: unat_of_nat_small)
  have "bit (store32 m a v (a + of_nat (n div 8))) (n mod 8) \<longleftrightarrow> n div 8 < 4 \<and> bit v n"
    using assms [OF n(2)] u by (auto simp: store32_at bit_simps)
  moreover have "bit v n \<Longrightarrow> n div 8 < 4" using bit_imp_le_length [of v n] by simp
  ultimately show "bit (load64 (store32 m a v) a) n = bit (ucast v :: u64) n"
    using n by (auto simp: load64_def bit_load_le bit_simps)
qed

lemma load64_store32_other:
  assumes "8 dvd unat a" "8 dvd unat b" "a \<noteq> b"
  shows "load64 (store32 m a v) b = load64 m b"
proof -
  have "store32 m a v (b + of_nat i) = m (b + of_nat i)" if "i < 8" for i
  proof -
    have "\<not> unat (b + of_nat i - a) < 4"
    proof
      assume l: "unat (b + of_nat i - a) < 4"
      define k where "k = unat (b + of_nat i - a)"
      have e: "b + of_nat i = a + of_nat k" by (simp add: k_def)
      have k: "k < 8" using l by (simp add: k_def)
      have d: "2 ^ 3 dvd unat b" "2 ^ 3 dvd unat a" "i < 2 ^ 3" "k < 2 ^ 3" "3 \<le> (64 :: nat)" using assms(1,2) that k by simp_all
      from aligned_add_inj [OF d] e assms(3) show False by blast
    qed
    then show ?thesis by (simp add: store32_at)
  qed
  then show ?thesis unfolding load64_def by (intro load_le_cong) simp
qed

lemma boot_clear_zero:
  assumes "page_aligned pml4" "k < 12288"
  shows "boot_clear pml4 m (pml4 + of_nat k) = 0"
proof -
  have "fold (\<lambda>i m. store32 m (pml4 + 4 * of_nat i) 0) [0..<n] m (pml4 + of_nat k) = 0" if "k < 4 * n" "n \<le> 3072" for n
    using that
  proof (induction n)
    case (Suc n)
    show ?case
    proof (cases "k < 4 * n")
      case True
      then show ?thesis using Suc by (simp add: store32_at)
    next
      case False
      then obtain j where j: "k = 4 * n + j" "j < 4" using Suc.prems by (metis add_less_cancel_left le_Suc_ex mult_Suc_right add.commute not_less)
      have "pml4 + of_nat k - (pml4 + 4 * of_nat n) = of_nat j" by (simp add: j(1))
      then show ?thesis using j(2) by (simp add: store32_at unat_of_nat_small)
    qed
  qed simp
  from this [of 3072] assms(2) show ?thesis by (simp add: boot_clear_def)
qed

section \<open>The identity map\<close>

text \<open>The tables follow each other and lie below 4 GiB, as the linker places them.\<close>

definition boot_layout :: "u64 \<Rightarrow> u64 \<Rightarrow> u64 \<Rightarrow> bool" where
  "boot_layout pml4 pdpt pd \<longleftrightarrow> page_aligned pml4 \<and> pml4 \<noteq> 0 \<and> pdpt = pml4 + 0x1000 \<and> pd = pml4 + 0x2000 \<and> unat pml4 + 0x3000 < 2 ^ 32"

lemma load64_zero: "load64 m a = 0 \<longleftrightarrow> (\<forall>i < 8. m (a + of_nat i) = 0)"
proof
  assume z: "load64 m a = 0"
  show "\<forall>i < 8. m (a + of_nat i) = 0"
  proof (intro allI impI bit_word_eqI)
    fix i n :: nat assume i: "i < 8" and "n < LENGTH(8)"
    then have "(8 * i + n) div 8 = i" "(8 * i + n) mod 8 = n" "8 * i + n < 64" by simp_all
    moreover have "\<not> bit (load64 m a) (8 * i + n)" by (simp add: z)
    ultimately show "bit (m (a + of_nat i)) n = bit (0 :: u8) n" by (simp add: load64_def bit_load_le)
  qed
next
  assume "\<forall>i < 8. m (a + of_nat i) = 0"
  then show "load64 m a = 0" by (intro bit_word_eqI) (simp add: load64_def bit_load_le)
qed

lemma table_get_store32:
  assumes "page_aligned p" "page_aligned q" "i < 512" "j < 512" "table_get m p i = 0"
  shows "table_get (store32 m (p + 8 * of_nat i) v) q j = (if q = p \<and> j = i then ucast v else table_get m q j)"
proof (cases "q = p \<and> j = i")
  case True
  then show ?thesis using assms(5) load64_store32_same [of m "p + 8 * of_nat i"] by (simp add: table_get_def load64_zero)
next
  case False
  then have "p + 8 * of_nat i \<noteq> q + 8 * of_nat j" using entry_inj [OF assms(1-4)] by blast
  then show ?thesis
    using False load64_store32_other [OF aligned8_entry [OF assms(1,3)] aligned8_entry [OF assms(2,4)]] by (auto simp: table_get_def)
qed

definition big_entry :: "nat \<Rightarrow> u64" where
  "big_entry i = 0x83 + of_nat i * 0x200000"

lemma big_entry_word: "i < 512 \<Longrightarrow> ucast (0x83 + of_nat i * 0x200000 :: u32) = big_entry i"
proof -
  assume i: "i < 512"
  then have l: "0x83 + i * 0x200000 < 2 ^ 32" by simp
  have "unat (of_nat (0x83 + i * 0x200000) :: u32) = 0x83 + i * 0x200000" "unat (of_nat (0x83 + i * 0x200000) :: u64) = 0x83 + i * 0x200000"
    using l by (intro unat_of_nat_small, simp)+
  then have "unat (ucast (of_nat (0x83 + i * 0x200000) :: u32) :: u64) = unat (of_nat (0x83 + i * 0x200000) :: u64)"
    by (simp only: unat_widen_simps)
  then have "ucast (of_nat (0x83 + i * 0x200000) :: u32) = (of_nat (0x83 + i * 0x200000) :: u64)" by (simp only: word_unat_eq_iff)
  then show ?thesis by (simp add: big_entry_def)
qed

lemma boot_clear_table:
  assumes "boot_layout pml4 pdpt pd" "q = pml4 \<or> q = pdpt \<or> q = pd" "j < 512"
  shows "table_get (boot_clear pml4 m) q j = 0"
proof -
  have l: "page_aligned pml4" "pdpt = pml4 + of_nat 0x1000" "pd = pml4 + of_nat 0x2000"
    using assms(1) by (simp_all add: boot_layout_def)
  have "q = pml4 + of_nat 0 \<or> q = pml4 + of_nat 0x1000 \<or> q = pml4 + of_nat 0x2000" using assms(2) unfolding l(2,3) by simp
  then obtain c :: nat where c: "q = pml4 + of_nat c" "c \<le> 0x2000" by (elim disjE) (erule that; simp)+
  have "boot_clear pml4 m (q + 8 * of_nat j + of_nat k) = 0" if "k < 8" for k
    using boot_clear_zero [OF l(1), of "c + 8 * j + k" m] c that assms(3) by (simp add: add.assoc)
  then show ?thesis by (simp add: table_get_def load64_zero)
qed

lemma ucast_or3:
  assumes "unat x < 2 ^ 32"
  shows "ucast (ucast (x :: u64) OR 3 :: u32) = x OR 3"
proof (rule bit_word_eqI)
  fix n assume "n < LENGTH(64)"
  moreover have "bit x n \<Longrightarrow> n < 32" using small_high_bits [OF assms, of n] by (meson not_le)
  moreover have "(3 :: u64) = mask 2" "(3 :: u32) = mask 2" by (simp_all add: mask_eq_exp_minus_1)
  then have "bit (3 :: u64) n \<longleftrightarrow> n < 2" "bit (3 :: u32) n \<longleftrightarrow> n < 2" by (auto simp only: bit_mask_iff) simp_all
  ultimately show "bit (ucast (ucast x OR 3 :: u32) :: u64) n = bit (x OR 3) n" by (auto simp: bit_simps)
qed

lemma boot_tables_get:
  assumes "boot_layout pml4 pdpt pd" "i < 512"
  shows "table_get (boot_tables pml4 pdpt pd m) pml4 i = (if i = 0 then pdpt OR 3 else 0)"
    "table_get (boot_tables pml4 pdpt pd m) pdpt i = (if i = 0 then pd OR 3 else 0)"
    "table_get (boot_tables pml4 pdpt pd m) pd i = big_entry i"
proof -
  have l: "page_aligned pml4" "pdpt = pml4 + of_nat 0x1000" "pd = pml4 + of_nat 0x2000" "unat pml4 + 0x3000 < 2 ^ 32"
    using assms(1) by (simp_all add: boot_layout_def)
  have u: "unat pdpt = unat pml4 + 0x1000" "unat pd = unat pml4 + 0x2000"
    using l by (simp_all add: unat_add_small)
  have al: "page_aligned pdpt" "page_aligned pd" using l(1) u by (simp_all add: page_aligned_dvd)
  have ne: "pml4 \<noteq> pdpt" "pml4 \<noteq> pd" "pdpt \<noteq> pd" using u by (auto simp: word_unat_eq_iff)
  note z = boot_clear_table [OF assms(1), where m = m]
  define m1 where "m1 = store32 (boot_clear pml4 m) (pml4 + 8 * of_nat 0) (ucast pdpt OR 3)"
  define m2 where "m2 = store32 m1 (pdpt + 8 * of_nat 0) (ucast pd OR 3)"
  have aq: "page_aligned q" if "q = pml4 \<or> q = pdpt \<or> q = pd" for q using that l(1) al by blast
  have w: "ucast (ucast pdpt OR 3 :: u32) = pdpt OR 3" "ucast (ucast pd OR 3 :: u32) = pd OR 3" using ucast_or3 u l(4) by simp_all
  have m1: "table_get m1 q j = (if q = pml4 \<and> j = 0 then pdpt OR 3 else 0)" if "q = pml4 \<or> q = pdpt \<or> q = pd" "j < 512" for q j
    using table_get_store32 [OF l(1) aq [OF that(1)] _ that(2), of 0 "boot_clear pml4 m" "ucast pdpt OR 3"] z [of pml4 0] z [OF that] w
    by (simp add: m1_def)
  have m2: "table_get m2 q j = (if q = pml4 \<and> j = 0 then pdpt OR 3 else if q = pdpt \<and> j = 0 then pd OR 3 else 0)"
    if "q = pml4 \<or> q = pdpt \<or> q = pd" "j < 512" for q j
    using table_get_store32 [OF al(1) aq [OF that(1)] _ that(2), of 0 m1 "ucast pd OR 3"] m1 [of pdpt 0] m1 [OF that] w ne
    by (auto simp: m2_def)
  let ?loop = "\<lambda>n. fold (\<lambda>i m. store32 m (pd + 8 * of_nat i) (0x83 + of_nat i * 0x200000)) [0..<n] m2"
  have f: "n \<le> 512 \<Longrightarrow> table_get (?loop n) q j = (if q = pd \<and> j < n then big_entry j else table_get m2 q j)"
    if "q = pml4 \<or> q = pdpt \<or> q = pd" "j < 512" for n q j
    using that
  proof (induction n arbitrary: q j)
    case (Suc n)
    have "table_get (?loop n) pd n = 0" using Suc.IH [of pd n] Suc.prems m2 [of pd n] ne by simp
    with table_get_store32 [OF al(2) aq [OF Suc.prems(2)] _ Suc.prems(3), of n "?loop n"] Suc big_entry_word [of n] show ?case
      by (auto simp: less_Suc_eq)
  qed simp
  have t: "boot_tables pml4 pdpt pd m = fold (\<lambda>i m. store32 m (pd + 8 * of_nat i) (0x83 + of_nat i * 0x200000)) [0..<512] m2"
    by (simp add: boot_tables_def m2_def m1_def)
  show "table_get (boot_tables pml4 pdpt pd m) pml4 i = (if i = 0 then pdpt OR 3 else 0)"
    "table_get (boot_tables pml4 pdpt pd m) pdpt i = (if i = 0 then pd OR 3 else 0)"
    "table_get (boot_tables pml4 pdpt pd m) pd i = big_entry i"
    unfolding t using f [OF _ assms(2) order_refl] m2 [OF _ assms(2)] ne assms(2) by auto
qed

lemma big_entry_bits:
  assumes "i < 512"
  shows "big_entry i = push_bit 21 (of_nat i) OR 0x83" "bit (big_entry i) 0" "bit (big_entry i) 7"
proof -
  have "push_bit 21 (of_nat i :: u64) + 0x83 = push_bit 21 (of_nat i) OR 0x83"
  proof (rule disjunctive_add)
    fix n
    have "(0x83 :: u64) AND mask 8 = 0x83" by (simp add: mask_eq_exp_minus_1)
    then have "bit (0x83 :: u64) n \<Longrightarrow> n < 8" by (metis bit_and_iff bit_mask_iff)
    then show "\<not> bit (push_bit 21 (of_nat i :: u64)) n \<or> \<not> bit (0x83 :: u64) n" by (auto simp: bit_simps)
  qed
  then show "big_entry i = push_bit 21 (of_nat i) OR 0x83" by (simp add: big_entry_def push_bit_eq_mult add.commute)
  then show "bit (big_entry i) 0" "bit (big_entry i) 7" by (simp_all add: bit_simps)
qed

lemma big_page_address:
  assumes "unat a < 2 ^ 30"
  shows "(big_entry (unat (pd_index a)) AND 0x000FFFFFFFE00000) OR (a AND 0x1FFFFF) = a"
proof (rule bit_word_eqI)
  fix n assume "n < LENGTH(64)"
  have m: "(0x000FFFFFFFE00000 :: u64) = push_bit 21 (mask 31)" "(0x1FFFFF :: u64) = mask 21" by (simp_all add: mask_eq_exp_minus_1)
  have e: "big_entry (unat (pd_index a)) = push_bit 21 (ucast (pd_index a)) OR 0x83"
    using big_entry_bits(1) [OF index_less(3)] by (simp add: of_nat_unat)
  have "(0x83 :: u64) AND mask 8 = 0x83" by (simp add: mask_eq_exp_minus_1)
  then have low: "bit (0x83 :: u64) n \<Longrightarrow> n < 8" by (metis bit_and_iff bit_mask_iff)
  have high: "bit a n \<Longrightarrow> n < 30" using small_high_bits [OF assms, of n] by (meson not_le)
  show "bit ((big_entry (unat (pd_index a)) AND 0x000FFFFFFFE00000) OR (a AND 0x1FFFFF)) n = bit a n"
    unfolding e m using low high \<open>n < LENGTH(64)\<close> by (auto simp: bit_simps bit_mask_iff bit_index)
qed

text \<open>An entry that names a table, present and writable.\<close>

lemma table_entry_or3:
  assumes "page_aligned x" "unat x < 2 ^ 32"
  shows "table_from_entry (x OR 3) = x" "bit (x OR 3) 0" "\<not> bit (x OR 3) 7"
proof -
  have "(x AND ENTRY_ADDR_MASK) OR SB_VMM_PRESENT OR (3 AND (SB_VMM_WRITABLE OR SB_VMM_USER)) = x OR 3"
    using mask_table_page [OF assms(1)] assms(2) by (simp add: SB_VMM_PRESENT_def SB_VMM_WRITABLE_def SB_VMM_USER_def)
  then show "table_from_entry (x OR 3) = x"
    using table_from_new_entry [of x 3] mask_table_page [OF assms(1)] assms(2) by simp
  show "bit (x OR 3) 0" "\<not> bit (x OR 3) 7" using aligned_low_bits [OF assms(1), of 7] by (simp_all add: bit_simps)
qed

lemma unat_upper_index: "unat (pml4_index a) = unat a div 2 ^ 39 mod 512" "unat (pdpt_index a) = unat a div 2 ^ 30 mod 512"
proof -
  have m: "(0x1FF :: u64) = mask 9" by (simp add: mask_eq_exp_minus_1)
  have i: "unat (ucast (x AND 0x1FF :: u64) :: u16) = unat x mod 512" for x :: u64
    using unat_and_mask [of x 9] by (subst unat_ucast_small) (simp_all add: m)
  show "unat (pml4_index a) = unat a div 2 ^ 39 mod 512" "unat (pdpt_index a) = unat a div 2 ^ 30 mod 512"
    by (simp_all add: pml4_index_def pdpt_index_def i drop_bit_eq_div unat_div)
qed

lemma upper_index_zero:
  assumes "unat a < 2 ^ 48"
  shows "unat a < 2 ^ 30 \<longleftrightarrow> unat (pml4_index a) = 0 \<and> unat (pdpt_index a) = 0"
proof
  assume "unat (pml4_index a) = 0 \<and> unat (pdpt_index a) = 0"
  then have z: "unat a div 2 ^ 39 mod 512 = 0" "unat a div 2 ^ 30 mod 512 = 0" by (simp_all add: unat_upper_index)
  have "unat a div 2 ^ 39 = 0" using z(1) assms by simp
  then show "unat a < 2 ^ 30" using z(2) by simp
qed (simp add: unat_upper_index)

text \<open>C15. With the tables that the boot code builds, every address below 1 GiB translates to itself and no other
address below the canonical boundary is mapped, whatever was in memory before.\<close>

theorem boot_identity:
  assumes "boot_layout (l_pml4 L) pdpt pd" "mem M = boot_tables (l_pml4 L) pdpt pd m" "unat a < 2 ^ 48"
  shows "vmm_translate L a M = (if unat a < 2 ^ 30 then a else 0)"
proof -
  note g = boot_tables_get [OF assms(1), of _ m, folded assms(2)]
  have l: "page_aligned (l_pml4 L)" "unat pdpt = unat (l_pml4 L) + 0x1000" "unat pd = unat (l_pml4 L) + 0x2000" "unat (l_pml4 L) + 0x3000 < 2 ^ 32"
    using assms(1) by (simp_all add: boot_layout_def unat_add_small)
  have x: "page_aligned pdpt" "unat pdpt < 2 ^ 32" "page_aligned pd" "unat pd < 2 ^ 32" using l by (auto simp: page_aligned_dvd)
  note e = table_entry_or3 [OF x(1,2)] table_entry_or3 [OF x(3,4)]
  note b = big_entry_bits(2,3) [OF index_less(3)]
  show ?thesis
    using index_less [of a] g e b big_page_address [of a] upper_index_zero [OF assms(3)]
    by (auto simp: vmm_translate_def Let_def present_bit large_bit)
qed

definition boot_sample :: vmm_layout where
  "boot_sample = \<lparr>l_pml4 = 0x1000, l_pdpt = 0x2000, l_bootstrap_pd = 0x10000, l_bootstrap_pt = 0x11000, l_bootstrap_high_pdpt = 0x12000\<rparr>"

theorem boot_identity_witness:
  "let M = \<lparr>mem = boot_tables 0x1000 0x2000 0x3000 (\<lambda>_. 0xAA), kpmm = sample_pmm, cr3 = 0x1000\<rparr> in
   vmm_translate boot_sample 0xB8000 M = 0xB8000 \<and> vmm_translate boot_sample 0x40000000 M = 0"
proof -
  have "boot_layout (l_pml4 boot_sample) 0x2000 0x3000" by (simp add: boot_layout_def boot_sample_def page_aligned_dvd)
  from boot_identity [OF this, of _ "\<lambda>_. 0xAA"] show ?thesis by (simp add: Let_def) (simp add: boot_sample_def)
qed

end
