(* ===== verification/Spec2Isabelle.thy ===== *)
theory Spec2Isabelle
  imports Pmm_Multiboot Heap Address_Space Vmm Scheduler Fat32_Volume Config Pci Ata_Pio Process_Exec Framebuffer Setup Traps Boot
begin

text \<open>
  \<^bold>\<open>SuiraBox OS.\<close> A model of the kernel's C sources and the theorems that make it correct.
  \<open>Pmm\<close> and \<open>Pmm_Refine\<close> hold the physical page allocator (\<^verbatim>\<open>kernel/mm/pmm.c\<close> and
  \<^verbatim>\<open>kernel/mm/pmm_bootstrap.c\<close>), \<open>Pmm_Multiboot\<close> its start from the boot information block,
  \<open>Heap\<close> the one-block kernel heap, \<open>Page_Tables\<close>, \<open>Slot_Map\<close>, \<open>Address_Space\<close> and \<open>Vmm\<close> the
  page tables, \<open>Scheduler\<close> the round-robin scheduler and the context switch.
\<close>

end
